(* ===== verification/Prelude.thy ===== *)
theory Prelude
  imports Main "HOL-Library.Word" "HOL-Library.Multiset" "HOL-Library.Monad_Syntax"
begin

text \<open>
  Shared vocabulary of the development: the machine-integer types of the C sources, the two
  C conversions that matter (to \<open>int32_t\<close> and to \<open>uint32_t\<close>), and the generic facts on lists,
  options and words that the component theories use.

  Conventions used everywhere.  A C function that may call \<open>die()\<close> (print and exit) or whose
  execution is undefined behaviour returns an option; \<open>None\<close> is that outcome.  C strings are
  \<open>string\<close> values without their terminating NUL.  Memory allocation is taken to succeed.
\<close>

unbundle bit_operations_syntax

type_synonym u8 = "8 word"
type_synonym u16 = "16 word"
type_synonym u32 = "32 word"
type_synonym u64 = "64 word"

named_theorems fields \<open>extraction of an instruction field from a packed word\<close>
named_theorems frame \<open>what an operation leaves unchanged\<close>

subsection \<open>C conversions\<close>

text \<open>\<open>(int32_t)v\<close> for a wider signed value: keep 32 bits, read them as two's complement.\<close>

definition int32 :: "int \<Rightarrow> int" where
  "int32 v = signed_take_bit 31 v"

text \<open>\<open>(uint32_t)v\<close> for a signed value.\<close>

definition u32_of :: "int \<Rightarrow> u32" where
  "u32_of v = word_of_int v"

definition INT_MAX :: int where
  "INT_MAX = 2147483647"

lemma int32_range: "- 2147483648 \<le> int32 v \<and> int32 v < 2147483648"
  using signed_take_bit_int_greater_eq_minus_exp [of 31 v] signed_take_bit_int_less_exp [of 31 v]
  by (simp add: int32_def)

lemma int32_id: "- 2147483648 \<le> v \<Longrightarrow> v < 2147483648 \<Longrightarrow> int32 v = v"
  by (simp add: int32_def signed_take_bit_int_eq_self)

lemma u32_of_int32 [simp]: "u32_of (int32 v) = u32_of v"
  by (simp add: u32_of_def int32_def word_of_int_eq_iff take_bit_signed_take_bit)

subsection \<open>Lists\<close>

text \<open>Reading an updated array inside its bounds, wherever the update went.\<close>

lemma nth_upd: "j < length xs \<Longrightarrow> xs[i := x] ! j = (if i = j then x else xs ! j)"
  by (cases "i = j") auto

lemma upd_fun:
  "p < length xs \<Longrightarrow> (\<lambda>q. f (xs[p := x] ! q)) = (\<lambda>q. f (xs ! q))(p := f x)"
  by (auto simp: fun_eq_iff nth_list_update)

lemma upd_fun_same:
  "f x = f (xs ! p) \<Longrightarrow> (\<lambda>q. f (xs[p := x] ! q)) = (\<lambda>q. f (xs ! q))"
  by (cases "p < length xs") (auto simp: fun_eq_iff nth_list_update list_update_beyond)

lemma set_butlast_distinct: "distinct xs \<Longrightarrow> xs \<noteq> [] \<Longrightarrow> set (butlast xs) = set xs - {last xs}"
  by (induction xs rule: rev_induct) auto

lemma distinct_split_insert:
  assumes "distinct xs" "x \<notin> set xs"
  shows "distinct (takeWhile P xs @ x # dropWhile P xs)"
proof -
  define ys zs where "ys = takeWhile P xs" and "zs = dropWhile P xs"
  then have "xs = ys @ zs" by simp
  with assms have "distinct (ys @ x # zs)" by auto
  then show ?thesis by (simp only: ys_def zs_def)
qed

end
