(* ===== verification/Ir.thy ===== *)
theory Ir
  imports Prelude
begin

text \<open>
  The portable three-address IR of \<^verbatim>\<open>ir/ir.h\<close> and its builder \<^verbatim>\<open>ir/ir.c\<close>.  An opcode is an
  \<open>int\<close>, as in \<^verbatim>\<open>struct ir_insn\<close>; the enumerators are abbreviations for their C values, and
  \<open>ir_op_enum\<close> is the enumeration itself, in source order.  The singly linked instruction list
  between \<open>head\<close> and \<open>tail\<close> is a list; a nullable pointer is an option.
\<close>

subsection \<open>Opcodes\<close>

type_synonym ir_op = int

abbreviation (input) IR_NOP :: ir_op where "IR_NOP \<equiv> 0"
abbreviation (input) IR_LIC :: ir_op where "IR_LIC \<equiv> 1"
abbreviation (input) IR_LEA :: ir_op where "IR_LEA \<equiv> 2"
abbreviation (input) IR_ADL :: ir_op where "IR_ADL \<equiv> 3"
abbreviation (input) IR_MOV :: ir_op where "IR_MOV \<equiv> 4"
abbreviation (input) IR_ADD :: ir_op where "IR_ADD \<equiv> 5"
abbreviation (input) IR_SUB :: ir_op where "IR_SUB \<equiv> 6"
abbreviation (input) IR_MUL :: ir_op where "IR_MUL \<equiv> 7"
abbreviation (input) IR_DIVS :: ir_op where "IR_DIVS \<equiv> 8"
abbreviation (input) IR_DIVU :: ir_op where "IR_DIVU \<equiv> 9"
abbreviation (input) IR_MODS :: ir_op where "IR_MODS \<equiv> 10"
abbreviation (input) IR_MODU :: ir_op where "IR_MODU \<equiv> 11"
abbreviation (input) IR_AND :: ir_op where "IR_AND \<equiv> 12"
abbreviation (input) IR_OR :: ir_op where "IR_OR \<equiv> 13"
abbreviation (input) IR_XOR :: ir_op where "IR_XOR \<equiv> 14"
abbreviation (input) IR_SHL :: ir_op where "IR_SHL \<equiv> 15"
abbreviation (input) IR_SHRS :: ir_op where "IR_SHRS \<equiv> 16"
abbreviation (input) IR_SHRU :: ir_op where "IR_SHRU \<equiv> 17"
abbreviation (input) IR_NEG :: ir_op where "IR_NEG \<equiv> 18"
abbreviation (input) IR_NOT :: ir_op where "IR_NOT \<equiv> 19"
abbreviation (input) IR_LB :: ir_op where "IR_LB \<equiv> 20"
abbreviation (input) IR_LBS :: ir_op where "IR_LBS \<equiv> 21"
abbreviation (input) IR_LH :: ir_op where "IR_LH \<equiv> 22"
abbreviation (input) IR_LHS :: ir_op where "IR_LHS \<equiv> 23"
abbreviation (input) IR_LW :: ir_op where "IR_LW \<equiv> 24"
abbreviation (input) IR_SB :: ir_op where "IR_SB \<equiv> 25"
abbreviation (input) IR_SH :: ir_op where "IR_SH \<equiv> 26"
abbreviation (input) IR_SW :: ir_op where "IR_SW \<equiv> 27"
abbreviation (input) IR_LDL :: ir_op where "IR_LDL \<equiv> 28"
abbreviation (input) IR_STL :: ir_op where "IR_STL \<equiv> 29"
abbreviation (input) IR_ALLOCA :: ir_op where "IR_ALLOCA \<equiv> 30"
abbreviation (input) IR_CMPEQ :: ir_op where "IR_CMPEQ \<equiv> 31"
abbreviation (input) IR_CMPNE :: ir_op where "IR_CMPNE \<equiv> 32"
abbreviation (input) IR_CMPLTS :: ir_op where "IR_CMPLTS \<equiv> 33"
abbreviation (input) IR_CMPLES :: ir_op where "IR_CMPLES \<equiv> 34"
abbreviation (input) IR_CMPGTS :: ir_op where "IR_CMPGTS \<equiv> 35"
abbreviation (input) IR_CMPGES :: ir_op where "IR_CMPGES \<equiv> 36"
abbreviation (input) IR_CMPLTU :: ir_op where "IR_CMPLTU \<equiv> 37"
abbreviation (input) IR_CMPLEU :: ir_op where "IR_CMPLEU \<equiv> 38"
abbreviation (input) IR_CMPGTU :: ir_op where "IR_CMPGTU \<equiv> 39"
abbreviation (input) IR_CMPGEU :: ir_op where "IR_CMPGEU \<equiv> 40"
abbreviation (input) IR_JMP :: ir_op where "IR_JMP \<equiv> 41"
abbreviation (input) IR_BZ :: ir_op where "IR_BZ \<equiv> 42"
abbreviation (input) IR_BNZ :: ir_op where "IR_BNZ \<equiv> 43"
abbreviation (input) IR_ARG :: ir_op where "IR_ARG \<equiv> 44"
abbreviation (input) IR_FARG :: ir_op where "IR_FARG \<equiv> 45"
abbreviation (input) IR_CALL :: ir_op where "IR_CALL \<equiv> 46"
abbreviation (input) IR_CALLI :: ir_op where "IR_CALLI \<equiv> 47"
abbreviation (input) IR_TAILCALL :: ir_op where "IR_TAILCALL \<equiv> 48"
abbreviation (input) IR_TAILCALLI :: ir_op where "IR_TAILCALLI \<equiv> 49"
abbreviation (input) IR_RET :: ir_op where "IR_RET \<equiv> 50"
abbreviation (input) IR_RETV :: ir_op where "IR_RETV \<equiv> 51"
abbreviation (input) IR_FUNC :: ir_op where "IR_FUNC \<equiv> 52"
abbreviation (input) IR_ENDF :: ir_op where "IR_ENDF \<equiv> 53"
abbreviation (input) IR_LABEL :: ir_op where "IR_LABEL \<equiv> 54"
abbreviation (input) IR_MARK :: ir_op where "IR_MARK \<equiv> 55"
abbreviation (input) IR_CAPTURE :: ir_op where "IR_CAPTURE \<equiv> 56"
abbreviation (input) IR_RESUME :: ir_op where "IR_RESUME \<equiv> 57"
abbreviation (input) IR_CONT_UNWIND :: ir_op where "IR_CONT_UNWIND \<equiv> 58"
abbreviation (input) IR_FADD :: ir_op where "IR_FADD \<equiv> 59"
abbreviation (input) IR_FSUB :: ir_op where "IR_FSUB \<equiv> 60"
abbreviation (input) IR_FMUL :: ir_op where "IR_FMUL \<equiv> 61"
abbreviation (input) IR_FDIV :: ir_op where "IR_FDIV \<equiv> 62"
abbreviation (input) IR_FNEG :: ir_op where "IR_FNEG \<equiv> 63"
abbreviation (input) IR_FABS :: ir_op where "IR_FABS \<equiv> 64"
abbreviation (input) IR_FSQRT :: ir_op where "IR_FSQRT \<equiv> 65"
abbreviation (input) IR_FCMPEQ :: ir_op where "IR_FCMPEQ \<equiv> 66"
abbreviation (input) IR_FCMPLT :: ir_op where "IR_FCMPLT \<equiv> 67"
abbreviation (input) IR_FCMPLE :: ir_op where "IR_FCMPLE \<equiv> 68"
abbreviation (input) IR_ITOF :: ir_op where "IR_ITOF \<equiv> 69"
abbreviation (input) IR_FTOI :: ir_op where "IR_FTOI \<equiv> 70"
abbreviation (input) IR_FROUND :: ir_op where "IR_FROUND \<equiv> 71"
abbreviation (input) IR_F32TOF64 :: ir_op where "IR_F32TOF64 \<equiv> 72"
abbreviation (input) IR_F64TOF32 :: ir_op where "IR_F64TOF32 \<equiv> 73"
abbreviation (input) IR_FLS :: ir_op where "IR_FLS \<equiv> 74"
abbreviation (input) IR_FLD :: ir_op where "IR_FLD \<equiv> 75"
abbreviation (input) IR_FSS :: ir_op where "IR_FSS \<equiv> 76"
abbreviation (input) IR_FSD :: ir_op where "IR_FSD \<equiv> 77"
abbreviation (input) IR_FLH :: ir_op where "IR_FLH \<equiv> 78"
abbreviation (input) IR_FSH :: ir_op where "IR_FSH \<equiv> 79"
abbreviation (input) IR_FLDL :: ir_op where "IR_FLDL \<equiv> 80"
abbreviation (input) IR_FSTL :: ir_op where "IR_FSTL \<equiv> 81"
abbreviation (input) IR_FRETV :: ir_op where "IR_FRETV \<equiv> 82"
abbreviation (input) IR_FCALL :: ir_op where "IR_FCALL \<equiv> 83"
abbreviation (input) IR_FCALLI :: ir_op where "IR_FCALLI \<equiv> 84"
abbreviation (input) IR_LIC64 :: ir_op where "IR_LIC64 \<equiv> 85"
abbreviation (input) IR_ADD64 :: ir_op where "IR_ADD64 \<equiv> 86"
abbreviation (input) IR_SUB64 :: ir_op where "IR_SUB64 \<equiv> 87"
abbreviation (input) IR_MUL64 :: ir_op where "IR_MUL64 \<equiv> 88"
abbreviation (input) IR_DIVS64 :: ir_op where "IR_DIVS64 \<equiv> 89"
abbreviation (input) IR_DIVU64 :: ir_op where "IR_DIVU64 \<equiv> 90"
abbreviation (input) IR_MODS64 :: ir_op where "IR_MODS64 \<equiv> 91"
abbreviation (input) IR_MODU64 :: ir_op where "IR_MODU64 \<equiv> 92"
abbreviation (input) IR_AND64 :: ir_op where "IR_AND64 \<equiv> 93"
abbreviation (input) IR_OR64 :: ir_op where "IR_OR64 \<equiv> 94"
abbreviation (input) IR_XOR64 :: ir_op where "IR_XOR64 \<equiv> 95"
abbreviation (input) IR_SHL64 :: ir_op where "IR_SHL64 \<equiv> 96"
abbreviation (input) IR_SHRS64 :: ir_op where "IR_SHRS64 \<equiv> 97"
abbreviation (input) IR_SHRU64 :: ir_op where "IR_SHRU64 \<equiv> 98"
abbreviation (input) IR_NEG64 :: ir_op where "IR_NEG64 \<equiv> 99"
abbreviation (input) IR_CMP64EQ :: ir_op where "IR_CMP64EQ \<equiv> 100"
abbreviation (input) IR_CMP64NE :: ir_op where "IR_CMP64NE \<equiv> 101"
abbreviation (input) IR_CMP64LTS :: ir_op where "IR_CMP64LTS \<equiv> 102"
abbreviation (input) IR_CMP64LES :: ir_op where "IR_CMP64LES \<equiv> 103"
abbreviation (input) IR_CMP64GTS :: ir_op where "IR_CMP64GTS \<equiv> 104"
abbreviation (input) IR_CMP64GES :: ir_op where "IR_CMP64GES \<equiv> 105"
abbreviation (input) IR_CMP64LTU :: ir_op where "IR_CMP64LTU \<equiv> 106"
abbreviation (input) IR_CMP64LEU :: ir_op where "IR_CMP64LEU \<equiv> 107"
abbreviation (input) IR_CMP64GTU :: ir_op where "IR_CMP64GTU \<equiv> 108"
abbreviation (input) IR_CMP64GEU :: ir_op where "IR_CMP64GEU \<equiv> 109"
abbreviation (input) IR_LD64 :: ir_op where "IR_LD64 \<equiv> 110"
abbreviation (input) IR_ST64 :: ir_op where "IR_ST64 \<equiv> 111"
abbreviation (input) IR_LDL64 :: ir_op where "IR_LDL64 \<equiv> 112"
abbreviation (input) IR_STL64 :: ir_op where "IR_STL64 \<equiv> 113"
abbreviation (input) IR_LEA64 :: ir_op where "IR_LEA64 \<equiv> 114"
abbreviation (input) IR_ADL64 :: ir_op where "IR_ADL64 \<equiv> 115"
abbreviation (input) IR_VA_START :: ir_op where "IR_VA_START \<equiv> 116"
abbreviation (input) IR_SEXT64 :: ir_op where "IR_SEXT64 \<equiv> 117"
abbreviation (input) IR_ZEXT64 :: ir_op where "IR_ZEXT64 \<equiv> 118"
abbreviation (input) IR_TRUNC64 :: ir_op where "IR_TRUNC64 \<equiv> 119"
abbreviation (input) IR_ARG64 :: ir_op where "IR_ARG64 \<equiv> 120"
abbreviation (input) IR_RETV64 :: ir_op where "IR_RETV64 \<equiv> 121"
abbreviation (input) IR_CALL64 :: ir_op where "IR_CALL64 \<equiv> 122"
abbreviation (input) IR_CALLI64 :: ir_op where "IR_CALLI64 \<equiv> 123"
abbreviation (input) IR_RETV_AGG :: ir_op where "IR_RETV_AGG \<equiv> 124"
abbreviation (input) IR_CALL_AGG :: ir_op where "IR_CALL_AGG \<equiv> 125"
abbreviation (input) IR_CALLI_AGG :: ir_op where "IR_CALLI_AGG \<equiv> 126"
abbreviation (input) IR_ARG_MEM :: ir_op where "IR_ARG_MEM \<equiv> 127"
abbreviation (input) IR_ARG_X8 :: ir_op where "IR_ARG_X8 \<equiv> 128"
abbreviation (input) IR_ASM :: ir_op where "IR_ASM \<equiv> 129"
abbreviation (input) IR_ADDO :: ir_op where "IR_ADDO \<equiv> 130"
abbreviation (input) IR_SUBO :: ir_op where "IR_SUBO \<equiv> 131"
abbreviation (input) IR_MULO :: ir_op where "IR_MULO \<equiv> 132"
abbreviation (input) IR_LOC :: ir_op where "IR_LOC \<equiv> 133"
abbreviation (input) IR_RETV2 :: ir_op where "IR_RETV2 \<equiv> 134"
abbreviation (input) IR_CALL2 :: ir_op where "IR_CALL2 \<equiv> 135"
abbreviation (input) IR_CALLI2 :: ir_op where "IR_CALLI2 \<equiv> 136"
abbreviation (input) IR_LABADDR :: ir_op where "IR_LABADDR \<equiv> 137"
abbreviation (input) IR_IJMP :: ir_op where "IR_IJMP \<equiv> 138"
abbreviation (input) IR_LABADDR64 :: ir_op where "IR_LABADDR64 \<equiv> 139"
abbreviation (input) IR_IJMP64 :: ir_op where "IR_IJMP64 \<equiv> 140"

definition ir_op_enum :: "string list" where
  "ir_op_enum = [
    ''IR_NOP'', ''IR_LIC'', ''IR_LEA'', ''IR_ADL'', ''IR_MOV'', ''IR_ADD'', ''IR_SUB'',
    ''IR_MUL'', ''IR_DIVS'', ''IR_DIVU'', ''IR_MODS'', ''IR_MODU'', ''IR_AND'', ''IR_OR'',
    ''IR_XOR'', ''IR_SHL'', ''IR_SHRS'', ''IR_SHRU'', ''IR_NEG'', ''IR_NOT'', ''IR_LB'',
    ''IR_LBS'', ''IR_LH'', ''IR_LHS'', ''IR_LW'', ''IR_SB'', ''IR_SH'', ''IR_SW'', ''IR_LDL'',
    ''IR_STL'', ''IR_ALLOCA'', ''IR_CMPEQ'', ''IR_CMPNE'', ''IR_CMPLTS'', ''IR_CMPLES'',
    ''IR_CMPGTS'', ''IR_CMPGES'', ''IR_CMPLTU'', ''IR_CMPLEU'', ''IR_CMPGTU'', ''IR_CMPGEU'',
    ''IR_JMP'', ''IR_BZ'', ''IR_BNZ'', ''IR_ARG'', ''IR_FARG'', ''IR_CALL'', ''IR_CALLI'',
    ''IR_TAILCALL'', ''IR_TAILCALLI'', ''IR_RET'', ''IR_RETV'', ''IR_FUNC'', ''IR_ENDF'',
    ''IR_LABEL'', ''IR_MARK'', ''IR_CAPTURE'', ''IR_RESUME'', ''IR_CONT_UNWIND'', ''IR_FADD'',
    ''IR_FSUB'', ''IR_FMUL'', ''IR_FDIV'', ''IR_FNEG'', ''IR_FABS'', ''IR_FSQRT'',
    ''IR_FCMPEQ'', ''IR_FCMPLT'', ''IR_FCMPLE'', ''IR_ITOF'', ''IR_FTOI'', ''IR_FROUND'',
    ''IR_F32TOF64'', ''IR_F64TOF32'', ''IR_FLS'', ''IR_FLD'', ''IR_FSS'', ''IR_FSD'',
    ''IR_FLH'', ''IR_FSH'', ''IR_FLDL'', ''IR_FSTL'', ''IR_FRETV'', ''IR_FCALL'',
    ''IR_FCALLI'', ''IR_LIC64'', ''IR_ADD64'', ''IR_SUB64'', ''IR_MUL64'', ''IR_DIVS64'',
    ''IR_DIVU64'', ''IR_MODS64'', ''IR_MODU64'', ''IR_AND64'', ''IR_OR64'', ''IR_XOR64'',
    ''IR_SHL64'', ''IR_SHRS64'', ''IR_SHRU64'', ''IR_NEG64'', ''IR_CMP64EQ'', ''IR_CMP64NE'',
    ''IR_CMP64LTS'', ''IR_CMP64LES'', ''IR_CMP64GTS'', ''IR_CMP64GES'', ''IR_CMP64LTU'',
    ''IR_CMP64LEU'', ''IR_CMP64GTU'', ''IR_CMP64GEU'', ''IR_LD64'', ''IR_ST64'', ''IR_LDL64'',
    ''IR_STL64'', ''IR_LEA64'', ''IR_ADL64'', ''IR_VA_START'', ''IR_SEXT64'', ''IR_ZEXT64'',
    ''IR_TRUNC64'', ''IR_ARG64'', ''IR_RETV64'', ''IR_CALL64'', ''IR_CALLI64'',
    ''IR_RETV_AGG'', ''IR_CALL_AGG'', ''IR_CALLI_AGG'', ''IR_ARG_MEM'', ''IR_ARG_X8'',
    ''IR_ASM'', ''IR_ADDO'', ''IR_SUBO'', ''IR_MULO'', ''IR_LOC'', ''IR_RETV2'', ''IR_CALL2'',
    ''IR_CALLI2'', ''IR_LABADDR'', ''IR_IJMP'', ''IR_LABADDR64'', ''IR_IJMP64'']"

text \<open>The width tag in \<open>imm\<close> of a floating-point opcode: single precision.\<close>

definition FWIDTH_F32 :: int where
  "FWIDTH_F32 = 4"

subsection \<open>Instructions, functions, globals\<close>

record ir_asm_op =
  ao_constraint :: string
  ao_pin_reg :: "string option"
  ao_temp :: int
  ao_size :: int
  ao_is_output :: bool
  ao_is_inout :: bool

text \<open>\<open>ai_ops\<close> holds the \<open>noutputs\<close> outputs and then the \<open>ninputs\<close> inputs.\<close>

record ir_asm_info =
  ai_noutputs :: nat
  ai_ninputs :: nat
  ai_ops :: "ir_asm_op list"
  ai_clobbers :: "string list"
  ai_is_volatile :: bool

record ir_insn =
  i_op :: ir_op
  i_dst :: int
  i_a :: int
  i_b :: int
  i_imm :: int
  i_sym :: "string option"
  i_asm_info :: "ir_asm_info option"
  i_slot :: int
  i_label :: int
  i_nargs :: int
  i_vararg :: bool
  i_argalign :: int

record ir_func =
  fn_name :: string
  fn_from_unit :: "string option"
  fn_src_file :: "string option"
  fn_is_local :: bool
  fn_nparams :: nat
  fn_nslots :: nat
  fn_slot_size :: "int list"
  fn_slot_align :: "int list option"
  fn_param_class :: "int list option"
  fn_param_neb :: "int list option"
  fn_param_cls :: "int list option"
  fn_param_fw :: "int list option"
  fn_ret_neb :: int
  fn_ret_cls :: "int list"
  fn_is_variadic :: bool
  fn_ntemps :: nat
  fn_nlabels :: nat
  fn_nspills :: nat
  fn_nfspills :: nat
  fn_ni64spills :: nat
  fn_temp_reg :: "int list"
  fn_temp_spill :: "int list"
  fn_insns :: "ir_insn list"

subsection \<open>The builder\<close>

text \<open>\<open>arena_zalloc\<close> zeroes the whole structure before the name is set.\<close>

definition ir_new_func :: "string \<Rightarrow> ir_func" where
  "ir_new_func name =
     \<lparr> fn_name = name, fn_from_unit = None, fn_src_file = None, fn_is_local = False,
       fn_nparams = 0, fn_nslots = 0, fn_slot_size = [], fn_slot_align = None,
       fn_param_class = None, fn_param_neb = None, fn_param_cls = None, fn_param_fw = None,
       fn_ret_neb = 0, fn_ret_cls = [0, 0, 0, 0], fn_is_variadic = False, fn_ntemps = 0,
       fn_nlabels = 0, fn_nspills = 0, fn_nfspills = 0, fn_ni64spills = 0, fn_temp_reg = [],
       fn_temp_spill = [], fn_insns = [] \<rparr>"

definition ir_new_temp :: "ir_func \<Rightarrow> nat \<times> ir_func" where
  "ir_new_temp fn = (fn_ntemps fn, fn\<lparr>fn_ntemps := fn_ntemps fn + 1\<rparr>)"

definition ir_new_label :: "ir_func \<Rightarrow> nat \<times> ir_func" where
  "ir_new_label fn = (fn_nlabels fn, fn\<lparr>fn_nlabels := fn_nlabels fn + 1\<rparr>)"

text \<open>The instruction \<open>ir_emit\<close> links at the tail; a caller then fills its fields.\<close>

definition blank_insn :: "ir_op \<Rightarrow> ir_insn" where
  "blank_insn op =
     \<lparr> i_op = op, i_dst = -1, i_a = -1, i_b = -1, i_imm = 0, i_sym = None, i_asm_info = None,
       i_slot = -1, i_label = -1, i_nargs = 0, i_vararg = False, i_argalign = 0 \<rparr>"

definition ir_emit :: "ir_func \<Rightarrow> ir_op \<Rightarrow> ir_func" where
  "ir_emit fn op = fn\<lparr>fn_insns := fn_insns fn @ [blank_insn op]\<rparr>"

definition ir_loc :: "ir_func \<Rightarrow> int \<Rightarrow> ir_func" where
  "ir_loc fn line =
     (let fn' = ir_emit fn IR_LOC; k = length (fn_insns fn)
      in fn'\<lparr>fn_insns := (fn_insns fn')[k := (fn_insns fn' ! k)\<lparr>i_imm := line\<rparr>]\<rparr>)"

subsection \<open>Opcode classifiers\<close>

definition ir_op_is_float_def :: "ir_op \<Rightarrow> bool" where
  "ir_op_is_float_def op \<longleftrightarrow>
     op \<in> {IR_FADD, IR_FSUB, IR_FMUL, IR_FDIV, IR_FNEG, IR_FABS, IR_FSQRT, IR_ITOF,
           IR_F32TOF64, IR_F64TOF32, IR_FLS, IR_FLD, IR_FLH, IR_FLDL, IR_FCALL, IR_FCALLI}"

definition ir_op_is_i64_def :: "ir_op \<Rightarrow> bool" where
  "ir_op_is_i64_def op \<longleftrightarrow>
     op \<in> {IR_LIC64, IR_ADD64, IR_SUB64, IR_MUL64, IR_DIVS64, IR_DIVU64, IR_MODS64, IR_MODU64,
           IR_AND64, IR_OR64, IR_XOR64, IR_SHL64, IR_SHRS64, IR_SHRU64, IR_NEG64, IR_LD64,
           IR_LDL64, IR_LEA64, IR_ADL64, IR_SEXT64, IR_ZEXT64, IR_CALL64, IR_CALLI64}"

subsection \<open>The register format of float temps\<close>

text \<open>\<open>MARK(t, f32)\<close>: bit 0 of the marker records a single-precision view, bit 1 a double one.\<close>

definition mark :: "int \<Rightarrow> bool \<Rightarrow> u8 list \<Rightarrow> u8 list" where
  "mark t f32 out =
     (if 0 \<le> t \<and> t < int (length out)
      then out[nat t := (out ! nat t) OR (if f32 then 1 else 2)] else out)"

definition classify_insn :: "ir_insn \<Rightarrow> u8 list \<Rightarrow> u8 list" where
  "classify_insn i out =
     (let w32 = (i_imm i = FWIDTH_F32); op = i_op i in
      if op \<in> {IR_FADD, IR_FSUB, IR_FMUL, IR_FDIV}
        then mark (i_b i) w32 (mark (i_a i) w32 (mark (i_dst i) w32 out))
      else if op \<in> {IR_FCMPEQ, IR_FCMPLT, IR_FCMPLE}
        then mark (i_b i) w32 (mark (i_a i) w32 out)
      else if op \<in> {IR_FNEG, IR_FABS, IR_FSQRT} then mark (i_a i) w32 (mark (i_dst i) w32 out)
      else if op = IR_FLDL then mark (i_dst i) w32 out
      else if op = IR_FSTL then mark (i_a i) w32 out
      else if op = IR_ITOF then mark (i_dst i) w32 out
      else if op \<in> {IR_FTOI, IR_FROUND} then mark (i_a i) w32 out
      else if op = IR_F64TOF32 then mark (i_a i) False (mark (i_dst i) True out)
      else if op = IR_F32TOF64 then mark (i_a i) True (mark (i_dst i) False out)
      else if op = IR_FLD then mark (i_dst i) w32 out
      else if op = IR_FSD then mark (i_b i) w32 out
      else if op \<in> {IR_FLS, IR_FLH} then mark (i_dst i) False out
      else if op \<in> {IR_FSS, IR_FSH} then mark (i_b i) False out
      else out)"

definition ir_classify_f32 :: "ir_func \<Rightarrow> u8 list" where
  "ir_classify_f32 fn =
     map (\<lambda>m. if m = 1 then 1 else 0)
       (fold classify_insn (fn_insns fn) (replicate (fn_ntemps fn) 0))"

subsection \<open>What the classifiers mean\<close>

text \<open>
  The views an instruction takes of its float operands, read off the opcode: the pairs
  \<open>(temp, is_single)\<close>.  The call-boundary opcodes take none.
\<close>

definition float_views :: "ir_insn \<Rightarrow> (int \<times> bool) list" where
  "float_views i =
     (let w = (i_imm i = FWIDTH_F32); d = i_dst i; a = i_a i; b = i_b i; op = i_op i in
      if op \<in> {IR_FADD, IR_FSUB, IR_FMUL, IR_FDIV} then [(d, w), (a, w), (b, w)]
      else if op \<in> {IR_FCMPEQ, IR_FCMPLT, IR_FCMPLE} then [(a, w), (b, w)]
      else if op \<in> {IR_FNEG, IR_FABS, IR_FSQRT} then [(d, w), (a, w)]
      else if op \<in> {IR_FLDL, IR_ITOF, IR_FLD} then [(d, w)]
      else if op \<in> {IR_FSTL, IR_FTOI, IR_FROUND} then [(a, w)]
      else if op = IR_F64TOF32 then [(d, True), (a, False)]
      else if op = IR_F32TOF64 then [(d, False), (a, True)]
      else if op = IR_FSD then [(b, w)]
      else if op \<in> {IR_FLS, IR_FLH} then [(d, False)]
      else if op \<in> {IR_FSS, IR_FSH} then [(b, False)]
      else [])"

definition marks :: "(int \<times> bool) list \<Rightarrow> u8 list \<Rightarrow> u8 list" where
  "marks vs out = fold (\<lambda>(t, f). mark t f) vs out"

lemma classify_insn_marks: "classify_insn i out = marks (float_views i) out"
  by (simp add: classify_insn_def float_views_def marks_def Let_def)

lemma length_mark [simp]: "length (mark t f out) = length out"
  by (simp add: mark_def)

lemma length_marks [simp]: "length (marks vs out) = length out"
  by (induction vs arbitrary: out) (auto simp: marks_def)

lemma length_classify [simp]: "length (classify_insn i out) = length out"
  by (simp add: classify_insn_marks)

text \<open>The marker of a temp is exactly the set of views taken of it so far.\<close>

definition view_bits :: "bool \<Rightarrow> bool \<Rightarrow> u8" where
  "view_bits s d = (if s then 1 else 0) OR (if d then 2 else 0)"

lemma view_bits_eq_1 [simp]: "view_bits s d = 1 \<longleftrightarrow> s \<and> \<not> d"
  by (cases s; cases d) (simp_all add: view_bits_def)

lemma view_bits_or:
  "view_bits s d OR (if f then 1 else 2) = view_bits (s \<or> f) (d \<or> \<not> f)"
  by (cases s; cases d; cases f) (simp_all add: view_bits_def)

lemma marks_bits:
  assumes "t < length out" "out ! t = view_bits s d"
  shows "marks vs out ! t =
    view_bits (s \<or> (int t, True) \<in> set vs) (d \<or> (int t, False) \<in> set vs)"
  using assms
proof (induction vs arbitrary: out s d)
  case Nil
  then show ?case by (simp add: marks_def)
next
  case (Cons v vs)
  obtain u f where v: "v = (u, f)" by force
  define s' d' where "s' = (s \<or> (int t, True) = v)" and "d' = (d \<or> (int t, False) = v)"
  have "mark u f out ! t = view_bits s' d'"
    using Cons.prems unfolding s'_def d'_def v
    by (cases "u = int t"; cases f)
      (auto simp: mark_def view_bits_or [where f = True, simplified]
        view_bits_or [where f = False, simplified] nth_list_update)
  moreover have "t < length (mark u f out)" using Cons.prems by simp
  ultimately have "marks vs (mark u f out) ! t =
      view_bits (s' \<or> (int t, True) \<in> set vs) (d' \<or> (int t, False) \<in> set vs)"
    by (rule Cons.IH [rotated])
  then show ?case by (simp add: marks_def v s'_def d'_def disj_assoc)
qed

lemma fold_classify:
  "fold classify_insn is out = marks (concat (map float_views is)) out"
  by (induction "is" arbitrary: out) (auto simp: classify_insn_marks marks_def)

text \<open>
  C23: \<open>ir_classify_f32\<close> reports a temp as single precision exactly when some instruction takes a
  single-precision view of it and none takes a double-precision one; one byte per temp.
\<close>

theorem ir_classify_f32_spec:
  "length (ir_classify_f32 fn) = fn_ntemps fn \<and>
   (\<forall>t. t < fn_ntemps fn \<longrightarrow>
      ir_classify_f32 fn ! t =
        (if (\<exists>i \<in> set (fn_insns fn). (int t, True) \<in> set (float_views i)) \<and>
            \<not> (\<exists>i \<in> set (fn_insns fn). (int t, False) \<in> set (float_views i)) then 1 else 0))"
proof -
  have len: "length (fold classify_insn is out) = length out" for "is" out
    by (simp add: fold_classify)
  have "fold classify_insn (fn_insns fn) (replicate (fn_ntemps fn) 0) ! t =
      view_bits (\<exists>i \<in> set (fn_insns fn). (int t, True) \<in> set (float_views i))
        (\<exists>i \<in> set (fn_insns fn). (int t, False) \<in> set (float_views i))" if "t < fn_ntemps fn" for t
    using marks_bits [of t "replicate (fn_ntemps fn) 0" False False] that
    by (simp add: fold_classify view_bits_def)
  then show ?thesis by (simp add: ir_classify_f32_def len)
qed

definition demo_float_fn :: ir_func where
  "demo_float_fn = (ir_new_func ''f'')\<lparr> fn_ntemps := 2, fn_insns :=
     [(blank_insn IR_FLDL)\<lparr>i_dst := 0, i_imm := FWIDTH_F32\<rparr>,
      (blank_insn IR_F32TOF64)\<lparr>i_dst := 1, i_a := 0\<rparr>] \<rparr>"

theorem ir_classify_f32_spec_witness:
  "ir_classify_f32 demo_float_fn ! 0 = 1 \<and> ir_classify_f32 demo_float_fn ! 1 = 0"
proof -
  have "fn_ntemps demo_float_fn = 2" by (simp add: demo_float_fn_def)
  then have "ir_classify_f32 demo_float_fn ! 0 =
      (if (\<exists>i \<in> set (fn_insns demo_float_fn). (int 0, True) \<in> set (float_views i)) \<and>
          \<not> (\<exists>i \<in> set (fn_insns demo_float_fn). (int 0, False) \<in> set (float_views i)) then 1 else 0)"
    "ir_classify_f32 demo_float_fn ! 1 =
      (if (\<exists>i \<in> set (fn_insns demo_float_fn). (int 1, True) \<in> set (float_views i)) \<and>
          \<not> (\<exists>i \<in> set (fn_insns demo_float_fn). (int 1, False) \<in> set (float_views i)) then 1 else 0)"
    using ir_classify_f32_spec [of demo_float_fn] by simp_all
  then show ?thesis by (simp add: demo_float_fn_def float_views_def blank_insn_def)
qed

end
