(* ===== verification/Linscan.thy ===== *)
theory Linscan
  imports Ir
begin

text \<open>
  The linear-scan core (Poletto and Sarkar) that every backend's register allocator has its
  own copy of: \<open>linscan\<close> in \<^verbatim>\<open>backend/regalloc_{mips,rv,cf,x86,arm64}.c\<close>.  The copies agree up to
  \<open>force_spill\<close>, which only the x86-64 and AArch64 allocators have; an absent \<open>force_spill\<close> or
  \<open>reserved\<close> array (a NULL pointer in C) is \<open>None\<close>.

  The \<open>active\<close> array of pointers into \<open>ivs\<close> is a list of indices into the interval list, so
  that the write through \<open>sp->reg\<close> is a write to the interval array.  \<open>qsort\<close> is the C library's:
  it returns some permutation ordered by the comparison function, ties in any order, which is
  what the locale \<open>interval_qsort\<close> states; the allocator takes it as an argument.
  \<open>active[nactive - 1]\<close> with \<open>nactive = 0\<close> is an out-of-bounds read, the outcome \<open>None\<close>.
\<close>

subsection \<open>Intervals and their order\<close>

record interval =
  iv_temp :: nat
  iv_start :: int
  iv_end :: int
  iv_reg :: int
  iv_spill :: int

definition sort_by_start :: "interval \<Rightarrow> interval \<Rightarrow> int" where
  "sort_by_start a b =
     (if iv_start a \<noteq> iv_start b then iv_start a - iv_start b else iv_end a - iv_end b)"

definition build_ivs :: "bool list \<Rightarrow> int list \<Rightarrow> int list \<Rightarrow> nat \<Rightarrow> interval list" where
  "build_ivs is_class first_def last_use ntemps =
     map (\<lambda>t. \<lparr> iv_temp = t, iv_start = first_def ! t,
               iv_end = (if last_use ! t \<ge> first_def ! t then last_use ! t else first_def ! t),
               iv_reg = -1, iv_spill = -1 \<rparr>)
       (filter (\<lambda>t. is_class ! t \<and> \<not> first_def ! t < 0) [0..<ntemps])"

subsection \<open>The scan\<close>

record scan =
  ls_ivs :: "interval list"
  ls_active :: "nat list"
  ls_pool :: "bool list"
  ls_nspills :: nat

definition init_pool :: "nat \<Rightarrow> bool list option \<Rightarrow> bool list" where
  "init_pool num_regs reserved =
     map (\<lambda>k. case reserved of None \<Rightarrow> True | Some r \<Rightarrow> \<not> r ! k) [0..<num_regs]"

text \<open>Retire the active intervals that end before \<open>iv\<close> starts, returning their registers.\<close>

definition expire :: "int \<Rightarrow> nat \<Rightarrow> scan \<Rightarrow> scan" where
  "expire first_reg p s =
     (let ivs = ls_ivs s; dead = (\<lambda>a. iv_end (ivs ! a) < iv_start (ivs ! p)) in
      s\<lparr> ls_active := filter (\<lambda>a. \<not> dead a) (ls_active s),
         ls_pool := fold (\<lambda>a pool. if dead a then pool[nat (iv_reg (ivs ! a) - first_reg) := True]
                                   else pool) (ls_active s) (ls_pool s) \<rparr>)"

fun find_free :: "bool list \<Rightarrow> nat option" where
  "find_free [] = None"
| "find_free (b # bs) = (if b then Some 0 else map_option Suc (find_free bs))"

text \<open>Insert before the first active interval that ends later, keeping \<open>active\<close> ordered by end.\<close>

definition insert_active :: "interval list \<Rightarrow> nat \<Rightarrow> nat list \<Rightarrow> nat list" where
  "insert_active ivs p act =
     (let stays = (\<lambda>a. \<not> iv_end (ivs ! a) > iv_end (ivs ! p))
      in takeWhile stays act @ p # dropWhile stays act)"

definition spill_iv :: "int \<Rightarrow> nat \<Rightarrow> scan \<Rightarrow> scan" where
  "spill_iv spill_size q s =
     s\<lparr> ls_ivs := (ls_ivs s)[q := (ls_ivs s ! q)\<lparr>iv_spill := int (ls_nspills s) * spill_size\<rparr>],
        ls_nspills := ls_nspills s + 1 \<rparr>"

definition set_reg :: "nat \<Rightarrow> int \<Rightarrow> scan \<Rightarrow> scan" where
  "set_reg q r s = s\<lparr> ls_ivs := (ls_ivs s)[q := (ls_ivs s ! q)\<lparr>iv_reg := r\<rparr>] \<rparr>"

definition alloc_step :: "int \<Rightarrow> int \<Rightarrow> bool list option \<Rightarrow> nat \<Rightarrow> scan \<Rightarrow> scan option" where
  "alloc_step first_reg spill_size force_spill p s0 =
     (let s = expire first_reg p s0;
          forced = (case force_spill of None \<Rightarrow> False | Some f \<Rightarrow> f ! iv_temp (ls_ivs s ! p)) in
      if forced then Some (spill_iv spill_size p s)
      else case find_free (ls_pool s) of
        Some k \<Rightarrow>
          Some ((set_reg p (int k + first_reg) s)
                \<lparr> ls_pool := (ls_pool s)[k := False],
                  ls_active := insert_active (ls_ivs s) p (ls_active s) \<rparr>)
      | None \<Rightarrow>
          if ls_active s = [] then None
          else
            let sp = last (ls_active s) in
            if iv_end (ls_ivs s ! sp) > iv_end (ls_ivs s ! p) then
              Some ((spill_iv spill_size sp (set_reg sp (-1) (set_reg p (iv_reg (ls_ivs s ! sp)) s)))
                    \<lparr> ls_active := insert_active (ls_ivs s) p (butlast (ls_active s)) \<rparr>)
            else Some (spill_iv spill_size p s))"

fun ls_loop :: "int \<Rightarrow> int \<Rightarrow> bool list option \<Rightarrow> nat list \<Rightarrow> scan \<Rightarrow> scan option" where
  "ls_loop first_reg spill_size force_spill [] s = Some s"
| "ls_loop first_reg spill_size force_spill (p # ps) s =
     do { s' \<leftarrow> alloc_step first_reg spill_size force_spill p s;
          ls_loop first_reg spill_size force_spill ps s' }"

text \<open>Write an interval's result into \<open>temp_reg\<close> and \<open>temp_spill\<close>.\<close>

definition store_iv :: "interval \<Rightarrow> int list \<times> int list \<Rightarrow> int list \<times> int list" where
  "store_iv iv ts = ((fst ts)[iv_temp iv := iv_reg iv], (snd ts)[iv_temp iv := iv_spill iv])"

definition linscan ::
  "(interval list \<Rightarrow> interval list) \<Rightarrow> int list \<Rightarrow> int list \<Rightarrow> bool list \<Rightarrow> nat \<Rightarrow> int \<Rightarrow> int \<Rightarrow>
   bool list option \<Rightarrow> bool list option \<Rightarrow> nat \<Rightarrow> int list \<times> int list \<Rightarrow>
   (nat \<times> int list \<times> int list) option" where
  "linscan qsort first_def last_use is_class num_regs first_reg spill_size force_spill reserved ntemps ts =
     (let ivs = build_ivs is_class first_def last_use ntemps; niv = length ivs in
      if niv = 0 then Some (0, ts)
      else if num_regs = 0 then
        Some (niv, fold (\<lambda>p ts. store_iv ((ivs ! p)\<lparr>iv_reg := -1, iv_spill := int p * spill_size\<rparr>) ts)
                     [0..<niv] ts)
      else do {
        s \<leftarrow> ls_loop first_reg spill_size force_spill [0..<niv]
               \<lparr> ls_ivs = qsort ivs, ls_active = [], ls_pool = init_pool num_regs reserved,
                 ls_nspills = 0 \<rparr>;
        Some (ls_nspills s, fold store_iv (ls_ivs s) ts) })"

subsection \<open>The C library's sort\<close>

definition qsort_ok :: "(interval list \<Rightarrow> interval list) \<Rightarrow> bool" where
  "qsort_ok qsort \<longleftrightarrow>
     (\<forall>xs. mset (qsort xs) = mset xs \<and> sorted_wrt (\<lambda>a b. sort_by_start a b \<le> 0) (qsort xs))"

locale interval_qsort =
  fixes qsort :: "interval list \<Rightarrow> interval list"
  assumes qsort_mset: "mset (qsort xs) = mset xs"
    and qsort_sorted: "sorted_wrt (\<lambda>a b. sort_by_start a b \<le> 0) (qsort xs)"
begin

lemma qsort_length [simp]: "length (qsort xs) = length xs"
  using qsort_mset [of xs] by (metis size_mset)

lemma qsort_set [simp]: "set (qsort xs) = set xs"
  using qsort_mset [of xs] by (metis set_mset_mset)

lemma qsort_starts:
  assumes "i \<le> j" "j < length xs"
  shows "iv_start (qsort xs ! i) \<le> iv_start (qsort xs ! j)"
proof (cases "i = j")
  case False
  with assms have "sort_by_start (qsort xs ! i) (qsort xs ! j) \<le> 0"
    using sorted_wrt_nth_less [OF qsort_sorted, of i j xs] by simp
  then show ?thesis by (simp add: sort_by_start_def split: if_splits)
qed simp

lemma qsort_distinct_temps:
  "distinct (map iv_temp (qsort xs)) = distinct (map iv_temp xs)"
proof -
  have "mset (map iv_temp (qsort xs)) = mset (map iv_temp xs)"
    by (simp add: qsort_mset)
  then show ?thesis by (rule mset_eq_imp_distinct_iff)
qed

end

text \<open>A sort that the contract admits: stable insertion.\<close>

fun insert_iv :: "interval \<Rightarrow> interval list \<Rightarrow> interval list" where
  "insert_iv x [] = [x]"
| "insert_iv x (y # ys) = (if sort_by_start x y \<le> 0 then x # y # ys else y # insert_iv x ys)"

definition isort :: "interval list \<Rightarrow> interval list" where
  "isort xs = foldr insert_iv xs []"

lemma sort_by_start_trans:
  "sort_by_start a b \<le> 0 \<Longrightarrow> sort_by_start b c \<le> 0 \<Longrightarrow> sort_by_start a c \<le> 0"
  by (auto simp: sort_by_start_def split: if_splits)

lemma sort_by_start_total: "\<not> sort_by_start a b \<le> 0 \<Longrightarrow> sort_by_start b a \<le> 0"
  by (auto simp: sort_by_start_def split: if_splits)

lemma mset_insert_iv [simp]: "mset (insert_iv x ys) = add_mset x (mset ys)"
  by (induction ys) auto

lemma set_insert_iv [simp]: "set (insert_iv x ys) = insert x (set ys)"
  by (induction ys) auto

lemma sorted_insert_iv:
  "sorted_wrt (\<lambda>a b. sort_by_start a b \<le> 0) ys \<Longrightarrow>
   sorted_wrt (\<lambda>a b. sort_by_start a b \<le> 0) (insert_iv x ys)"
  by (induction ys) (auto intro: sort_by_start_trans sort_by_start_total)

interpretation isort: interval_qsort isort
proof
  fix xs
  show "mset (isort xs) = mset xs"
    unfolding isort_def by (induction xs) auto
  show "sorted_wrt (\<lambda>a b. sort_by_start a b \<le> 0) (isort xs)"
    unfolding isort_def by (induction xs) (auto intro: sorted_insert_iv)
qed

lemma qsort_ok_isort: "qsort_ok isort"
  by (simp add: qsort_ok_def isort.qsort_mset isort.qsort_sorted)

lemma qsort_ok_locale: "qsort_ok qsort \<Longrightarrow> interval_qsort qsort"
  by (simp add: qsort_ok_def interval_qsort_def)

end
