(* ===== verification/Regalloc.thy ===== *)
theory Regalloc
  imports Linscan
begin

text \<open>
  The register allocators of the five backends: \<open>regalloc\<close> in
  \<^verbatim>\<open>backend/regalloc_{mips,rv,cf,x86,arm64}.c\<close>, each with its own copy of the linear scan, and the
  \<open>*_asm_reserved_regs\<close> routines (in \<^verbatim>\<open>mips_emit.c, rv_select.c, cf_emit.c, x86_select.c,
  arm64_select.c\<close>) that name the registers an extended asm pins or clobbers.

  One pass over the instructions computes live ranges and register classes (the arrays of
  \<open>live\<close>); \<open>linscan\<close> then runs once per class.  A \<open>die\<close> and the out-of-bounds read of an empty
  \<open>active\<close> array are both \<open>None\<close>.  The compile-time switches \<open>MIPS_SOFTFLOAT\<close> and \<open>CC_PSABI\<close> are
  boolean arguments.
\<close>

subsection \<open>Live ranges\<close>

record live =
  lv_first_def :: "int list"
  lv_last_use :: "int list"
  lv_is_float :: "bool list"
  lv_is_i64 :: "bool list"
  lv_pending :: "int list"
  lv_call_pos :: "int list"

definition init_live :: "nat \<Rightarrow> live" where
  "init_live n =
     \<lparr> lv_first_def = replicate n (-1), lv_last_use = replicate n (-1),
       lv_is_float = replicate n False, lv_is_i64 = replicate n False,
       lv_pending = [], lv_call_pos = [] \<rparr>"

definition is_temp :: "nat \<Rightarrow> int \<Rightarrow> bool" where
  "is_temp n t \<longleftrightarrow> 0 \<le> t \<and> t < int n"

definition def_at :: "int \<Rightarrow> nat \<Rightarrow> live \<Rightarrow> live" where
  "def_at pos t s =
     (if lv_first_def s ! t < 0 then s\<lparr>lv_first_def := (lv_first_def s)[t := pos]\<rparr> else s)"

definition use_at :: "int \<Rightarrow> nat \<Rightarrow> live \<Rightarrow> live" where
  "use_at pos t s =
     (if lv_last_use s ! t < pos then s\<lparr>lv_last_use := (lv_last_use s)[t := pos]\<rparr> else s)"

definition set_float :: "nat \<Rightarrow> live \<Rightarrow> live" where
  "set_float t s = s\<lparr>lv_is_float := (lv_is_float s)[t := True]\<rparr>"

definition set_i64 :: "nat \<Rightarrow> live \<Rightarrow> live" where
  "set_i64 t s = s\<lparr>lv_is_i64 := (lv_is_i64 s)[t := True]\<rparr>"

definition use_temp :: "nat \<Rightarrow> int \<Rightarrow> int \<Rightarrow> live \<Rightarrow> live" where
  "use_temp n pos t s = (if is_temp n t then use_at pos (nat t) s else s)"

definition scan_uses :: "nat \<Rightarrow> int \<Rightarrow> ir_insn \<Rightarrow> live \<Rightarrow> live" where
  "scan_uses n pos i s = use_temp n pos (i_b i) (use_temp n pos (i_a i) s)"

text \<open>Extended asm: an output is a definition, an input a use, an in-out operand both.\<close>

definition asm_ops :: "ir_asm_info \<Rightarrow> ir_asm_op list" where
  "asm_ops ai = take (ai_noutputs ai + ai_ninputs ai) (ai_ops ai)"

definition scan_asm_op :: "nat \<Rightarrow> int \<Rightarrow> ir_asm_op \<Rightarrow> live \<Rightarrow> live" where
  "scan_asm_op n pos op s =
     (if is_temp n (ao_temp op) then
        let t = nat (ao_temp op);
            s' = (if ao_is_output op \<or> ao_is_inout op then def_at pos t s else s)
        in use_at pos t s'
      else s)"

definition scan_asm :: "nat \<Rightarrow> int \<Rightarrow> ir_insn \<Rightarrow> live \<Rightarrow> live" where
  "scan_asm n pos i s =
     (case i_asm_info i of
        Some ai \<Rightarrow> if i_op i = IR_ASM then fold (scan_asm_op n pos) (asm_ops ai) s else s
      | None \<Rightarrow> s)"

text \<open>
  An argument operand is recorded at its \<open>ARG\<close>, up to the capacity of \<open>pending\<close>, and its live
  range extended to the next call.
\<close>

definition push_arg :: "nat \<Rightarrow> ir_insn \<Rightarrow> live \<Rightarrow> live" where
  "push_arg cap i s =
     (if length (lv_pending s) < cap then s\<lparr>lv_pending := lv_pending s @ [i_a i]\<rparr> else s)"

definition flush_args :: "nat \<Rightarrow> int \<Rightarrow> live \<Rightarrow> live" where
  "flush_args n pos s = (fold (use_temp n pos) (lv_pending s) s)\<lparr>lv_pending := []\<rparr>"

definition note_call :: "int \<Rightarrow> live \<Rightarrow> live" where
  "note_call pos s = s\<lparr>lv_call_pos := lv_call_pos s @ [pos]\<rparr>"

subsubsection \<open>The body of each allocator's instruction loop\<close>

text \<open>Soft-float MIPS: a double is carried like an i64, a single like an int.\<close>

definition soft_is_f32 :: "ir_insn \<Rightarrow> bool" where
  "soft_is_f32 i =
     (if i_op i = IR_F64TOF32 then True
      else if i_op i \<in> {IR_F32TOF64, IR_FLS, IR_FLH} then False
      else i_imm i = FWIDTH_F32)"

definition mips_scan_dst :: "bool \<Rightarrow> nat \<Rightarrow> int \<Rightarrow> ir_insn \<Rightarrow> live \<Rightarrow> live" where
  "mips_scan_dst softfloat n pos i s =
     (if is_temp n (i_dst i) then
        let t = nat (i_dst i); s' = use_at pos t (def_at pos t s) in
        if ir_op_is_float_def (i_op i) then
          (if softfloat then (if \<not> soft_is_f32 i then set_i64 t s' else s')
           else set_float t s')
        else if ir_op_is_i64_def (i_op i) then set_i64 t s'
        else s'
      else s)"

definition mips_scan_insn :: "bool \<Rightarrow> nat \<Rightarrow> int \<Rightarrow> ir_insn \<Rightarrow> live \<Rightarrow> live" where
  "mips_scan_insn softfloat n pos i s =
     scan_asm n pos i (scan_uses n pos i (mips_scan_dst softfloat n pos i s))"

text \<open>The other 32-bit targets keep floats in their own class and i64 values in pairs.\<close>

definition pair_scan_dst :: "nat \<Rightarrow> int \<Rightarrow> ir_insn \<Rightarrow> live \<Rightarrow> live" where
  "pair_scan_dst n pos i s =
     (if is_temp n (i_dst i) then
        let t = nat (i_dst i); s' = use_at pos t (def_at pos t s) in
        if ir_op_is_float_def (i_op i) then set_float t s'
        else if ir_op_is_i64_def (i_op i) then set_i64 t s'
        else s'
      else s)"

definition rv_is_arg :: "ir_op \<Rightarrow> bool" where
  "rv_is_arg op \<longleftrightarrow> op \<in> {IR_ARG, IR_ARG64, IR_FARG}"

definition rv_is_call :: "ir_op \<Rightarrow> bool" where
  "rv_is_call op \<longleftrightarrow>
     op \<in> {IR_CALL, IR_CALLI, IR_CALL2, IR_CALLI2, IR_CALL64, IR_CALLI64, IR_FCALL, IR_FCALLI,
           IR_TAILCALL, IR_TAILCALLI}"

definition rv_scan_insn :: "nat \<Rightarrow> int \<Rightarrow> ir_insn \<Rightarrow> live \<Rightarrow> live" where
  "rv_scan_insn n pos i s =
     (let s' = scan_asm n pos i (scan_uses n pos i (pair_scan_dst n pos i s)) in
      if rv_is_arg (i_op i) then push_arg 16 i s'
      else if rv_is_call (i_op i) then flush_args n pos s'
      else s')"

definition cf_is_arg :: "ir_op \<Rightarrow> bool" where
  "cf_is_arg op \<longleftrightarrow> op \<in> {IR_ARG, IR_FARG, IR_ARG64}"

definition cf_is_call :: "ir_op \<Rightarrow> bool" where
  "cf_is_call op \<longleftrightarrow>
     op \<in> {IR_CALL, IR_CALLI, IR_FCALL, IR_FCALLI, IR_TAILCALL, IR_TAILCALLI, IR_CALL64,
           IR_CALLI64}"

definition cf_scan_insn :: "nat \<Rightarrow> int \<Rightarrow> ir_insn \<Rightarrow> live \<Rightarrow> live" where
  "cf_scan_insn n pos i s =
     (let s' = scan_asm n pos i (scan_uses n pos i (pair_scan_dst n pos i s)) in
      if cf_is_arg (i_op i) then push_arg 32 i s'
      else if cf_is_call (i_op i) then flush_args n pos s'
      else s')"

text \<open>The 64-bit targets put i32 and i64 in one integer class and record the call positions.\<close>

definition wide_scan_dst :: "nat \<Rightarrow> int \<Rightarrow> ir_insn \<Rightarrow> live \<Rightarrow> live" where
  "wide_scan_dst n pos i s =
     (if is_temp n (i_dst i) then
        let t = nat (i_dst i); s' = use_at pos t (def_at pos t s) in
        if ir_op_is_float_def (i_op i) then set_float t s' else s'
      else s)"

definition x86_is_arg :: "ir_op \<Rightarrow> bool" where
  "x86_is_arg op \<longleftrightarrow> op \<in> {IR_ARG, IR_ARG64, IR_FARG, IR_ARG_MEM}"

definition x86_is_call :: "ir_op \<Rightarrow> bool" where
  "x86_is_call op \<longleftrightarrow>
     op \<in> {IR_CALL, IR_CALLI, IR_CALL64, IR_CALLI64, IR_FCALL, IR_FCALLI, IR_CALL_AGG,
           IR_CALLI_AGG, IR_TAILCALL, IR_TAILCALLI}"

definition x86_scan_insn :: "nat \<Rightarrow> int \<Rightarrow> ir_insn \<Rightarrow> live \<Rightarrow> live" where
  "x86_scan_insn n pos i s =
     (let s' = scan_asm n pos i (scan_uses n pos i (wide_scan_dst n pos i s)) in
      if x86_is_arg (i_op i) then push_arg 16 i s'
      else if x86_is_call (i_op i) then note_call pos (flush_args n pos s')
      else s')"

definition arm64_is_arg :: "ir_op \<Rightarrow> bool" where
  "arm64_is_arg op \<longleftrightarrow> op \<in> {IR_ARG, IR_ARG64, IR_ARG_X8, IR_ARG_MEM}"

definition arm64_is_call :: "ir_op \<Rightarrow> bool" where
  "arm64_is_call op \<longleftrightarrow>
     op \<in> {IR_CALL, IR_CALLI, IR_CALL64, IR_CALLI64, IR_FCALL, IR_FCALLI, IR_CALL_AGG,
           IR_CALLI_AGG, IR_TAILCALL, IR_TAILCALLI}"

definition arm64_scan_insn :: "nat \<Rightarrow> int \<Rightarrow> ir_insn \<Rightarrow> live \<Rightarrow> live" where
  "arm64_scan_insn n pos i s =
     (let s' = scan_asm n pos i (scan_uses n pos i (wide_scan_dst n pos i s)) in
      if arm64_is_arg (i_op i) then push_arg 16 i s'
      else if arm64_is_call (i_op i) then note_call pos (flush_args n pos s')
      else s')"

fun scan_from :: "(int \<Rightarrow> ir_insn \<Rightarrow> live \<Rightarrow> live) \<Rightarrow> int \<Rightarrow> ir_insn list \<Rightarrow> live \<Rightarrow> live" where
  "scan_from step pos [] s = s"
| "scan_from step pos (i # is) s = scan_from step (pos + 1) is (step pos i s)"

text \<open>Float temps whose live range strictly contains a call.\<close>

definition mark_float_cross :: "nat \<Rightarrow> live \<Rightarrow> bool list" where
  "mark_float_cross n s =
     map (\<lambda>t. lv_is_float s ! t \<and> \<not> lv_first_def s ! t < 0 \<and>
              (\<exists>c \<in> set (lv_call_pos s). c > lv_first_def s ! t \<and> c < lv_last_use s ! t))
       [0..<n]"

subsection \<open>Registers an extended asm pins or clobbers\<close>

fun index_of :: "'a list \<Rightarrow> 'a \<Rightarrow> int" where
  "index_of [] x = -1"
| "index_of (y # ys) x =
     (if y = x then 0 else let k = index_of ys x in if k < 0 then -1 else k + 1)"

text \<open>Append \<open>idx\<close> to \<open>out\<close> unless it is there already or \<open>out\<close> is full.\<close>

definition add_reserved :: "nat \<Rightarrow> int \<Rightarrow> int list \<Rightarrow> int list" where
  "add_reserved mx idx out =
     (if idx \<notin> set out \<and> length out < mx then out @ [idx] else out)"

definition asm_info_of :: "ir_insn \<Rightarrow> ir_asm_info option" where
  "asm_info_of i = (if i_op i = IR_ASM then i_asm_info i else None)"

definition mips_regs :: "string list" where
  "mips_regs = [''$t0'', ''$t1'', ''$s0'', ''$s1'', ''$s2'', ''$s3'', ''$s4'', ''$s5'', ''$s6'', ''$s7'']"

definition mips_regindex :: "string \<Rightarrow> int" where
  "mips_regindex name = index_of mips_regs name"

definition mips_reserve :: "nat \<Rightarrow> int \<Rightarrow> int list \<Rightarrow> int list" where
  "mips_reserve mx idx out = (if idx < 2 then out else add_reserved mx idx out)"

definition mips_asm_reserved_regs :: "ir_insn list \<Rightarrow> nat \<Rightarrow> int list" where
  "mips_asm_reserved_regs is mx =
     fold (\<lambda>i out. case asm_info_of i of None \<Rightarrow> out | Some ai \<Rightarrow>
             fold (\<lambda>c. mips_reserve mx (mips_regindex c)) (ai_clobbers ai)
               (fold (\<lambda>op. mips_reserve mx (case ao_pin_reg op of None \<Rightarrow> -1 | Some r \<Rightarrow> mips_regindex r))
                  (asm_ops ai) out))
       is []"

definition rv_abi_name :: "string list" where
  "rv_abi_name =
     [''zero'', ''ra'', ''sp'', ''gp'', ''tp'', ''t0'', ''t1'', ''t2'',
      ''s0'', ''s1'', ''a0'', ''a1'', ''a2'', ''a3'', ''a4'', ''a5'',
      ''a6'', ''a7'', ''s2'', ''s3'', ''s4'', ''s5'', ''s6'', ''s7'',
      ''s8'', ''s9'', ''s10'', ''s11'', ''t3'', ''t4'', ''t5'', ''t6'']"

definition rv_reg_num :: "string \<Rightarrow> int" where
  "rv_reg_num name = (if name = ''fp'' then 8 else index_of rv_abi_name name)"

definition rv_reg :: "int list" where
  "rv_reg = [5, 6, 9, 18, 19, 20, 21, 22, 23, 24, 25, 26, 27]"

definition hw_to_index :: "int list \<Rightarrow> int \<Rightarrow> int" where
  "hw_to_index tbl h = (let k = index_of (drop 2 tbl) h in if k < 0 then -1 else k + 2)"

definition rv_hw_to_index :: "int \<Rightarrow> int" where
  "rv_hw_to_index h = hw_to_index rv_reg h"

definition rv_reserve :: "nat \<Rightarrow> string \<Rightarrow> int list \<Rightarrow> int list" where
  "rv_reserve mx name out =
     (let h = rv_reg_num name; idx = (if h < 0 then -1 else rv_hw_to_index h)
      in if idx < 0 then out else add_reserved mx idx out)"

definition rv_asm_reserved_regs :: "ir_insn list \<Rightarrow> nat \<Rightarrow> int list" where
  "rv_asm_reserved_regs is mx =
     fold (\<lambda>i out. case asm_info_of i of None \<Rightarrow> out | Some ai \<Rightarrow>
             fold (rv_reserve mx) (ai_clobbers ai)
               (fold (\<lambda>op out. case ao_pin_reg op of None \<Rightarrow> out | Some r \<Rightarrow> rv_reserve mx r out)
                  (asm_ops ai) out))
       is []"

definition cf_dregs :: "string list" where
  "cf_dregs = [''%d0'', ''%d1'', ''%d2'', ''%d3'', ''%d4'', ''%d5'', ''%d6'', ''%d7'']"

definition cf_regindex :: "string \<Rightarrow> int" where
  "cf_regindex name = index_of cf_dregs name"

definition cf_asm_reserved_regs :: "ir_insn list \<Rightarrow> nat \<Rightarrow> int list" where
  "cf_asm_reserved_regs is mx =
     fold (\<lambda>i out. case asm_info_of i of None \<Rightarrow> out | Some ai \<Rightarrow>
             fold (\<lambda>c. mips_reserve mx (cf_regindex c)) (ai_clobbers ai)
               (fold (\<lambda>op. mips_reserve mx (case ao_pin_reg op of None \<Rightarrow> -1 | Some r \<Rightarrow> cf_regindex r))
                  (asm_ops ai) out))
       is []"

text \<open>The x86-64 register numbers of \<open>enum mc_reg\<close>, and the two name tables.\<close>

definition x86_reg64 :: "string list" where
  "x86_reg64 =
     [''rax'', ''rcx'', ''rdx'', ''rbx'', ''rsp'', ''rbp'', ''rsi'', ''rdi'',
      ''r8'', ''r9'', ''r10'', ''r11'', ''r12'', ''r13'', ''r14'', ''r15'']"

definition x86_reg32 :: "string list" where
  "x86_reg32 =
     [''eax'', ''ecx'', ''edx'', ''ebx'', ''esp'', ''ebp'', ''esi'', ''edi'',
      ''r8d'', ''r9d'', ''r10d'', ''r11d'', ''r12d'', ''r13d'', ''r14d'', ''r15d'']"

definition strip_percent :: "string \<Rightarrow> string" where
  "strip_percent name = (case name of c # cs \<Rightarrow> if c = CHR ''%'' then cs else name | [] \<Rightarrow> [])"

text \<open>The first number whose 64- or 32-bit name matches; the tables have no name in common.\<close>

definition x86_name_to_hw :: "string \<Rightarrow> int" where
  "x86_name_to_hw name =
     (let nm = strip_percent name; h = index_of x86_reg64 nm
      in if h \<ge> 0 then h else index_of x86_reg32 nm)"

definition x86_intreg :: "int list" where
  "x86_intreg = [3, 12, 13, 14, 15]"

definition x86_hw_to_index :: "int \<Rightarrow> int" where
  "x86_hw_to_index h = index_of x86_intreg h"

definition x86_constraint_reg :: "string \<Rightarrow> int" where
  "x86_constraint_reg c =
     (case dropWhile (\<lambda>x. x \<in> set ''=+&%'') c of
        [] \<Rightarrow> -1
      | x # _ \<Rightarrow>
          if x = CHR ''a'' then 0 else if x = CHR ''b'' then 3 else if x = CHR ''c'' then 1
          else if x = CHR ''d'' then 2 else if x = CHR ''S'' then 6 else if x = CHR ''D'' then 7
          else -1)"

definition x86_op_forced :: "ir_asm_op \<Rightarrow> int option" where
  "x86_op_forced op =
     (case ao_pin_reg op of
        Some r \<Rightarrow> (let h = x86_name_to_hw r in if h < 0 then None else Some h)
      | None \<Rightarrow> Some (x86_constraint_reg (ao_constraint op)))"

definition x86_reserve :: "nat \<Rightarrow> int \<Rightarrow> int list \<Rightarrow> int list" where
  "x86_reserve mx h out =
     (let idx = (if h < 0 then -1 else x86_hw_to_index h)
      in if idx < 0 then out else add_reserved mx idx out)"

fun x86_reserve_ops :: "nat \<Rightarrow> ir_asm_op list \<Rightarrow> int list \<Rightarrow> int list option" where
  "x86_reserve_ops mx [] out = Some out"
| "x86_reserve_ops mx (op # ops) out =
     do { h \<leftarrow> x86_op_forced op; x86_reserve_ops mx ops (x86_reserve mx h out) }"

fun x86_reserve_insns :: "nat \<Rightarrow> ir_insn list \<Rightarrow> int list \<Rightarrow> int list option" where
  "x86_reserve_insns mx [] out = Some out"
| "x86_reserve_insns mx (i # is) out =
     (case asm_info_of i of
        None \<Rightarrow> x86_reserve_insns mx is out
      | Some ai \<Rightarrow>
          do { out' \<leftarrow> x86_reserve_ops mx (asm_ops ai) out;
               x86_reserve_insns mx is
                 (fold (\<lambda>c. x86_reserve mx (x86_name_to_hw c)) (ai_clobbers ai) out') })"

definition x86_asm_reserved_regs :: "ir_insn list \<Rightarrow> nat \<Rightarrow> int list option" where
  "x86_asm_reserved_regs is mx = x86_reserve_insns mx is []"

fun digits_value :: "int \<Rightarrow> string \<Rightarrow> int \<times> string" where
  "digits_value h [] = (h, [])"
| "digits_value h (c # cs) =
     (let v = of_char c :: int in
      if 48 \<le> v \<and> v \<le> 57 then digits_value (h * 10 + (v - 48)) cs else (h, c # cs))"

definition a64_name_to_hw :: "string \<Rightarrow> int" where
  "a64_name_to_hw name =
     (if name = ''fp'' then 29 else if name = ''lr'' then 30
      else case name of
        c # d # cs \<Rightarrow>
          if c = CHR ''x'' \<or> c = CHR ''w'' then
            (case digits_value 0 (d # cs) of (h, rest) \<Rightarrow> if rest = [] \<and> h \<le> 30 then h else -1)
          else -1
      | _ \<Rightarrow> -1)"

definition a64_xreg :: "int list" where
  "a64_xreg = [9, 10, 19, 20, 21, 22, 23, 24, 25, 26, 27, 28]"

definition a64_hw_to_index :: "int \<Rightarrow> int" where
  "a64_hw_to_index h = hw_to_index a64_xreg h"

definition a64_reserve :: "nat \<Rightarrow> string \<Rightarrow> int list \<Rightarrow> int list" where
  "a64_reserve mx name out =
     (let h = a64_name_to_hw name; idx = (if h < 0 then -1 else a64_hw_to_index h)
      in if idx < 0 then out else add_reserved mx idx out)"

definition arm64_asm_reserved_regs :: "ir_insn list \<Rightarrow> nat \<Rightarrow> int list" where
  "arm64_asm_reserved_regs is mx =
     fold (\<lambda>i out. case asm_info_of i of None \<Rightarrow> out | Some ai \<Rightarrow>
             fold (a64_reserve mx) (ai_clobbers ai)
               (fold (\<lambda>op out. case ao_pin_reg op of None \<Rightarrow> out | Some r \<Rightarrow> a64_reserve mx r out)
                  (asm_ops ai) out))
       is []"

subsection \<open>The allocators\<close>

text \<open>
  \<open>reserved[slot] = 1\<close> for every pinned register of the pool.  \<open>max_pair\<close> is the largest pair
  index a 64-bit temp received.
\<close>

definition reserve_slots :: "int \<Rightarrow> nat \<Rightarrow> nat \<Rightarrow> int list \<Rightarrow> bool list" where
  "reserve_slots first_reg num_regs capacity pinned =
     fold (\<lambda>p r. if 0 \<le> p - first_reg \<and> p - first_reg < int num_regs
                 then r[nat (p - first_reg) := True] else r)
       pinned (replicate capacity False)"

definition max_pair :: "bool list \<Rightarrow> int list \<Rightarrow> nat \<Rightarrow> int" where
  "max_pair is_i64 temp_reg n =
     fold (\<lambda>t m. if is_i64 ! t \<and> temp_reg ! t > m then temp_reg ! t else m) [0..<n] (-1)"

definition unallocated :: "ir_func \<Rightarrow> ir_func" where
  "unallocated fn =
     fn\<lparr> fn_temp_reg := replicate (fn_ntemps fn) (-1),
         fn_temp_spill := replicate (fn_ntemps fn) (-1) \<rparr>"

definition no_spills :: "ir_func \<Rightarrow> ir_func" where
  "no_spills fn = fn\<lparr> fn_nspills := 0, fn_nfspills := 0, fn_ni64spills := 0 \<rparr>"

definition store_alloc :: "nat \<Rightarrow> nat \<Rightarrow> nat \<Rightarrow> int list \<times> int list \<Rightarrow> ir_func \<Rightarrow> ir_func" where
  "store_alloc ni nf n64 ts fn =
     fn\<lparr> fn_nspills := ni, fn_nfspills := nf, fn_ni64spills := n64,
         fn_temp_reg := fst ts, fn_temp_spill := snd ts \<rparr>"

text \<open>
  The part after the instruction loop on the 32-bit targets: pairs from the top of the integer
  file, then ints from what is left, then floats.  A pin in a function that uses pairs dies.
\<close>

definition alloc_pairs ::
  "(interval list \<Rightarrow> interval list) \<Rightarrow> nat \<Rightarrow> nat \<Rightarrow> nat \<Rightarrow> int list \<Rightarrow> live \<Rightarrow> ir_func \<Rightarrow>
   ir_func option" where
  "alloc_pairs qsort int_num_regs i64_num_pairs fp_num_regs pinned lv fn =
     (let n = fn_ntemps fn; fd = lv_first_def lv; lu = lv_last_use lv;
          is_int = map (\<lambda>t. \<not> lv_is_float lv ! t \<and> \<not> lv_is_i64 lv ! t) [0..<n] in
      do { (n64, ts1) \<leftarrow> linscan qsort fd lu (lv_is_i64 lv) i64_num_pairs 0 8 None None n
                           (fn_temp_reg fn, fn_temp_spill fn);
           let mp = max_pair (lv_is_i64 lv) (fst ts1) n;
           let num = nat (int int_num_regs - 2 * (mp + 1));
           if pinned \<noteq> [] \<and> mp \<ge> 0 then None else
           do { (ni, ts2) \<leftarrow> linscan qsort fd lu is_int num 2 4 None
                               (Some (reserve_slots 2 num int_num_regs pinned)) n ts1;
                (nf, ts3) \<leftarrow> linscan qsort fd lu (lv_is_float lv) fp_num_regs 2 8 None None n ts2;
                Some (store_alloc ni nf n64 ts3 fn) } })"

definition mips_regalloc :: "bool \<Rightarrow> (interval list \<Rightarrow> interval list) \<Rightarrow> ir_func \<Rightarrow> ir_func option" where
  "mips_regalloc softfloat qsort fn =
     (if fn_ntemps fn = 0 then Some (no_spills (unallocated fn))
      else alloc_pairs qsort 8 4 6 (mips_asm_reserved_regs (fn_insns fn) 8)
             (scan_from (mips_scan_insn softfloat (fn_ntemps fn)) 0 (fn_insns fn)
                (init_live (fn_ntemps fn)))
             (unallocated fn))"

definition rv_regalloc :: "(interval list \<Rightarrow> interval list) \<Rightarrow> ir_func \<Rightarrow> ir_func option" where
  "rv_regalloc qsort fn =
     (if fn_ntemps fn = 0 then Some (no_spills (unallocated fn))
      else alloc_pairs qsort 11 4 12 (rv_asm_reserved_regs (fn_insns fn) 11)
             (scan_from (rv_scan_insn (fn_ntemps fn)) 0 (fn_insns fn) (init_live (fn_ntemps fn)))
             (unallocated fn))"

definition cf_regalloc :: "(interval list \<Rightarrow> interval list) \<Rightarrow> ir_func \<Rightarrow> ir_func option" where
  "cf_regalloc qsort fn =
     (if fn_ntemps fn = 0 then Some (no_spills (unallocated fn))
      else alloc_pairs qsort 6 3 6 (cf_asm_reserved_regs (fn_insns fn) 6)
             (scan_from (cf_scan_insn (fn_ntemps fn)) 0 (fn_insns fn) (init_live (fn_ntemps fn)))
             (unallocated fn))"

text \<open>The 64-bit targets: one integer class, floats across a call forced to memory.\<close>

definition alloc_wide ::
  "(interval list \<Rightarrow> interval list) \<Rightarrow> nat \<Rightarrow> nat \<Rightarrow> int \<Rightarrow> bool list option \<Rightarrow> int list \<Rightarrow> live \<Rightarrow>
   ir_func \<Rightarrow> ir_func option" where
  "alloc_wide qsort int_num_regs fp_num_regs first_reg force_spill pinned lv fn =
     (let n = fn_ntemps fn; fd = lv_first_def lv; lu = lv_last_use lv;
          is_int = map (\<lambda>t. \<not> lv_is_float lv ! t) [0..<n] in
      do { (ni, ts1) \<leftarrow> linscan qsort fd lu is_int int_num_regs first_reg 8 None
                          (Some (reserve_slots first_reg int_num_regs int_num_regs pinned)) n
                          (fn_temp_reg fn, fn_temp_spill fn);
           (nf, ts2) \<leftarrow> linscan qsort fd lu (lv_is_float lv) fp_num_regs first_reg 8 force_spill
                          None n ts1;
           Some (store_alloc ni nf 0 ts2 fn) })"

definition x86_regalloc :: "(interval list \<Rightarrow> interval list) \<Rightarrow> ir_func \<Rightarrow> ir_func option" where
  "x86_regalloc qsort fn =
     (if fn_ntemps fn = 0 then Some (no_spills (unallocated fn))
      else let n = fn_ntemps fn;
               lv = scan_from (x86_scan_insn n) 0 (fn_insns fn) (init_live n) in
        do { pinned \<leftarrow> x86_asm_reserved_regs (fn_insns fn) 5;
             alloc_wide qsort 5 7 0 (Some (mark_float_cross n lv)) pinned lv (unallocated fn) })"

definition arm64_regalloc :: "bool \<Rightarrow> (interval list \<Rightarrow> interval list) \<Rightarrow> ir_func \<Rightarrow> ir_func option" where
  "arm64_regalloc cc_psabi qsort fn =
     (if fn_ntemps fn = 0 then Some (no_spills (unallocated fn))
      else let n = fn_ntemps fn;
               lv = scan_from (arm64_scan_insn n) 0 (fn_insns fn) (init_live n) in
        alloc_wide qsort 10 8 2 (if cc_psabi then None else Some (mark_float_cross n lv))
          (arm64_asm_reserved_regs (fn_insns fn) 10) lv (unallocated fn))"

end
