(* ===== verification/Linscan_Correct.thy ===== *)
theory Linscan_Correct
  imports Linscan
begin

text \<open>
  Correctness of the linear scan.  \<open>core\<close> is the invariant of the loop, stated over plain
  functions: \<open>R q\<close> and \<open>S q\<close> are the register and the spill offset of interval \<open>q\<close>, \<open>A\<close> the
  active set, \<open>P k\<close> whether pool slot \<open>k\<close> is free, \<open>ns\<close> the number of spill slots, and \<open>p\<close> the
  number of intervals processed.  One lemma per kind of step shows that the step keeps it; the
  concrete scan state is then connected to it by \<open>scan_inv\<close>.
\<close>

subsection \<open>The invariant over functions\<close>

definition overlap_free :: "(nat \<Rightarrow> int) \<Rightarrow> (nat \<Rightarrow> int) \<Rightarrow> nat \<Rightarrow> nat \<Rightarrow> bool" where
  "overlap_free st en i j \<longleftrightarrow> en i < st j \<or> en j < st i"

definition placed :: "nat \<Rightarrow> int \<Rightarrow> int \<Rightarrow> (nat \<Rightarrow> bool) \<Rightarrow> nat \<Rightarrow> int \<Rightarrow> int \<Rightarrow> bool" where
  "placed num first sz res ns r s \<longleftrightarrow>
     (\<exists>k<num. r = int k + first \<and> \<not> res k \<and> s = -1) \<or>
     (r = -1 \<and> (\<exists>j<ns. s = int j * sz))"

definition core ::
  "nat \<Rightarrow> int \<Rightarrow> int \<Rightarrow> (nat \<Rightarrow> bool) \<Rightarrow> (nat \<Rightarrow> int) \<Rightarrow> (nat \<Rightarrow> int) \<Rightarrow> nat \<Rightarrow> nat \<Rightarrow>
   (nat \<Rightarrow> int) \<Rightarrow> (nat \<Rightarrow> int) \<Rightarrow> nat set \<Rightarrow> (nat \<Rightarrow> bool) \<Rightarrow> nat \<Rightarrow> bool" where
  "core num first sz res st en n p R S A P ns \<longleftrightarrow>
     A \<subseteq> {..<p} \<and>
     (\<forall>a\<in>A. \<exists>k<num. R a = int k + first \<and> \<not> P k \<and> \<not> res k) \<and>
     (\<forall>k<num. \<not> res k \<longrightarrow> P k \<or> (\<exists>a\<in>A. R a = int k + first)) \<and>
     (\<forall>k<num. P k \<longrightarrow> \<not> res k) \<and>
     inj_on R A \<and>
     (\<forall>q<p. R q \<noteq> -1 \<longrightarrow> q \<notin> A \<longrightarrow> (\<forall>p'. p \<le> p' \<longrightarrow> p' < n \<longrightarrow> en q < st p')) \<and>
     (\<forall>q<p. placed num first sz res ns (R q) (S q)) \<and>
     (\<forall>q1<p. \<forall>q2<p. q1 \<noteq> q2 \<longrightarrow> R q1 = R q2 \<longrightarrow> R q2 \<noteq> -1 \<longrightarrow> overlap_free st en q1 q2) \<and>
     (\<forall>q1<p. \<forall>q2<p. q1 \<noteq> q2 \<longrightarrow> R q1 = -1 \<longrightarrow> R q2 = -1 \<longrightarrow> S q1 \<noteq> S q2) \<and>
     (\<forall>q. p \<le> q \<longrightarrow> q < n \<longrightarrow> R q = -1 \<and> S q = -1)"

lemma coreI:
  assumes "A \<subseteq> {..<p}"
    and "\<And>a. a \<in> A \<Longrightarrow> \<exists>k<num. R a = int k + first \<and> \<not> P k \<and> \<not> res k"
    and "\<And>k. k < num \<Longrightarrow> \<not> res k \<Longrightarrow> P k \<or> (\<exists>a\<in>A. R a = int k + first)"
    and "\<And>k. k < num \<Longrightarrow> P k \<Longrightarrow> \<not> res k"
    and "inj_on R A"
    and "\<And>q p'. q < p \<Longrightarrow> R q \<noteq> -1 \<Longrightarrow> q \<notin> A \<Longrightarrow> p \<le> p' \<Longrightarrow> p' < n \<Longrightarrow> en q < st p'"
    and "\<And>q. q < p \<Longrightarrow> placed num first sz res ns (R q) (S q)"
    and "\<And>q1 q2. q1 < p \<Longrightarrow> q2 < p \<Longrightarrow> q1 \<noteq> q2 \<Longrightarrow> R q1 = R q2 \<Longrightarrow> R q2 \<noteq> -1 \<Longrightarrow>
           overlap_free st en q1 q2"
    and "\<And>q1 q2. q1 < p \<Longrightarrow> q2 < p \<Longrightarrow> q1 \<noteq> q2 \<Longrightarrow> R q1 = -1 \<Longrightarrow> R q2 = -1 \<Longrightarrow> S q1 \<noteq> S q2"
    and "\<And>q. p \<le> q \<Longrightarrow> q < n \<Longrightarrow> R q = -1 \<and> S q = -1"
  shows "core num first sz res st en n p R S A P ns"
  unfolding core_def by (intro conjI ballI allI impI) (use assms in \<open>blast | metis\<close>)+

lemmas core_active = core_def [THEN iffD1, THEN conjunct1, rule_format]
lemmas core_held = core_def [THEN iffD1, THEN conjunct2, THEN conjunct1, rule_format]
lemmas core_free = core_def [THEN iffD1, THEN conjunct2,
    THEN conjunct2, THEN conjunct1, rule_format]
lemmas core_unreserved = core_def [THEN iffD1, THEN conjunct2, THEN conjunct2,
    THEN conjunct2, THEN conjunct1, rule_format]
lemmas core_inj = core_def [THEN iffD1, THEN conjunct2, THEN conjunct2,
    THEN conjunct2, THEN conjunct2, THEN conjunct1, rule_format]
lemmas core_retired = core_def [THEN iffD1, THEN conjunct2, THEN conjunct2, THEN conjunct2,
    THEN conjunct2, THEN conjunct2, THEN conjunct1, rule_format]
lemmas core_placed = core_def [THEN iffD1, THEN conjunct2, THEN conjunct2, THEN conjunct2,
    THEN conjunct2, THEN conjunct2, THEN conjunct2, THEN conjunct1, rule_format]
lemmas core_disjoint = core_def [THEN iffD1, THEN conjunct2, THEN conjunct2, THEN conjunct2, THEN conjunct2,
    THEN conjunct2, THEN conjunct2, THEN conjunct2, THEN conjunct1, rule_format]
lemmas core_slots = core_def [THEN iffD1, THEN conjunct2, THEN conjunct2, THEN conjunct2, THEN conjunct2,
    THEN conjunct2, THEN conjunct2, THEN conjunct2, THEN conjunct2, THEN conjunct1, rule_format]
lemmas core_todo = core_def [THEN iffD1, THEN conjunct2, THEN conjunct2, THEN conjunct2, THEN conjunct2,
    THEN conjunct2, THEN conjunct2, THEN conjunct2, THEN conjunct2, THEN conjunct2, rule_format]

lemma placed_mono: "placed num first sz res ns r s \<Longrightarrow> placed num first sz res (Suc ns) r s"
  unfolding placed_def using less_SucI by blast

lemma placed_spill: "placed num first sz res (Suc ns) (-1) (int ns * sz)"
  unfolding placed_def by blast

lemma placed_reg: "k < num \<Longrightarrow> \<not> res k \<Longrightarrow> placed num first sz res ns (int k + first) (-1)"
  unfolding placed_def by blast

lemma placed_fresh:
  assumes "placed num first sz res ns (-1) s" "0 \<le> first" "sz \<noteq> 0"
  shows "s \<noteq> int ns * sz"
  using assms by (auto simp: placed_def)

lemma overlap_free_sym: "overlap_free st en i j \<Longrightarrow> overlap_free st en j i"
  by (auto simp: overlap_free_def)

lemma core_init:
  "(\<And>q. q < n \<Longrightarrow> R q = -1 \<and> S q = -1) \<Longrightarrow> (\<And>k. k < num \<Longrightarrow> P k \<longleftrightarrow> \<not> res k) \<Longrightarrow>
   core num first sz res st en n 0 R S {} P 0"
  by (auto simp: core_def)

lemma core_expire:
  assumes c: "core num first sz res st en n p R S A P ns"
    and mono: "\<And>q. p \<le> q \<Longrightarrow> q < n \<Longrightarrow> st p \<le> st q"
    and A': "A' = {a \<in> A. \<not> en a < st p}"
    and P': "\<And>k. k < num \<Longrightarrow> P' k \<longleftrightarrow> P k \<or> (\<exists>a\<in>A. en a < st p \<and> R a = int k + first)"
  shows "core num first sz res st en n p R S A' P' ns"
proof (rule coreI)
  show "A' \<subseteq> {..<p}" using core_active [OF c] A' by blast
  show "inj_on R A'" using core_inj [OF c] A' by (auto intro: inj_on_subset)
next
  fix a assume "a \<in> A'"
  then have a: "a \<in> A" "\<not> en a < st p" using A' by auto
  then obtain k where k: "k < num" "R a = int k + first" "\<not> P k" "\<not> res k"
    using core_held [OF c] by blast
  have "\<not> (\<exists>b\<in>A. en b < st p \<and> R b = int k + first)"
    using a k core_inj [OF c] by (metis inj_onD)
  with k P' show "\<exists>k<num. R a = int k + first \<and> \<not> P' k \<and> \<not> res k" by blast
next
  fix k assume "k < num" "\<not> res k"
  with core_free [OF c] have "P k \<or> (\<exists>a\<in>A. R a = int k + first)" by blast
  with \<open>k < num\<close> P' A' show "P' k \<or> (\<exists>a\<in>A'. R a = int k + first)" by blast
next
  fix k assume k: "k < num" "P' k"
  show "\<not> res k"
  proof (cases "P k")
    case True
    with k core_unreserved [OF c] show ?thesis by blast
  next
    case False
    with k P' obtain a where "a \<in> A" "R a = int k + first" by blast
    with core_held [OF c] show ?thesis by fastforce
  qed
next
  fix q p' assume q: "q < p" "R q \<noteq> -1" "q \<notin> A'" "p \<le> p'" "p' < n"
  show "en q < st p'"
  proof (cases "q \<in> A")
    case True
    with q A' have "en q < st p" by blast
    with mono q show ?thesis by (meson less_le_trans)
  next
    case False
    with q core_retired [OF c] show ?thesis by blast
  qed
next
  fix q assume "q < p"
  then show "placed num first sz res ns (R q) (S q)" by (rule core_placed [OF c])
next
  fix q1 q2 assume "q1 < p" "q2 < p" "q1 \<noteq> q2" "R q1 = R q2" "R q2 \<noteq> -1"
  then show "overlap_free st en q1 q2" by (rule core_disjoint [OF c])
next
  fix q1 q2 assume "q1 < p" "q2 < p" "q1 \<noteq> q2" "R q1 = -1" "R q2 = -1"
  then show "S q1 \<noteq> S q2" by (rule core_slots [OF c])
next
  fix q assume "p \<le> q" "q < n"
  then show "R q = -1 \<and> S q = -1" by (rule core_todo [OF c])
qed

lemma core_spill_new:
  assumes c: "core num first sz res st en n p R S A P ns"
    and p: "p < n" "0 \<le> first" "sz \<noteq> 0"
  shows "core num first sz res st en n (Suc p) R (S(p := int ns * sz)) A P (Suc ns)"
proof -
  have Rp: "R p = -1" using core_todo [OF c] p by blast
  have old: "S q \<noteq> int ns * sz" if "q < p" "R q = -1" for q
    using core_placed [OF c that(1)] that(2) p placed_fresh by metis
  show ?thesis
  proof (rule coreI)
    show "A \<subseteq> {..<Suc p}" using core_active [OF c] by auto
  next
    fix q assume "q < Suc p"
    then show "placed num first sz res (Suc ns) (R q) ((S(p := int ns * sz)) q)"
      using core_placed [OF c, of q] Rp placed_mono placed_spill
      by (cases "q = p") (auto simp: less_Suc_eq)
  next
    fix q p' assume "q < Suc p" "R q \<noteq> -1" "q \<notin> A" "Suc p \<le> p'" "p' < n"
    then show "en q < st p'" using core_retired [OF c, of q p'] Rp by (cases "q = p") auto
  next
    fix q1 q2 assume "q1 < Suc p" "q2 < Suc p" "q1 \<noteq> q2" "R q1 = R q2" "R q2 \<noteq> -1"
    then show "overlap_free st en q1 q2"
      using core_disjoint [OF c, of q1 q2] Rp by (auto simp: less_Suc_eq)
  next
    fix q1 q2 assume q: "q1 < Suc p" "q2 < Suc p" "q1 \<noteq> q2" "R q1 = -1" "R q2 = -1"
    show "(S(p := int ns * sz)) q1 \<noteq> (S(p := int ns * sz)) q2"
      using q old [of q1] old [of q2] core_slots [OF c, of q1 q2] by (auto simp: less_Suc_eq)
  next
    fix q assume "Suc p \<le> q" "q < n"
    then show "R q = -1 \<and> (S(p := int ns * sz)) q = -1" using core_todo [OF c, of q] by simp
  qed (use core_held [OF c] core_free [OF c] core_unreserved [OF c] core_inj [OF c] in blast)+
qed

lemma core_take:
  assumes c: "core num first sz res st en n p R S A P ns"
    and p: "p < n" and k: "k < num" "P k" and first: "0 \<le> first"
  shows "core num first sz res st en n (Suc p) (R(p := int k + first)) S (insert p A)
           (P(k := False)) ns"
    (is "core _ _ _ _ _ _ _ _ ?R _ ?A ?P _")
proof -
  have pA: "p \<notin> A" using core_active [OF c] by auto
  have nk: "R a \<noteq> int k + first" if "a \<in> A" for a
    using core_held [OF c that] k(2) by auto
  have nres: "\<not> res k" using core_unreserved [OF c] k by blast
  have Sp: "S p = -1" using core_todo [OF c] p by blast
  have free: "overlap_free st en q p" if "q < p" "R q = int k + first" "R q \<noteq> -1" for q
    using core_retired [OF c that(1,3), of p] nk [of q] that p by (auto simp: overlap_free_def)
  show ?thesis
  proof (rule coreI)
    show "?A \<subseteq> {..<Suc p}" using core_active [OF c] by auto
    show "inj_on ?R ?A"
    proof (rule inj_onI)
      fix x y assume "x \<in> ?A" "y \<in> ?A" "?R x = ?R y"
      then show "x = y"
        using inj_onD [OF core_inj [OF c], of x y] nk [of x] nk [of y] pA
        by (cases "x = p"; cases "y = p") auto
    qed
  next
    fix a assume "a \<in> ?A"
    then show "\<exists>j<num. ?R a = int j + first \<and> \<not> ?P j \<and> \<not> res j"
      using core_held [OF c, of a] pA k(1) nres by auto
  next
    fix j assume j: "j < num" "\<not> res j"
    show "?P j \<or> (\<exists>a\<in>?A. ?R a = int j + first)"
      using core_free [OF c j] pA by (cases "j = k") auto
  next
    fix j assume "j < num" "?P j"
    then show "\<not> res j" using core_unreserved [OF c, of j] by (auto split: if_splits)
  next
    fix q p' assume "q < Suc p" "?R q \<noteq> -1" "q \<notin> ?A" "Suc p \<le> p'" "p' < n"
    then show "en q < st p'" using core_retired [OF c, of q p'] by (cases "q = p") auto
  next
    fix q assume "q < Suc p"
    then show "placed num first sz res ns (?R q) (S q)"
      using core_placed [OF c, of q] Sp placed_reg [of k num res] k(1) nres
      by (cases "q = p") auto
  next
    fix q1 q2 assume "q1 < Suc p" "q2 < Suc p" "q1 \<noteq> q2" "?R q1 = ?R q2" "?R q2 \<noteq> -1"
    then show "overlap_free st en q1 q2"
      using core_disjoint [OF c, of q1 q2] free [of q1] free [of q2]
      by (auto simp: less_Suc_eq intro: overlap_free_sym)
  next
    fix q1 q2 assume q: "q1 < Suc p" "q2 < Suc p" "q1 \<noteq> q2" "?R q1 = -1" "?R q2 = -1"
    have "q1 \<noteq> p" "q2 \<noteq> p" using q first by auto
    with q show "S q1 \<noteq> S q2" using core_slots [OF c, of q1 q2] by auto
  next
    fix q assume "Suc p \<le> q" "q < n"
    then show "?R q = -1 \<and> S q = -1" using core_todo [OF c, of q] by simp
  qed
qed

lemma core_steal:
  assumes c: "core num first sz res st en n p R S A P ns"
    and p: "p < n" and sp: "sp \<in> A" and first: "0 \<le> first" and sz: "sz \<noteq> 0"
  shows "core num first sz res st en n (Suc p) (R(p := R sp, sp := -1)) (S(sp := int ns * sz))
           (insert p (A - {sp})) P (Suc ns)"
    (is "core _ _ _ _ _ _ _ _ ?R ?S ?A _ _")
proof -
  have pA: "p \<notin> A" and spp: "sp < p" using core_active [OF c] sp by auto
  obtain k where k: "k < num" "R sp = int k + first" "\<not> P k" "\<not> res k"
    using core_held [OF c sp] by blast
  have nk: "R a \<noteq> R sp" if "a \<in> A" "a \<noteq> sp" for a
    using core_inj [OF c] that sp by (auto dest: inj_onD)
  have Rsp: "R sp \<noteq> -1" using k first by simp
  have Sp: "S p = -1" using core_todo [OF c] p by blast
  have old: "S q \<noteq> int ns * sz" if "q < p" "R q = -1" for q
    using core_placed [OF c that(1)] that(2) first sz placed_fresh by metis
  have free: "overlap_free st en q p" if "q < p" "q \<noteq> sp" "R q = R sp" for q
    using core_retired [OF c that(1), of p] nk [of q] that p Rsp by (auto simp: overlap_free_def)
  show ?thesis
  proof (rule coreI)
    show "?A \<subseteq> {..<Suc p}" using core_active [OF c] by auto
    show "inj_on ?R ?A"
    proof (rule inj_onI)
      fix x y assume "x \<in> ?A" "y \<in> ?A" "?R x = ?R y"
      then show "x = y"
        using inj_onD [OF core_inj [OF c], of x y] nk [of x] nk [of y] pA spp
        by (cases "x = p"; cases "y = p") auto
    qed
  next
    fix a assume "a \<in> ?A"
    then show "\<exists>j<num. ?R a = int j + first \<and> \<not> P j \<and> \<not> res j"
      using core_held [OF c, of a] k spp by auto
  next
    fix j assume j: "j < num" "\<not> res j"
    show "P j \<or> (\<exists>a\<in>?A. ?R a = int j + first)"
      using core_free [OF c j] pA spp by (cases "R sp = int j + first") auto
  next
    fix j assume "j < num" "P j"
    then show "\<not> res j" by (rule core_unreserved [OF c])
  next
    fix q p' assume "q < Suc p" "?R q \<noteq> -1" "q \<notin> ?A" "Suc p \<le> p'" "p' < n"
    then show "en q < st p'"
      using core_retired [OF c, of q p'] by (cases "q = p"; cases "q = sp") auto
  next
    fix q assume "q < Suc p"
    then show "placed num first sz res (Suc ns) (?R q) (?S q)"
      using core_placed [OF c, of q] Sp placed_reg [of k num res first sz "Suc ns"] k spp
        placed_spill placed_mono
      by (cases "q = p"; cases "q = sp") auto
  next
    fix q1 q2 assume "q1 < Suc p" "q2 < Suc p" "q1 \<noteq> q2" "?R q1 = ?R q2" "?R q2 \<noteq> -1"
    then show "overlap_free st en q1 q2"
      using core_disjoint [OF c, of q1 q2] free [of q1] free [of q2]
      by (auto simp: less_Suc_eq intro: overlap_free_sym split: if_splits)
  next
    fix q1 q2 assume q: "q1 < Suc p" "q2 < Suc p" "q1 \<noteq> q2" "?R q1 = -1" "?R q2 = -1"
    have "q1 \<noteq> p" "q2 \<noteq> p" using q Rsp spp by (auto split: if_splits)
    with q show "?S q1 \<noteq> ?S q2"
      using core_slots [OF c, of q1 q2] old [of q1] old [of q2] by (auto split: if_splits)
  next
    fix q assume "Suc p \<le> q" "q < n"
    then show "?R q = -1 \<and> ?S q = -1" using core_todo [OF c, of q] spp by auto
  qed
qed

lemma core_not_stuck:
  assumes c: "core num first sz res st en n p R S A P ns"
    and "k < num" "\<not> res k" "\<And>j. j < num \<Longrightarrow> \<not> P j"
  shows "A \<noteq> {}"
  using core_free [OF c assms(2,3)] assms(2,4) by blast

subsection \<open>The scan state\<close>

definition same_shape :: "interval list \<Rightarrow> interval list \<Rightarrow> bool" where
  "same_shape xs ys \<longleftrightarrow> length xs = length ys \<and>
     (\<forall>q<length ys. iv_temp (xs ! q) = iv_temp (ys ! q) \<and> iv_start (xs ! q) = iv_start (ys ! q) \<and>
                  iv_end (xs ! q) = iv_end (ys ! q))"

definition scan_inv ::
  "nat \<Rightarrow> int \<Rightarrow> int \<Rightarrow> (nat \<Rightarrow> bool) \<Rightarrow> interval list \<Rightarrow> nat \<Rightarrow> scan \<Rightarrow> bool" where
  "scan_inv num first sz res ivs0 p s \<longleftrightarrow>
     same_shape (ls_ivs s) ivs0 \<and> length (ls_pool s) = num \<and> distinct (ls_active s) \<and>
     core num first sz res (\<lambda>q. iv_start (ivs0 ! q)) (\<lambda>q. iv_end (ivs0 ! q)) (length ivs0) p
       (\<lambda>q. iv_reg (ls_ivs s ! q)) (\<lambda>q. iv_spill (ls_ivs s ! q)) (set (ls_active s))
       (\<lambda>k. ls_pool s ! k) (ls_nspills s)"

lemma find_free_Some: "find_free bs = Some k \<Longrightarrow> k < length bs \<and> bs ! k"
  by (induction bs arbitrary: k) (auto split: if_splits)

lemma find_free_None: "find_free bs = None \<Longrightarrow> k < length bs \<Longrightarrow> \<not> bs ! k"
  by (induction bs arbitrary: k) (auto split: if_splits simp: nth_Cons split: nat.splits)

lemma set_insert_active [simp]: "set (insert_active ivs p act) = insert p (set act)"
  unfolding insert_active_def Let_def
  by (metis (no_types, lifting) Un_insert_right list.simps(15) set_append takeWhile_dropWhile_id)

lemma distinct_insert_active:
  "distinct act \<Longrightarrow> p \<notin> set act \<Longrightarrow> distinct (insert_active ivs p act)"
  unfolding insert_active_def Let_def by (rule distinct_split_insert)

lemma length_release [simp]:
  "length (fold (\<lambda>a pool. if dead a then pool[f a := True] else pool) act pool) = length pool"
  by (induction act arbitrary: pool) auto

lemma nth_release:
  "k < length pool \<Longrightarrow>
   fold (\<lambda>a pool. if dead a then pool[f a := True] else pool) act pool ! k \<longleftrightarrow>
   pool ! k \<or> (\<exists>a\<in>set act. dead a \<and> f a = k)"
  by (induction act arbitrary: pool) (auto simp: nth_upd)

lemma same_shape_upd:
  "same_shape xs ys \<Longrightarrow> iv_temp x = iv_temp (xs ! p) \<Longrightarrow> iv_start x = iv_start (xs ! p) \<Longrightarrow>
   iv_end x = iv_end (xs ! p) \<Longrightarrow> same_shape (xs[p := x]) ys"
  by (auto simp: same_shape_def nth_upd)

lemma same_shapeD:
  "same_shape xs ys \<Longrightarrow> length xs = length ys"
  "same_shape xs ys \<Longrightarrow> q < length ys \<Longrightarrow> iv_start (xs ! q) = iv_start (ys ! q)"
  "same_shape xs ys \<Longrightarrow> q < length ys \<Longrightarrow> iv_end (xs ! q) = iv_end (ys ! q)"
  "same_shape xs ys \<Longrightarrow> q < length ys \<Longrightarrow> iv_temp (xs ! q) = iv_temp (ys ! q)"
  by (auto simp: same_shape_def)

lemma scan_invD:
  assumes "scan_inv num first sz res ivs0 p s"
  shows scan_shape: "same_shape (ls_ivs s) ivs0"
    and scan_pool: "length (ls_pool s) = num"
    and scan_distinct: "distinct (ls_active s)"
    and scan_core: "core num first sz res (\<lambda>q. iv_start (ivs0 ! q)) (\<lambda>q. iv_end (ivs0 ! q))
       (length ivs0) p (\<lambda>q. iv_reg (ls_ivs s ! q)) (\<lambda>q. iv_spill (ls_ivs s ! q))
       (set (ls_active s)) (\<lambda>k. ls_pool s ! k) (ls_nspills s)"
  using assms by (simp_all add: scan_inv_def)

lemma expire_sel:
  "ls_ivs (expire first p s) = ls_ivs s"
  "ls_nspills (expire first p s) = ls_nspills s"
  "ls_active (expire first p s) =
     filter (\<lambda>a. \<not> iv_end (ls_ivs s ! a) < iv_start (ls_ivs s ! p)) (ls_active s)"
  "ls_pool (expire first p s) =
     fold (\<lambda>a pool. if iv_end (ls_ivs s ! a) < iv_start (ls_ivs s ! p)
             then pool[nat (iv_reg (ls_ivs s ! a) - first) := True] else pool)
       (ls_active s) (ls_pool s)"
  by (simp_all add: expire_def Let_def)

lemma expire_inv:
  assumes inv: "scan_inv num first sz res ivs0 p s" and p: "p < length ivs0"
    and mono: "\<And>q. p \<le> q \<Longrightarrow> q < length ivs0 \<Longrightarrow> iv_start (ivs0 ! p) \<le> iv_start (ivs0 ! q)"
  shows "scan_inv num first sz res ivs0 p (expire first p s)"
proof -
  note c = scan_core [OF inv] and sh = scan_shape [OF inv]
  have act: "a < length ivs0" if "a \<in> set (ls_active s)" for a
    using core_active [OF c] that p by auto
  have dead: "iv_end (ls_ivs s ! a) < iv_start (ls_ivs s ! p) \<longleftrightarrow>
      iv_end (ivs0 ! a) < iv_start (ivs0 ! p)" if "a \<in> set (ls_active s)" for a
    using same_shapeD [OF sh] act [OF that] p by simp
  have idx: "nat (iv_reg (ls_ivs s ! a) - first) = k \<longleftrightarrow> iv_reg (ls_ivs s ! a) = int k + first"
    if "a \<in> set (ls_active s)" for a k
    using core_held [OF c that] by auto
  have "core num first sz res (\<lambda>q. iv_start (ivs0 ! q)) (\<lambda>q. iv_end (ivs0 ! q)) (length ivs0) p
      (\<lambda>q. iv_reg (ls_ivs (expire first p s) ! q)) (\<lambda>q. iv_spill (ls_ivs (expire first p s) ! q))
      (set (ls_active (expire first p s))) (\<lambda>k. ls_pool (expire first p s) ! k)
      (ls_nspills (expire first p s))"
    unfolding expire_sel
  proof (rule core_expire [OF c mono])
    show "set (filter (\<lambda>a. \<not> iv_end (ls_ivs s ! a) < iv_start (ls_ivs s ! p)) (ls_active s)) =
        {a \<in> set (ls_active s). \<not> iv_end (ivs0 ! a) < iv_start (ivs0 ! p)}"
      using dead by auto
  next
    fix k assume k: "k < num"
    show "fold (\<lambda>a pool. if iv_end (ls_ivs s ! a) < iv_start (ls_ivs s ! p)
                 then pool[nat (iv_reg (ls_ivs s ! a) - first) := True] else pool)
            (ls_active s) (ls_pool s) ! k \<longleftrightarrow>
        ls_pool s ! k \<or> (\<exists>a\<in>set (ls_active s). iv_end (ivs0 ! a) < iv_start (ivs0 ! p) \<and>
          iv_reg (ls_ivs s ! a) = int k + first)"
      using k scan_pool [OF inv] dead idx by (subst nth_release) auto
  qed
  then show ?thesis
    using sh scan_pool [OF inv] scan_distinct [OF inv]
    by (simp add: scan_inv_def expire_sel)
qed

lemma spill_new_inv:
  assumes inv: "scan_inv num first sz res ivs0 p s"
    and p: "p < length ivs0" "0 \<le> first" "sz \<noteq> 0"
  shows "scan_inv num first sz res ivs0 (Suc p) (spill_iv sz p s)"
proof -
  have len: "p < length (ls_ivs s)" using same_shapeD(1) [OF scan_shape [OF inv]] p by simp
  show ?thesis
    using core_spill_new [OF scan_core [OF inv] p] scan_pool [OF inv] scan_distinct [OF inv] len
      same_shape_upd [OF scan_shape [OF inv]]
    by (simp add: scan_inv_def spill_iv_def upd_fun [where f = iv_spill]
        upd_fun_same [where f = iv_reg])
qed

lemma take_inv:
  assumes inv: "scan_inv num first sz res ivs0 p s"
    and p: "p < length ivs0" and k: "k < num" "ls_pool s ! k" and first: "0 \<le> first"
  shows "scan_inv num first sz res ivs0 (Suc p)
    ((set_reg p (int k + first) s)\<lparr>ls_pool := (ls_pool s)[k := False],
       ls_active := insert_active (ls_ivs s) p (ls_active s)\<rparr>)"
    (is "scan_inv _ _ _ _ _ _ ?s")
proof -
  have len: "p < length (ls_ivs s)" using same_shapeD(1) [OF scan_shape [OF inv]] p by simp
  have pool: "(\<lambda>j. (ls_pool s)[k := False] ! j) = (\<lambda>j. ls_pool s ! j)(k := False)"
    using k scan_pool [OF inv] by (auto simp: fun_eq_iff nth_list_update)
  have p': "p \<notin> set (ls_active s)" using core_active [OF scan_core [OF inv]] by auto
  have R: "(\<lambda>q. iv_reg (ls_ivs ?s ! q)) = (\<lambda>q. iv_reg (ls_ivs s ! q))(p := int k + first)"
    and S: "(\<lambda>q. iv_spill (ls_ivs ?s ! q)) = (\<lambda>q. iv_spill (ls_ivs s ! q))"
    using len by (auto simp: fun_eq_iff nth_list_update set_reg_def)
  have rest: "ls_active ?s = insert_active (ls_ivs s) p (ls_active s)"
    "ls_pool ?s = (ls_pool s)[k := False]" "ls_nspills ?s = ls_nspills s"
    by (simp_all add: set_reg_def)
  have shape: "same_shape (ls_ivs ?s) ivs0"
    using same_shape_upd [OF scan_shape [OF inv]] by (simp add: set_reg_def)
  show ?thesis
    unfolding scan_inv_def R S rest pool
    using core_take [OF scan_core [OF inv] p k first] scan_pool [OF inv] scan_distinct [OF inv] p'
      shape
    by (simp add: distinct_insert_active)
qed

lemma steal_inv:
  assumes inv: "scan_inv num first sz res ivs0 p s"
    and p: "p < length ivs0" "0 \<le> first" "sz \<noteq> 0" and ne: "ls_active s \<noteq> []"
  defines "sp \<equiv> last (ls_active s)"
  shows "scan_inv num first sz res ivs0 (Suc p)
    ((spill_iv sz sp (set_reg sp (-1) (set_reg p (iv_reg (ls_ivs s ! sp)) s)))
       \<lparr>ls_active := insert_active (ls_ivs s) p (butlast (ls_active s))\<rparr>)"
    (is "scan_inv _ _ _ _ _ _ ?s")
proof -
  have sp: "sp \<in> set (ls_active s)" using ne by (simp add: sp_def)
  have sp': "sp < p" "p \<notin> set (ls_active s)" using sp core_active [OF scan_core [OF inv]] by auto
  have len: "p < length (ls_ivs s)" "sp < length (ls_ivs s)"
    using same_shapeD(1) [OF scan_shape [OF inv]] p sp' by simp_all
  have d: "set (butlast (ls_active s)) = set (ls_active s) - {sp}" "distinct (butlast (ls_active s))"
    using set_butlast_distinct [OF scan_distinct [OF inv] ne] scan_distinct [OF inv]
    by (simp_all add: sp_def distinct_butlast)
  let ?x = "(ls_ivs s ! p)\<lparr>iv_reg := iv_reg (ls_ivs s ! sp)\<rparr>"
  let ?y = "(ls_ivs s ! sp)\<lparr>iv_reg := -1, iv_spill := int (ls_nspills s) * sz\<rparr>"
  have ivs: "ls_ivs ?s = (ls_ivs s)[p := ?x, sp := ?y]"
    using len sp' by (simp add: spill_iv_def set_reg_def)
  have shape: "same_shape (ls_ivs ?s) ivs0"
    unfolding ivs using sp' by (intro same_shape_upd scan_shape [OF inv]) simp_all
  have R: "(\<lambda>q. iv_reg (ls_ivs ?s ! q)) =
      (\<lambda>q. iv_reg (ls_ivs s ! q))(p := iv_reg (ls_ivs s ! sp), sp := -1)"
    unfolding ivs using len by (auto simp: fun_eq_iff nth_list_update)
  have S: "(\<lambda>q. iv_spill (ls_ivs ?s ! q)) =
      (\<lambda>q. iv_spill (ls_ivs s ! q))(sp := int (ls_nspills s) * sz)"
    unfolding ivs using len by (auto simp: fun_eq_iff nth_list_update)
  have rest: "ls_active ?s = insert_active (ls_ivs s) p (butlast (ls_active s))"
    "ls_pool ?s = ls_pool s" "ls_nspills ?s = Suc (ls_nspills s)"
    by (simp_all add: spill_iv_def set_reg_def)
  have "p \<notin> set (butlast (ls_active s))" using sp' d by simp
  then show ?thesis
    unfolding scan_inv_def R S rest
    using core_steal [OF scan_core [OF inv] p(1) sp p(2,3)] scan_pool [OF inv] d shape
    by (simp add: distinct_insert_active)
qed

lemma alloc_step_inv:
  assumes inv: "scan_inv num first sz res ivs0 p s"
    and p: "p < length ivs0" "0 \<le> first" "sz \<noteq> 0"
    and mono: "\<And>q. p \<le> q \<Longrightarrow> q < length ivs0 \<Longrightarrow> iv_start (ivs0 ! p) \<le> iv_start (ivs0 ! q)"
    and step: "alloc_step first sz force p s = Some s'"
  shows "scan_inv num first sz res ivs0 (Suc p) s'"
proof -
  let ?s = "expire first p s"
  have e: "scan_inv num first sz res ivs0 p ?s" by (rule expire_inv [OF inv p(1) mono])
  show ?thesis
  proof (cases "find_free (ls_pool ?s)")
    case (Some k)
    then have "k < num" "ls_pool ?s ! k" using find_free_Some scan_pool [OF e] by blast+
    then show ?thesis
      using step Some take_inv [OF e p(1) _ _ p(2)] spill_new_inv [OF e p]
      by (auto simp: alloc_step_def Let_def split: if_splits option.splits)
  next
    case None
    then show ?thesis
      using step steal_inv [OF e p] spill_new_inv [OF e p]
      by (auto simp: alloc_step_def Let_def split: if_splits option.splits)
  qed
qed

lemma alloc_step_defined:
  assumes inv: "scan_inv num first sz res ivs0 p s" and p: "p < length ivs0"
    and mono: "\<And>q. p \<le> q \<Longrightarrow> q < length ivs0 \<Longrightarrow> iv_start (ivs0 ! p) \<le> iv_start (ivs0 ! q)"
    and k: "k < num" "\<not> res k"
  shows "alloc_step first sz force p s \<noteq> None"
proof -
  let ?s = "expire first p s"
  have e: "scan_inv num first sz res ivs0 p ?s" by (rule expire_inv [OF inv p mono])
  have "find_free (ls_pool ?s) = None \<Longrightarrow> ls_active ?s \<noteq> []"
    using core_not_stuck [OF scan_core [OF e] k] find_free_None scan_pool [OF e] by fastforce
  then show ?thesis by (auto simp: alloc_step_def Let_def split: option.splits)
qed

lemma ls_loop_inv:
  assumes "scan_inv num first sz res ivs0 p s" "p \<le> length ivs0" "0 \<le> first" "sz \<noteq> 0"
    and mono: "\<And>i j. i \<le> j \<Longrightarrow> j < length ivs0 \<Longrightarrow> iv_start (ivs0 ! i) \<le> iv_start (ivs0 ! j)"
    and "ls_loop first sz force [p..<length ivs0] s = Some s'"
  shows "scan_inv num first sz res ivs0 (length ivs0) s'"
  using assms(1,2,6)
proof (induction "length ivs0 - p" arbitrary: p s)
  case 0
  then show ?case by simp
next
  case (Suc m)
  then have p: "p < length ivs0" by simp
  then have "[p..<length ivs0] = p # [Suc p..<length ivs0]" by (rule upt_conv_Cons)
  with Suc.prems(3) obtain s1 where s1: "alloc_step first sz force p s = Some s1"
      "ls_loop first sz force [Suc p..<length ivs0] s1 = Some s'"
    by (auto simp: bind_eq_Some_conv)
  have "scan_inv num first sz res ivs0 (Suc p) s1"
    using alloc_step_inv [OF Suc.prems(1) p assms(3,4) mono s1(1)] by simp
  with Suc.hyps(1) [of "Suc p"] Suc.hyps(2) p s1(2) show ?case by simp
qed

lemma ls_loop_defined:
  assumes "scan_inv num first sz res ivs0 p s" "p \<le> length ivs0" "0 \<le> first" "sz \<noteq> 0"
    and mono: "\<And>i j. i \<le> j \<Longrightarrow> j < length ivs0 \<Longrightarrow> iv_start (ivs0 ! i) \<le> iv_start (ivs0 ! j)"
    and k: "k < num" "\<not> res k"
  shows "ls_loop first sz force [p..<length ivs0] s \<noteq> None"
  using assms(1,2)
proof (induction "length ivs0 - p" arbitrary: p s)
  case 0
  then show ?case by simp
next
  case (Suc m)
  then have p: "p < length ivs0" by simp
  then have eq: "[p..<length ivs0] = p # [Suc p..<length ivs0]" by (rule upt_conv_Cons)
  obtain s1 where s1: "alloc_step first sz force p s = Some s1"
    using alloc_step_defined [OF Suc.prems(1) p mono k] by fastforce
  have "scan_inv num first sz res ivs0 (Suc p) s1"
    using alloc_step_inv [OF Suc.prems(1) p assms(3,4) mono s1] by simp
  with Suc.hyps(1) [of "Suc p" s1] Suc.hyps(2) p s1 eq show ?case by simp
qed

subsection \<open>The allocation\<close>

text \<open>The temps \<open>linscan\<close> allocates, and the end of a temp's live range.\<close>

definition in_class :: "bool list \<Rightarrow> int list \<Rightarrow> nat \<Rightarrow> nat \<Rightarrow> bool" where
  "in_class is_class first_def ntemps t \<longleftrightarrow> t < ntemps \<and> is_class ! t \<and> 0 \<le> first_def ! t"

definition live_end :: "int list \<Rightarrow> int list \<Rightarrow> nat \<Rightarrow> int" where
  "live_end first_def last_use t = max (first_def ! t) (last_use ! t)"

text \<open>What an allocation of one register class owes its client.\<close>

definition alloc_ok ::
  "nat \<Rightarrow> int \<Rightarrow> int \<Rightarrow> (nat \<Rightarrow> bool) \<Rightarrow> (nat \<Rightarrow> bool) \<Rightarrow> (nat \<Rightarrow> int) \<Rightarrow> (nat \<Rightarrow> int) \<Rightarrow> nat \<Rightarrow>
   int list \<Rightarrow> int list \<Rightarrow> bool" where
  "alloc_ok num first sz res C st en ns tr ts \<longleftrightarrow>
     (\<forall>t. C t \<longrightarrow> placed num first sz res ns (tr ! t) (ts ! t)) \<and>
     (\<forall>t u. C t \<longrightarrow> C u \<longrightarrow> t \<noteq> u \<longrightarrow> tr ! t = tr ! u \<longrightarrow> tr ! u \<noteq> -1 \<longrightarrow>
        overlap_free st en t u) \<and>
     (\<forall>t u. C t \<longrightarrow> C u \<longrightarrow> t \<noteq> u \<longrightarrow> tr ! t = -1 \<longrightarrow> tr ! u = -1 \<longrightarrow> ts ! t \<noteq> ts ! u)"

lemmas alloc_ok_placed = alloc_ok_def [THEN iffD1, THEN conjunct1, rule_format]
lemmas alloc_ok_disjoint = alloc_ok_def [THEN iffD1, THEN conjunct2, THEN conjunct1, rule_format]
lemmas alloc_ok_slots = alloc_ok_def [THEN iffD1, THEN conjunct2, THEN conjunct2, rule_format]

lemma set_build_ivs:
  "set (build_ivs cl fd lu n) =
   (\<lambda>t. \<lparr>iv_temp = t, iv_start = fd ! t, iv_end = live_end fd lu t, iv_reg = -1, iv_spill = -1\<rparr>) `
     {t. in_class cl fd n t}"
  by (auto simp: build_ivs_def in_class_def live_end_def max_def)

lemma build_ivs_mem:
  assumes "in_class cl fd n t"
  obtains iv where "iv \<in> set (build_ivs cl fd lu n)" "iv_temp iv = t" "iv_start iv = fd ! t"
    "iv_end iv = live_end fd lu t"
proof
  let ?iv = "\<lparr>iv_temp = t, iv_start = fd ! t, iv_end = live_end fd lu t, iv_reg = -1, iv_spill = -1\<rparr>"
  show "?iv \<in> set (build_ivs cl fd lu n)"
    unfolding set_build_ivs by (rule image_eqI [where x = t]) (simp_all add: assms)
qed simp_all

lemma temps_build_ivs:
  "map iv_temp (build_ivs cl fd lu n) = filter (\<lambda>t. cl ! t \<and> \<not> fd ! t < 0) [0..<n]"
  by (simp add: build_ivs_def comp_def)

lemma fst_store_iv [simp]: "fst (store_iv iv ts) = (fst ts)[iv_temp iv := iv_reg iv]"
  and snd_store_iv [simp]: "snd (store_iv iv ts) = (snd ts)[iv_temp iv := iv_spill iv]"
  by (simp_all add: store_iv_def)

lemma length_store [simp]:
  "length (fst (fold store_iv ivs ts)) = length (fst ts)"
  "length (snd (fold store_iv ivs ts)) = length (snd ts)"
  by (induction ivs arbitrary: ts) auto

lemma store_other:
  "t \<notin> iv_temp ` set ivs \<Longrightarrow>
   fst (fold store_iv ivs ts) ! t = fst ts ! t \<and> snd (fold store_iv ivs ts) ! t = snd ts ! t"
  by (induction ivs arbitrary: ts) auto

lemma store_this:
  assumes "distinct (map iv_temp ivs)" "q < length ivs"
    "iv_temp (ivs ! q) < length (fst ts)" "iv_temp (ivs ! q) < length (snd ts)"
  shows "fst (fold store_iv ivs ts) ! iv_temp (ivs ! q) = iv_reg (ivs ! q) \<and>
    snd (fold store_iv ivs ts) ! iv_temp (ivs ! q) = iv_spill (ivs ! q)"
  using assms
proof (induction ivs arbitrary: ts q)
  case Nil
  then show ?case by simp
next
  case (Cons iv ivs)
  show ?case
  proof (cases q)
    case 0
    have "iv_temp iv \<notin> iv_temp ` set ivs" using Cons.prems(1) by simp
    from store_other [OF this, of "store_iv iv ts"] 0 Cons.prems show ?thesis by simp
  next
    case (Suc q')
    with Cons.IH [of q' "store_iv iv ts"] Cons.prems show ?thesis by simp
  qed
qed

lemma same_shape_temps: "same_shape xs ys \<Longrightarrow> map iv_temp xs = map iv_temp ys"
  by (intro nth_equalityI) (auto simp: same_shape_def)

lemma store_index:
  assumes shape: "same_shape ivs ivs0"
    and set0: "set ivs0 = set (build_ivs cl fd lu n)" and d: "distinct (map iv_temp ivs0)"
    and len: "n \<le> length (fst ts)" "n \<le> length (snd ts)"
    and r: "r = fold store_iv ivs ts" and t: "in_class cl fd n t"
  shows "\<exists>q<length ivs0. iv_temp (ivs0 ! q) = t \<and> iv_start (ivs0 ! q) = fd ! t \<and>
      iv_end (ivs0 ! q) = live_end fd lu t \<and> fst r ! t = iv_reg (ivs ! q) \<and>
      snd r ! t = iv_spill (ivs ! q)"
proof -
  have d': "distinct (map iv_temp ivs)" using d same_shape_temps [OF shape] by simp
  obtain iv where iv: "iv \<in> set ivs0" "iv_temp iv = t" "iv_start iv = fd ! t"
      "iv_end iv = live_end fd lu t"
    using build_ivs_mem [OF t, of lu] unfolding set0 [symmetric] by blast
  then obtain q where q: "q < length ivs0" "ivs0 ! q = iv" by (meson in_set_conv_nth)
  have "q < length ivs" "iv_temp (ivs ! q) = t"
    using q iv same_shapeD [OF shape] by auto
  moreover have "t < length (fst ts)" "t < length (snd ts)"
    using t len by (auto simp: in_class_def)
  ultimately show ?thesis using store_this [OF d', of q ts] q iv r by auto
qed

text \<open>
  A write-back of intervals whose registers and slots satisfy the loop invariant is a correct
  allocation of the class.
\<close>

lemma store_alloc_ok:
  assumes shape: "same_shape ivs ivs0"
    and set0: "set ivs0 = set (build_ivs cl fd lu n)" and d: "distinct (map iv_temp ivs0)"
    and c: "core num first sz res (\<lambda>q. iv_start (ivs0 ! q)) (\<lambda>q. iv_end (ivs0 ! q)) (length ivs0)
        (length ivs0) (\<lambda>q. iv_reg (ivs ! q)) (\<lambda>q. iv_spill (ivs ! q)) A P ns"
    and len: "n \<le> length (fst ts)" "n \<le> length (snd ts)"
    and r: "r = fold store_iv ivs ts"
  shows "alloc_ok num first sz res (in_class cl fd n) (\<lambda>t. fd ! t) (live_end fd lu) ns
      (fst r) (snd r)"
proof -
  note idx = store_index [OF shape set0 d len r]
  show ?thesis
    unfolding alloc_ok_def
  proof (intro conjI allI impI)
    fix t assume "in_class cl fd n t"
    with idx core_placed [OF c] show "placed num first sz res ns (fst r ! t) (snd r ! t)" by fastforce
  next
    fix t u assume tu: "in_class cl fd n t" "in_class cl fd n u" "t \<noteq> u"
      "fst r ! t = fst r ! u" "fst r ! u \<noteq> -1"
    obtain i j where ij: "i < length ivs0" "iv_temp (ivs0 ! i) = t" "iv_start (ivs0 ! i) = fd ! t"
        "iv_end (ivs0 ! i) = live_end fd lu t" "fst r ! t = iv_reg (ivs ! i)"
        "j < length ivs0" "iv_temp (ivs0 ! j) = u" "iv_start (ivs0 ! j) = fd ! u"
        "iv_end (ivs0 ! j) = live_end fd lu u" "fst r ! u = iv_reg (ivs ! j)"
      using idx [OF tu(1)] idx [OF tu(2)] by metis
    then have "i \<noteq> j" "iv_reg (ivs ! i) = iv_reg (ivs ! j)" "iv_reg (ivs ! j) \<noteq> -1"
      using tu by auto
    from core_disjoint [OF c ij(1,6) this] ij
    show "overlap_free ((!) fd) (live_end fd lu) t u" by (simp add: overlap_free_def)
  next
    fix t u assume tu: "in_class cl fd n t" "in_class cl fd n u" "t \<noteq> u"
      "fst r ! t = -1" "fst r ! u = -1"
    obtain i j where ij: "i < length ivs0" "iv_temp (ivs0 ! i) = t" "fst r ! t = iv_reg (ivs ! i)"
        "snd r ! t = iv_spill (ivs ! i)" "j < length ivs0" "iv_temp (ivs0 ! j) = u"
        "fst r ! u = iv_reg (ivs ! j)" "snd r ! u = iv_spill (ivs ! j)"
      using idx [OF tu(1)] idx [OF tu(2)] by metis
    then have "i \<noteq> j" "iv_reg (ivs ! i) = -1" "iv_reg (ivs ! j) = -1"
      using tu by auto
    from core_slots [OF c ij(1,5) this] ij show "snd r ! t \<noteq> snd r ! u" by simp
  qed
qed

text \<open>A temp that \<open>force_spill\<close> marks never receives a register.\<close>

definition forced_out :: "bool list option \<Rightarrow> interval list \<Rightarrow> bool" where
  "forced_out force ivs \<longleftrightarrow>
     (case force of None \<Rightarrow> True
      | Some f \<Rightarrow> \<forall>q<length ivs. f ! iv_temp (ivs ! q) \<longrightarrow> iv_reg (ivs ! q) = -1)"

lemma forced_nil: "forced_out force []"
  by (simp add: forced_out_def split: option.splits)

lemma forced_unset: "(\<And>iv. iv \<in> set ivs \<Longrightarrow> iv_reg iv = -1) \<Longrightarrow> forced_out force ivs"
  by (simp add: forced_out_def split: option.splits)

lemma forced_upd:
  "forced_out force ivs \<Longrightarrow>
   (\<And>f. force = Some f \<Longrightarrow> q < length ivs \<Longrightarrow> f ! iv_temp x \<Longrightarrow> iv_reg x = -1) \<Longrightarrow>
   forced_out force (ivs[q := x])"
  by (auto simp: forced_out_def nth_upd split: option.splits)

lemma forced_spill [simp]: "forced_out force (ls_ivs s) \<Longrightarrow> forced_out force (ls_ivs (spill_iv sz q s))"
  by (auto simp: spill_iv_def forced_out_def nth_upd split: option.splits)

lemma forced_set:
  "forced_out force (ls_ivs s) \<Longrightarrow>
   (\<And>f. force = Some f \<Longrightarrow> f ! iv_temp (ls_ivs s ! q) \<Longrightarrow> r = -1) \<Longrightarrow>
   forced_out force (ls_ivs (set_reg q r s))"
  by (auto simp: set_reg_def intro: forced_upd)

lemma alloc_step_forced:
  assumes "forced_out force (ls_ivs s)" "alloc_step first sz force p s = Some s'"
  shows "forced_out force (ls_ivs s')"
proof -
  define s1 where "s1 = expire first p s"
  have s1: "forced_out force (ls_ivs s1)" using assms(1) by (simp add: s1_def expire_def Let_def)
  show ?thesis
  proof (cases "case force of None \<Rightarrow> False | Some f \<Rightarrow> f ! iv_temp (ls_ivs s1 ! p)")
    case True
    then have "s' = spill_iv sz p s1"
      using assms(2) unfolding alloc_step_def Let_def s1_def [symmetric] by simp
    then show ?thesis using s1 by simp
  next
    case False
    then have set_p: "forced_out force (ls_ivs (set_reg p r s1))" for r
      by (intro forced_set [OF s1]) (simp split: option.splits)
    have steal: "forced_out force (ls_ivs (spill_iv sz q (set_reg q (-1) (set_reg p r s1))))" for q r
      by (intro forced_spill forced_set [OF set_p]) simp
    from assms(2) show ?thesis
      unfolding alloc_step_def Let_def s1_def [symmetric] if_not_P [OF False]
      by (cases "find_free (ls_pool s1)") (auto simp: set_p steal s1 split: if_splits)
  qed
qed

lemma ls_loop_forced:
  "forced_out force (ls_ivs s) \<Longrightarrow> ls_loop first sz force ps s = Some s' \<Longrightarrow>
   forced_out force (ls_ivs s')"
  by (induction ps arbitrary: s) (auto simp: bind_eq_Some_conv dest: alloc_step_forced)

lemma core_all_spilled:
  assumes "sz \<noteq> 0" "\<And>q. q < n \<Longrightarrow> R q = -1 \<and> S q = int q * sz"
  shows "core 0 first sz res st en n n R S {} P n"
  by (rule coreI) (use assms in \<open>auto simp: placed_def\<close>)

context interval_qsort
begin

lemma init_inv:
  "scan_inv num first sz (\<lambda>k. case reserved of None \<Rightarrow> False | Some f \<Rightarrow> f ! k)
     (qsort (build_ivs cl fd lu n)) 0
     \<lparr>ls_ivs = qsort (build_ivs cl fd lu n), ls_active = [], ls_pool = init_pool num reserved,
      ls_nspills = 0\<rparr>"
proof -
  let ?ivs = "build_ivs cl fd lu n"
  have "iv_reg iv = -1 \<and> iv_spill iv = -1" if "iv \<in> set ?ivs" for iv
    using that unfolding set_build_ivs by auto
  then have "iv_reg (qsort ?ivs ! q) = -1 \<and> iv_spill (qsort ?ivs ! q) = -1"
    if "q < length (qsort ?ivs)" for q
    using nth_mem [OF that] by (simp add: qsort_set)
  then show ?thesis
    by (auto simp: scan_inv_def same_shape_def init_pool_def split: option.splits intro!: core_init)
qed

lemma linscan_writes:
  assumes run: "linscan qsort fd lu cl num first sz force reserved n ts = Some (ns, r)"
    and pos: "0 \<le> first" "sz \<noteq> 0"
  obtains ivs ivs0 A P where "same_shape ivs ivs0" "set ivs0 = set (build_ivs cl fd lu n)"
    "distinct (map iv_temp ivs0)" "r = fold store_iv ivs ts"
    "core num first sz (\<lambda>k. case reserved of None \<Rightarrow> False | Some f \<Rightarrow> f ! k)
       (\<lambda>q. iv_start (ivs0 ! q)) (\<lambda>q. iv_end (ivs0 ! q)) (length ivs0) (length ivs0)
       (\<lambda>q. iv_reg (ivs ! q)) (\<lambda>q. iv_spill (ivs ! q)) A P ns"
    "forced_out force ivs"
proof -
  let ?ivs = "build_ivs cl fd lu n" and ?res = "\<lambda>k. case reserved of None \<Rightarrow> False | Some f \<Rightarrow> f ! k"
  have d: "distinct (map iv_temp ?ivs)" by (simp add: temps_build_ivs)
  consider "?ivs = []" | "?ivs \<noteq> []" "num = 0" | "?ivs \<noteq> []" "num \<noteq> 0" by blast
  then show thesis
  proof cases
    case 1
    then have "r = fold store_iv [] ts" "ns = 0" using run by (auto simp: linscan_def Let_def)
    with 1 show thesis by (intro that [of "[]" "[]"]) (auto simp: same_shape_def forced_nil intro!: core_init)
  next
    case 2
    let ?jvs = "map (\<lambda>p. (?ivs ! p)\<lparr>iv_reg := -1, iv_spill := int p * sz\<rparr>) [0..<length ?ivs]"
    have r: "r = fold store_iv ?jvs ts" "ns = length ?ivs"
      using run 2 by (auto simp: linscan_def Let_def fold_map comp_def)
    have shape: "same_shape ?jvs ?ivs" by (simp add: same_shape_def)
    have "core num first sz ?res (\<lambda>q. iv_start (?ivs ! q)) (\<lambda>q. iv_end (?ivs ! q)) (length ?ivs)
        (length ?ivs) (\<lambda>q. iv_reg (?jvs ! q)) (\<lambda>q. iv_spill (?jvs ! q)) {} (\<lambda>_. True) ns"
      unfolding r(2) \<open>num = 0\<close> by (rule core_all_spilled [OF pos(2)]) simp
    moreover have "forced_out force ?jvs" by (rule forced_unset) auto
    ultimately show thesis using that [OF shape refl d r(1)] by blast
  next
    case 3
    let ?s0 = "\<lparr>ls_ivs = qsort ?ivs, ls_active = [], ls_pool = init_pool num reserved, ls_nspills = 0\<rparr>"
    obtain s where s: "ls_loop first sz force [0..<length (qsort ?ivs)] ?s0 = Some s"
        "ns = ls_nspills s" "r = fold store_iv (ls_ivs s) ts"
      using run 3 by (auto simp: linscan_def Let_def bind_eq_Some_conv)
    have "scan_inv num first sz ?res (qsort ?ivs) 0 ?s0" by (rule init_inv)
    then have fin: "scan_inv num first sz ?res (qsort ?ivs) (length (qsort ?ivs)) s"
      by (rule ls_loop_inv [OF _ _ pos _ s(1)]) (simp_all add: qsort_starts)
    have unset: "iv_reg iv = -1" if "iv \<in> set ?ivs" for iv
      using that unfolding set_build_ivs by auto
    have "forced_out force (qsort ?ivs)" by (rule forced_unset) (simp add: unset)
    then have f: "forced_out force (ls_ivs s)" by (intro ls_loop_forced [OF _ s(1)]) simp
    show thesis
    proof (rule that [OF scan_shape [OF fin] _ _ s(3) _ f])
      show "set (qsort ?ivs) = set ?ivs" by simp
      show "distinct (map iv_temp (qsort ?ivs))" using d by (simp add: qsort_distinct_temps)
    qed (use scan_core [OF fin] s(2) in simp)
  qed
qed

lemma linscan_alloc_ok:
  assumes run: "linscan qsort fd lu cl num first sz force reserved n ts = Some (ns, r)"
    and len: "n \<le> length (fst ts)" "n \<le> length (snd ts)" and pos: "0 \<le> first" "sz \<noteq> 0"
  shows "alloc_ok num first sz (\<lambda>k. case reserved of None \<Rightarrow> False | Some f \<Rightarrow> f ! k)
      (in_class cl fd n) (\<lambda>t. fd ! t) (live_end fd lu) ns (fst r) (snd r)"
  by (rule linscan_writes [OF run pos]) (rule store_alloc_ok [OF _ _ _ _ len])

lemma linscan_forced:
  assumes run: "linscan qsort fd lu cl num first sz (Some f) reserved n ts = Some (ns, r)"
    and len: "n \<le> length (fst ts)" "n \<le> length (snd ts)" and pos: "0 \<le> first" "sz \<noteq> 0"
    and t: "in_class cl fd n t" "f ! t"
  shows "fst r ! t = -1"
proof -
  obtain ivs ivs0 where w: "same_shape ivs ivs0" "set ivs0 = set (build_ivs cl fd lu n)"
      "distinct (map iv_temp ivs0)" "r = fold store_iv ivs ts" "forced_out (Some f) ivs"
    by (rule linscan_writes [OF run pos])
  from store_index [OF w(1-3) len w(4) t(1)] obtain q where
    "q < length ivs0" "iv_temp (ivs0 ! q) = t" "fst r ! t = iv_reg (ivs ! q)" by blast
  then show ?thesis using w(5) t(2) same_shapeD [OF w(1)] by (auto simp: forced_out_def)
qed

lemma linscan_frame:
  assumes run: "linscan qsort fd lu cl num first sz force reserved n ts = Some (ns, r)"
    and pos: "0 \<le> first" "sz \<noteq> 0"
  shows "length (fst r) = length (fst ts)" "length (snd r) = length (snd ts)"
    and "\<not> in_class cl fd n t \<Longrightarrow> fst r ! t = fst ts ! t \<and> snd r ! t = snd ts ! t"
proof -
  obtain ivs ivs0 where w: "same_shape ivs ivs0" "set ivs0 = set (build_ivs cl fd lu n)"
      "r = fold store_iv ivs ts"
    by (rule linscan_writes [OF run pos])
  show "length (fst r) = length (fst ts)" "length (snd r) = length (snd ts)" by (simp_all add: w)
  assume "\<not> in_class cl fd n t"
  moreover have "iv_temp ` set ivs = iv_temp ` set ivs0"
    using same_shape_temps [OF w(1)] by (metis set_map)
  ultimately have "t \<notin> iv_temp ` set ivs" unfolding w(2) set_build_ivs by auto
  from store_other [OF this, of ts] show "fst r ! t = fst ts ! t \<and> snd r ! t = snd ts ! t"
    by (simp add: w)
qed

lemma linscan_defined:
  assumes "0 \<le> first" "sz \<noteq> 0" "k < num" "\<not> (case reserved of None \<Rightarrow> False | Some f \<Rightarrow> f ! k)"
  shows "linscan qsort fd lu cl num first sz force reserved n ts \<noteq> None"
  using ls_loop_defined [OF init_inv _ assms(1,2) _ assms(3,4), of cl fd lu n force] assms(3)
  by (auto simp: linscan_def Let_def qsort_starts)

end

end
