(* ===== verification/Regalloc_Correct.thy ===== *)
theory Regalloc_Correct
  imports Regalloc Linscan_Correct
begin

text \<open>
  What the allocators compute.  The instruction loop of every backend satisfies the contract of
  the locale \<open>live_scan\<close> (and \<open>arg_scan\<close>, where the loop extends argument temps to their call):
  \<open>first_def\<close> is the position of the first definition and \<open>last_use\<close> bounds every mention.  With
  the per-class result of the linear scan this gives, per backend, that temps live at a common
  position are never given the same place.
\<close>

subsection \<open>Definitions and names_temp of a temp\<close>

definition asm_outputs :: "ir_insn \<Rightarrow> nat \<Rightarrow> bool" where
  "asm_outputs i t \<longleftrightarrow>
     (case asm_info_of i of None \<Rightarrow> False
      | Some ai \<Rightarrow> \<exists>op \<in> set (asm_ops ai). ao_temp op = int t \<and> (ao_is_output op \<or> ao_is_inout op))"

definition asm_mentions :: "ir_insn \<Rightarrow> nat \<Rightarrow> bool" where
  "asm_mentions i t \<longleftrightarrow>
     (case asm_info_of i of None \<Rightarrow> False | Some ai \<Rightarrow> \<exists>op \<in> set (asm_ops ai). ao_temp op = int t)"

definition sets_temp :: "ir_insn \<Rightarrow> nat \<Rightarrow> bool" where
  "sets_temp i t \<longleftrightarrow> i_dst i = int t \<or> asm_outputs i t"

definition names_temp :: "ir_insn \<Rightarrow> nat \<Rightarrow> bool" where
  "names_temp i t \<longleftrightarrow> i_dst i = int t \<or> i_a i = int t \<or> i_b i = int t \<or> asm_mentions i t"

definition sized :: "nat \<Rightarrow> live \<Rightarrow> bool" where
  "sized n s \<longleftrightarrow> length (lv_first_def s) = n \<and> length (lv_last_use s) = n \<and>
     length (lv_is_float s) = n \<and> length (lv_is_i64 s) = n"

subsection \<open>The pieces of the loop body\<close>

named_theorems live_proj

lemma def_at_proj [live_proj]:
  "lv_first_def (def_at p t s) =
     (if lv_first_def s ! t < 0 then (lv_first_def s)[t := p] else lv_first_def s)"
  "lv_last_use (def_at p t s) = lv_last_use s" "lv_is_float (def_at p t s) = lv_is_float s"
  "lv_is_i64 (def_at p t s) = lv_is_i64 s" "lv_pending (def_at p t s) = lv_pending s"
  "lv_call_pos (def_at p t s) = lv_call_pos s"
  by (simp_all add: def_at_def)

lemma use_at_proj [live_proj]:
  "lv_last_use (use_at p t s) = (lv_last_use s)[t := max (lv_last_use s ! t) p]"
  "lv_first_def (use_at p t s) = lv_first_def s" "lv_is_float (use_at p t s) = lv_is_float s"
  "lv_is_i64 (use_at p t s) = lv_is_i64 s" "lv_pending (use_at p t s) = lv_pending s"
  "lv_call_pos (use_at p t s) = lv_call_pos s"
  by (auto simp: use_at_def max_def)

lemma set_class_proj [live_proj]:
  "lv_is_float (set_float t s) = (lv_is_float s)[t := True]"
  "lv_first_def (set_float t s) = lv_first_def s" "lv_last_use (set_float t s) = lv_last_use s"
  "lv_is_i64 (set_float t s) = lv_is_i64 s" "lv_pending (set_float t s) = lv_pending s"
  "lv_call_pos (set_float t s) = lv_call_pos s"
  "lv_is_i64 (set_i64 t s) = (lv_is_i64 s)[t := True]"
  "lv_first_def (set_i64 t s) = lv_first_def s" "lv_last_use (set_i64 t s) = lv_last_use s"
  "lv_is_float (set_i64 t s) = lv_is_float s" "lv_pending (set_i64 t s) = lv_pending s"
  "lv_call_pos (set_i64 t s) = lv_call_pos s"
  by (simp_all add: set_float_def set_i64_def)

lemma use_temp_proj [live_proj]:
  "lv_last_use (use_temp n p t s) =
     (if is_temp n t then (lv_last_use s)[nat t := max (lv_last_use s ! nat t) p] else lv_last_use s)"
  "lv_first_def (use_temp n p t s) = lv_first_def s" "lv_is_float (use_temp n p t s) = lv_is_float s"
  "lv_is_i64 (use_temp n p t s) = lv_is_i64 s" "lv_pending (use_temp n p t s) = lv_pending s"
  "lv_call_pos (use_temp n p t s) = lv_call_pos s"
  by (simp_all add: use_temp_def live_proj)

lemma use_temps_proj [live_proj]:
  "lv_first_def (fold (use_temp n p) ts s) = lv_first_def s"
  "lv_is_float (fold (use_temp n p) ts s) = lv_is_float s"
  "lv_is_i64 (fold (use_temp n p) ts s) = lv_is_i64 s"
  "lv_pending (fold (use_temp n p) ts s) = lv_pending s"
  "lv_call_pos (fold (use_temp n p) ts s) = lv_call_pos s"
  "length (lv_last_use (fold (use_temp n p) ts s)) = length (lv_last_use s)"
  by (induction ts arbitrary: s) (simp_all add: live_proj)

lemma use_temp_last:
  "lv_last_use s ! t \<le> lv_last_use (use_temp n p u s) ! t"
  by (cases "nat u = t"; cases "t < length (lv_last_use s)") (auto simp: live_proj list_update_beyond)

lemma use_temps_last:
  "lv_last_use s ! t \<le> lv_last_use (fold (use_temp n p) ts s) ! t"
  by (induction ts arbitrary: s) (auto intro: order_trans use_temp_last)

lemma use_temps_reach:
  assumes "int t \<in> set ts" "t < n" "length (lv_last_use s) = n"
  shows "p \<le> lv_last_use (fold (use_temp n p) ts s) ! t"
  using assms
proof (induction ts arbitrary: s)
  case (Cons u ts)
  show ?case
  proof (cases "u = int t")
    case True
    then have "p \<le> lv_last_use (use_temp n p u s) ! t"
      using Cons.prems by (simp add: live_proj is_temp_def)
    also have "\<dots> \<le> lv_last_use (fold (use_temp n p) ts (use_temp n p u s)) ! t"
      by (rule use_temps_last)
    finally show ?thesis by simp
  next
    case False
    then show ?thesis using Cons.IH [of "use_temp n p u s"] Cons.prems by (simp add: live_proj)
  qed
qed simp

text \<open>What one step of the loop does to a temp, as seen by the code after it.\<close>

definition live_step :: "nat \<Rightarrow> int \<Rightarrow> (nat \<Rightarrow> bool) \<Rightarrow> (nat \<Rightarrow> bool) \<Rightarrow> live \<Rightarrow> live \<Rightarrow> bool" where
  "live_step n pos D M s s' \<longleftrightarrow>
     sized n s' \<and>
     (\<forall>t<n. lv_first_def s' ! t = (if lv_first_def s ! t < 0 \<and> D t then pos else lv_first_def s ! t)) \<and>
     (\<forall>t<n. lv_last_use s ! t \<le> lv_last_use s' ! t) \<and>
     (\<forall>t<n. M t \<longrightarrow> pos \<le> lv_last_use s' ! t)"

lemmas live_step_sized = live_step_def [THEN iffD1, THEN conjunct1]
lemmas live_step_first = live_step_def [THEN iffD1, THEN conjunct2, THEN conjunct1, rule_format]
lemmas live_step_last =
  live_step_def [THEN iffD1, THEN conjunct2, THEN conjunct2, THEN conjunct1, rule_format]
lemmas live_step_reach =
  live_step_def [THEN iffD1, THEN conjunct2, THEN conjunct2, THEN conjunct2, rule_format]

lemma live_step_trans:
  assumes a: "live_step n pos D M s s'" and b: "live_step n pos D' M' s' s''" and "0 \<le> pos"
  shows "live_step n pos (\<lambda>t. D t \<or> D' t) (\<lambda>t. M t \<or> M' t) s s''"
  unfolding live_step_def
proof (intro conjI allI impI)
  show "sized n s''" by (rule live_step_sized [OF b])
  fix t assume t: "t < n"
  show "lv_first_def s'' ! t =
      (if lv_first_def s ! t < 0 \<and> (D t \<or> D' t) then pos else lv_first_def s ! t)"
    using live_step_first [OF a t] live_step_first [OF b t] \<open>0 \<le> pos\<close> by auto
  show "lv_last_use s ! t \<le> lv_last_use s'' ! t"
    using live_step_last [OF a t] live_step_last [OF b t] by simp
  assume "M t \<or> M' t"
  then show "pos \<le> lv_last_use s'' ! t"
    using live_step_reach [OF a t] live_step_last [OF b t] live_step_reach [OF b t] by fastforce
qed

lemma live_step_same:
  "live_step n pos D M s s' \<Longrightarrow> lv_first_def s'' = lv_first_def s' \<Longrightarrow>
   lv_last_use s'' = lv_last_use s' \<Longrightarrow> length (lv_is_float s'') = n \<Longrightarrow>
   length (lv_is_i64 s'') = n \<Longrightarrow> live_step n pos D M s s''"
  by (simp add: live_step_def sized_def)

lemma live_step_refl: "sized n s \<Longrightarrow> live_step n pos (\<lambda>_. False) (\<lambda>_. False) s s"
  by (simp add: live_step_def)

lemma use_at_step:
  "sized n s \<Longrightarrow> u < n \<Longrightarrow> live_step n pos (\<lambda>_. False) (\<lambda>t. u = t) s (use_at pos u s)"
  by (auto simp: live_step_def sized_def live_proj nth_upd)

lemma def_at_step:
  "sized n s \<Longrightarrow> u < n \<Longrightarrow> live_step n pos (\<lambda>t. u = t) (\<lambda>_. False) s (def_at pos u s)"
  by (auto simp: live_step_def sized_def live_proj nth_upd)

lemma use_temp_step:
  "sized n s \<Longrightarrow> live_step n pos (\<lambda>_. False) (\<lambda>t. u = int t) s (use_temp n pos u s)"
  by (auto simp: live_step_def sized_def live_proj nth_upd is_temp_def)

lemma scan_uses_step:
  assumes "sized n s" "0 \<le> pos"
  shows "live_step n pos (\<lambda>_. False) (\<lambda>t. i_a i = int t \<or> i_b i = int t) s (scan_uses n pos i s)"
proof -
  note a = use_temp_step [OF assms(1), of pos "i_a i"]
  from live_step_trans [OF a use_temp_step [OF live_step_sized [OF a]] assms(2)]
  show ?thesis by (simp add: scan_uses_def)
qed

lemma dst_step:
  assumes "sized n s" "0 \<le> pos" "u < n"
  shows "live_step n pos (\<lambda>t. u = t) (\<lambda>t. u = t) s (use_at pos u (def_at pos u s))"
proof -
  note a = def_at_step [OF assms(1,3), of pos]
  from live_step_trans [OF a use_at_step [OF live_step_sized [OF a] assms(3)] assms(2)]
  show ?thesis by simp
qed

lemma is_tempE:
  assumes "is_temp n t"
  obtains u where "t = int u" "u < n"
  using that [of "nat t"] assms by (auto simp: is_temp_def)

lemma scan_asm_op_step:
  assumes "sized n s" "0 \<le> pos"
  shows "live_step n pos (\<lambda>t. ao_temp op = int t \<and> (ao_is_output op \<or> ao_is_inout op))
    (\<lambda>t. ao_temp op = int t) s (scan_asm_op n pos op s)"
proof (cases "is_temp n (ao_temp op)")
  case True
  then obtain u where u: "ao_temp op = int u" "u < n" by (rule is_tempE)
  then show ?thesis
    using True dst_step [OF assms u(2)] use_at_step [OF assms(1) u(2), of pos]
    by (auto simp: scan_asm_op_def Let_def)
next
  case False
  then have "live_step n pos (\<lambda>t. ao_temp op = int t \<and> (ao_is_output op \<or> ao_is_inout op))
      (\<lambda>t. ao_temp op = int t) s s"
    using assms by (auto simp: live_step_def is_temp_def)
  then show ?thesis using False by (simp add: scan_asm_op_def)
qed

lemma scan_asm_ops_step:
  assumes "sized n s" "0 \<le> pos"
  shows "live_step n pos
    (\<lambda>t. \<exists>op \<in> set ops. ao_temp op = int t \<and> (ao_is_output op \<or> ao_is_inout op))
    (\<lambda>t. \<exists>op \<in> set ops. ao_temp op = int t) s (fold (scan_asm_op n pos) ops s)"
  using assms
proof (induction ops arbitrary: s)
  case (Cons op ops)
  note a = scan_asm_op_step [OF Cons.prems, of op]
  from live_step_trans [OF a Cons.IH [OF live_step_sized [OF a] Cons.prems(2)] Cons.prems(2)]
  show ?case by simp
qed (simp add: live_step_def)

lemma scan_asm_step:
  assumes "sized n s" "0 \<le> pos"
  shows "live_step n pos (asm_outputs i) (asm_mentions i) s (scan_asm n pos i s)"
proof (cases "asm_info_of i")
  case None
  then have "scan_asm n pos i s = s"
    by (auto simp: scan_asm_def asm_info_of_def split: option.splits if_splits)
  then show ?thesis
    using None assms by (simp add: asm_outputs_def [abs_def] asm_mentions_def [abs_def] live_step_def)
next
  case (Some ai)
  then have "scan_asm n pos i s = fold (scan_asm_op n pos) (asm_ops ai) s"
    by (auto simp: scan_asm_def asm_info_of_def split: if_splits)
  then show ?thesis
    using Some scan_asm_ops_step [OF assms, of "asm_ops ai"]
    by (simp add: asm_outputs_def [abs_def] asm_mentions_def [abs_def])
qed

lemma scan_asm_proj [live_proj]:
  "lv_is_float (scan_asm n pos i s) = lv_is_float s" "lv_is_i64 (scan_asm n pos i s) = lv_is_i64 s"
  "lv_pending (scan_asm n pos i s) = lv_pending s" "lv_call_pos (scan_asm n pos i s) = lv_call_pos s"
proof -
  have "lv_is_float (fold (scan_asm_op n pos) ops s) = lv_is_float s \<and>
      lv_is_i64 (fold (scan_asm_op n pos) ops s) = lv_is_i64 s \<and>
      lv_pending (fold (scan_asm_op n pos) ops s) = lv_pending s \<and>
      lv_call_pos (fold (scan_asm_op n pos) ops s) = lv_call_pos s" for ops
    by (induction ops arbitrary: s) (simp_all add: scan_asm_op_def Let_def live_proj)
  then show "lv_is_float (scan_asm n pos i s) = lv_is_float s"
      "lv_is_i64 (scan_asm n pos i s) = lv_is_i64 s" "lv_pending (scan_asm n pos i s) = lv_pending s"
      "lv_call_pos (scan_asm n pos i s) = lv_call_pos s"
    by (simp_all add: scan_asm_def split: option.splits)
qed

lemma scan_uses_proj [live_proj]:
  "lv_is_float (scan_uses n pos i s) = lv_is_float s" "lv_is_i64 (scan_uses n pos i s) = lv_is_i64 s"
  "lv_pending (scan_uses n pos i s) = lv_pending s" "lv_call_pos (scan_uses n pos i s) = lv_call_pos s"
  by (simp_all add: scan_uses_def live_proj)

subsection \<open>The contract of an instruction loop\<close>

lemma scan_from_snoc:
  "scan_from step pos (is @ [i]) s = step (pos + int (length is)) i (scan_from step pos is s)"
  by (induction "is" arbitrary: pos s) (simp_all add: algebra_simps)

lemma nth_snoc_cases:
  assumes "p < length (xs @ [x])"
  obtains "p < length xs" "(xs @ [x]) ! p = xs ! p" | "p = length xs" "(xs @ [x]) ! p = x"
  using assms by (cases "p = length xs") (auto simp: nth_append)

locale live_scan =
  fixes n :: nat and step :: "int \<Rightarrow> ir_insn \<Rightarrow> live \<Rightarrow> live" and isf isi :: "ir_insn \<Rightarrow> bool"
  assumes step_live: "sized n s \<Longrightarrow> 0 \<le> pos \<Longrightarrow>
      live_step n pos (sets_temp i) (names_temp i) s (step pos i s)"
    and step_float: "sized n s \<Longrightarrow> t < n \<Longrightarrow>
      lv_is_float (step pos i s) ! t \<longleftrightarrow> lv_is_float s ! t \<or> i_dst i = int t \<and> isf i"
    and step_i64: "sized n s \<Longrightarrow> t < n \<Longrightarrow>
      lv_is_i64 (step pos i s) ! t \<longleftrightarrow> lv_is_i64 s ! t \<or> i_dst i = int t \<and> isi i"
begin

lemma scan_sized: "sized n (scan_from step 0 is (init_live n))"
proof (induction "is" rule: rev_induct)
  case (snoc i "is")
  then show ?case using live_step_sized [OF step_live [OF snoc]] by (simp add: scan_from_snoc)
qed (simp add: init_live_def sized_def)

lemma scan_step:
  "live_step n (int (length is)) (sets_temp i) (names_temp i) (scan_from step 0 is (init_live n))
     (scan_from step 0 (is @ [i]) (init_live n))"
  using step_live [OF scan_sized, of "int (length is)"] by (simp add: scan_from_snoc)

lemma scan_first:
  "t < n \<Longrightarrow> lv_first_def (scan_from step 0 is (init_live n)) ! t =
     (case find (\<lambda>p. sets_temp (is ! p) t) [0..<length is] of None \<Rightarrow> -1 | Some p \<Rightarrow> int p)"
proof (induction "is" rule: rev_induct)
  case (snoc i "is")
  have eq: "find (\<lambda>p. sets_temp ((is @ [i]) ! p) t) [0..<length is] =
      find (\<lambda>p. sets_temp (is ! p) t) [0..<length is]"
    by (rule find_cong) (auto simp: nth_append)
  have ap: "find Q (xs @ [x]) = (case find Q xs of None \<Rightarrow> if Q x then Some x else None | Some y \<Rightarrow> Some y)"
    for Q and xs :: "nat list" and x
    by (induction xs) auto
  show ?case
    using live_step_first [OF scan_step [of "is" i] snoc.prems] snoc.IH [OF snoc.prems]
    by (auto simp: scan_from_snoc ap eq split: option.splits)
qed (simp add: init_live_def)

lemma scan_first_le:
  assumes "t < n" "p < length is" "sets_temp (is ! p) t"
  shows "0 \<le> lv_first_def (scan_from step 0 is (init_live n)) ! t \<and>
    lv_first_def (scan_from step 0 is (init_live n)) ! t \<le> int p"
proof -
  let ?Q = "\<lambda>p. sets_temp (is ! p) t"
  obtain q where q: "find ?Q [0..<length is] = Some q"
    using assms by (cases "find ?Q [0..<length is]") (auto simp: find_None_iff)
  then obtain k where "k < length is" "[0..<length is] ! k = q" "\<forall>j<k. \<not> ?Q ([0..<length is] ! j)"
    by (auto simp: find_Some_iff)
  then have "\<forall>j<q. \<not> ?Q j" by auto
  then have "q \<le> p" using assms by (meson not_le)
  then show ?thesis using q assms by (simp add: scan_first)
qed

lemma scan_first_set:
  assumes "t < n" "0 \<le> lv_first_def (scan_from step 0 is (init_live n)) ! t"
  shows "\<exists>p<length is. sets_temp (is ! p) t \<and>
    lv_first_def (scan_from step 0 is (init_live n)) ! t = int p"
  using assms by (auto simp: scan_first find_Some_iff split: option.splits)

lemma scan_last:
  assumes "t < n" "p < length is" "names_temp (is ! p) t"
  shows "int p \<le> lv_last_use (scan_from step 0 is (init_live n)) ! t"
  using assms
proof (induction "is" rule: rev_induct)
  case (snoc i "is")
  note st = scan_step [of "is" i]
  from snoc.prems(2) show ?case
  proof (cases rule: nth_snoc_cases)
    case 1
    then show ?thesis
      using snoc live_step_last [OF st snoc.prems(1)] by (fastforce simp: scan_from_snoc)
  next
    case 2
    then show ?thesis
      using snoc.prems live_step_reach [OF st snoc.prems(1)] by (simp add: scan_from_snoc)
  qed
qed simp

lemma scan_class:
  assumes "t < n"
  shows "lv_is_float (scan_from step 0 is (init_live n)) ! t \<longleftrightarrow> (\<exists>i \<in> set is. i_dst i = int t \<and> isf i)"
    and "lv_is_i64 (scan_from step 0 is (init_live n)) ! t \<longleftrightarrow> (\<exists>i \<in> set is. i_dst i = int t \<and> isi i)"
  using assms
  by (induction "is" rule: rev_induct)
    (auto simp: scan_from_snoc step_float [OF scan_sized] step_i64 [OF scan_sized], simp_all add: init_live_def)

end

text \<open>The argument temps of the calls: what is pending before position \<open>p\<close>.\<close>

definition pending_args :: "(ir_op \<Rightarrow> bool) \<Rightarrow> (ir_op \<Rightarrow> bool) \<Rightarrow> ir_insn list \<Rightarrow> int list" where
  "pending_args is_arg is_call is =
     fold (\<lambda>i acc. if is_arg (i_op i) then acc @ [i_a i] else if is_call (i_op i) then [] else acc) is []"

definition consumes ::
  "(ir_op \<Rightarrow> bool) \<Rightarrow> (ir_op \<Rightarrow> bool) \<Rightarrow> nat \<Rightarrow> ir_insn list \<Rightarrow> nat \<Rightarrow> nat \<Rightarrow> bool" where
  "consumes is_arg is_call cap is p t \<longleftrightarrow>
     is_call (i_op (is ! p)) \<and> \<not> is_arg (i_op (is ! p)) \<and>
     int t \<in> set (take cap (pending_args is_arg is_call (take p is)))"

locale arg_scan = live_scan +
  fixes is_arg is_call :: "ir_op \<Rightarrow> bool" and cap :: nat
  assumes step_pending: "lv_pending (step pos i s) =
      (if is_arg (i_op i) then (if length (lv_pending s) < cap then lv_pending s @ [i_a i] else lv_pending s)
       else if is_call (i_op i) then [] else lv_pending s)"
    and step_call: "sized n s \<Longrightarrow> 0 \<le> pos \<Longrightarrow> is_call (i_op i) \<Longrightarrow> \<not> is_arg (i_op i) \<Longrightarrow> t < n \<Longrightarrow>
      int t \<in> set (lv_pending s) \<Longrightarrow> pos \<le> lv_last_use (step pos i s) ! t"
begin

lemma scan_pending:
  "lv_pending (scan_from step 0 is (init_live n)) = take cap (pending_args is_arg is_call is)"
  by (induction "is" rule: rev_induct)
    (auto simp: scan_from_snoc step_pending pending_args_def init_live_def)

lemma scan_consumes:
  assumes "t < n" "p < length is" "consumes is_arg is_call cap is p t"
  shows "int p \<le> lv_last_use (scan_from step 0 is (init_live n)) ! t"
  using assms
proof (induction "is" rule: rev_induct)
  case (snoc i "is")
  from snoc.prems(2) show ?case
  proof (cases rule: nth_snoc_cases)
    case 1
    then have "consumes is_arg is_call cap is p t" using snoc.prems(3) by (simp add: consumes_def)
    then show ?thesis
      using snoc.IH [OF snoc.prems(1) 1(1)] live_step_last [OF scan_step [of "is" i] snoc.prems(1)]
      by (simp add: scan_from_snoc)
  next
    case 2
    then show ?thesis
      using snoc.prems step_call [OF scan_sized, of "int p" i t "is"]
      by (simp add: scan_from_snoc consumes_def scan_pending)
  qed
qed simp

end

locale call_scan = arg_scan +
  assumes step_call_pos: "lv_call_pos (step pos i s) =
    lv_call_pos s @ (if \<not> is_arg (i_op i) \<and> is_call (i_op i) then [pos] else [])"
begin

lemma scan_calls:
  assumes "p < length is" "is_call (i_op (is ! p))" "\<not> is_arg (i_op (is ! p))"
  shows "int p \<in> set (lv_call_pos (scan_from step 0 is (init_live n)))"
  using assms
proof (induction "is" rule: rev_induct)
  case (snoc i "is")
  from snoc.prems(1) show ?case
    by (cases rule: nth_snoc_cases) (use snoc in \<open>auto simp: scan_from_snoc step_call_pos\<close>)
qed simp

end

subsection \<open>The five loops satisfy it\<close>

lemma body_step:
  assumes "live_step n pos (\<lambda>t. i_dst i = int t) (\<lambda>t. i_dst i = int t) s s'" "0 \<le> pos"
  shows "live_step n pos (sets_temp i) (names_temp i) s (scan_asm n pos i (scan_uses n pos i s'))"
proof -
  note u = scan_uses_step [OF live_step_sized [OF assms(1)] assms(2), of i]
  note a = scan_asm_step [OF live_step_sized [OF u] assms(2), of i]
  from live_step_trans [OF live_step_trans [OF assms(1) u assms(2)] a assms(2)]
  show ?thesis by (simp add: sets_temp_def [abs_def] names_temp_def [abs_def] disj_assoc)
qed

lemma dst_class_step:
  assumes "sized n s" "0 \<le> pos"
    and t: "\<And>u. i_dst i = int u \<Longrightarrow> u < n \<Longrightarrow>
      s' \<in> {use_at pos u (def_at pos u s), set_float u (use_at pos u (def_at pos u s)),
           set_i64 u (use_at pos u (def_at pos u s))}"
    and f: "\<not> is_temp n (i_dst i) \<Longrightarrow> s' = s"
  shows "live_step n pos (\<lambda>t. i_dst i = int t) (\<lambda>t. i_dst i = int t) s s'"
proof (cases "is_temp n (i_dst i)")
  case True
  then obtain u where u: "i_dst i = int u" "u < n" by (rule is_tempE)
  let ?s = "use_at pos u (def_at pos u s)"
  have b: "live_step n pos (\<lambda>t. u = t) (\<lambda>t. u = t) s ?s" by (rule dst_step [OF assms(1,2) u(2)])
  have z: "length (lv_is_float s) = n" "length (lv_is_i64 s) = n" using assms(1) by (simp_all add: sized_def)
  have "live_step n pos (\<lambda>t. u = t) (\<lambda>t. u = t) s (set_float u ?s)"
    by (rule live_step_same [OF b]) (simp_all add: live_proj z)
  moreover have "live_step n pos (\<lambda>t. u = t) (\<lambda>t. u = t) s (set_i64 u ?s)"
    by (rule live_step_same [OF b]) (simp_all add: live_proj z)
  ultimately have "live_step n pos (\<lambda>t. u = t) (\<lambda>t. u = t) s s'" using t [OF u] b by auto
  then show ?thesis by (simp add: u(1))
next
  case False
  with f assms(1) show ?thesis by (auto simp: live_step_def is_temp_def)
qed

lemma mips_dst_step:
  "sized n s \<Longrightarrow> 0 \<le> pos \<Longrightarrow>
   live_step n pos (\<lambda>t. i_dst i = int t) (\<lambda>t. i_dst i = int t) s (mips_scan_dst sf n pos i s)"
  by (rule dst_class_step) (auto simp: mips_scan_dst_def Let_def is_temp_def)

lemma pair_dst_step:
  "sized n s \<Longrightarrow> 0 \<le> pos \<Longrightarrow>
   live_step n pos (\<lambda>t. i_dst i = int t) (\<lambda>t. i_dst i = int t) s (pair_scan_dst n pos i s)"
  by (rule dst_class_step) (auto simp: pair_scan_dst_def Let_def is_temp_def)

lemma wide_dst_step:
  "sized n s \<Longrightarrow> 0 \<le> pos \<Longrightarrow>
   live_step n pos (\<lambda>t. i_dst i = int t) (\<lambda>t. i_dst i = int t) s (wide_scan_dst n pos i s)"
  by (rule dst_class_step) (auto simp: wide_scan_dst_def Let_def is_temp_def)

lemmas scan_dst_steps = mips_dst_step pair_dst_step wide_dst_step

text \<open>Which definitions put a temp in the float and the pair class.\<close>

definition mips_float_def :: "bool \<Rightarrow> ir_insn \<Rightarrow> bool" where
  "mips_float_def sf i \<longleftrightarrow> \<not> sf \<and> ir_op_is_float_def (i_op i)"

definition mips_pair_def :: "bool \<Rightarrow> ir_insn \<Rightarrow> bool" where
  "mips_pair_def sf i \<longleftrightarrow>
     (if ir_op_is_float_def (i_op i) then sf \<and> \<not> soft_is_f32 i else ir_op_is_i64_def (i_op i))"

definition float_insn :: "ir_insn \<Rightarrow> bool" where
  "float_insn i \<longleftrightarrow> ir_op_is_float_def (i_op i)"

definition pair_insn :: "ir_insn \<Rightarrow> bool" where
  "pair_insn i \<longleftrightarrow> \<not> ir_op_is_float_def (i_op i) \<and> ir_op_is_i64_def (i_op i)"

lemma scan_dst_class:
  assumes "sized n s" "t < n"
  shows "lv_is_float (mips_scan_dst sf n pos i s) ! t \<longleftrightarrow> lv_is_float s ! t \<or> i_dst i = int t \<and> mips_float_def sf i"
    and "lv_is_i64 (mips_scan_dst sf n pos i s) ! t \<longleftrightarrow> lv_is_i64 s ! t \<or> i_dst i = int t \<and> mips_pair_def sf i"
    and "lv_is_float (pair_scan_dst n pos i s) ! t \<longleftrightarrow> lv_is_float s ! t \<or> i_dst i = int t \<and> float_insn i"
    and "lv_is_i64 (pair_scan_dst n pos i s) ! t \<longleftrightarrow> lv_is_i64 s ! t \<or> i_dst i = int t \<and> pair_insn i"
    and "lv_is_float (wide_scan_dst n pos i s) ! t \<longleftrightarrow> lv_is_float s ! t \<or> i_dst i = int t \<and> float_insn i"
    and "lv_is_i64 (wide_scan_dst n pos i s) ! t \<longleftrightarrow> lv_is_i64 s ! t"
  using assms
  by (auto simp: mips_scan_dst_def pair_scan_dst_def wide_scan_dst_def Let_def live_proj sized_def
      nth_upd is_temp_def mips_float_def_def mips_pair_def_def float_insn_def pair_insn_def)

lemma scan_dst_proj [live_proj]:
  "lv_pending (mips_scan_dst sf n pos i s) = lv_pending s"
  "lv_pending (pair_scan_dst n pos i s) = lv_pending s"
  "lv_pending (wide_scan_dst n pos i s) = lv_pending s"
  "lv_call_pos (mips_scan_dst sf n pos i s) = lv_call_pos s"
  "lv_call_pos (pair_scan_dst n pos i s) = lv_call_pos s"
  "lv_call_pos (wide_scan_dst n pos i s) = lv_call_pos s"
  by (simp_all add: mips_scan_dst_def pair_scan_dst_def wide_scan_dst_def Let_def live_proj)

interpretation mips: live_scan n "mips_scan_insn sf n" "mips_float_def sf" "mips_pair_def sf" for n sf
  by unfold_locales
    (simp_all add: mips_scan_insn_def body_step scan_dst_steps live_proj scan_dst_class)

text \<open>The end of the loop body of the other four: record an argument, or consume them at a call.\<close>

lemma push_arg_proj [live_proj]:
  "lv_first_def (push_arg cap i s) = lv_first_def s" "lv_last_use (push_arg cap i s) = lv_last_use s"
  "lv_is_float (push_arg cap i s) = lv_is_float s" "lv_is_i64 (push_arg cap i s) = lv_is_i64 s"
  "lv_call_pos (push_arg cap i s) = lv_call_pos s"
  "lv_pending (push_arg cap i s) =
     (if length (lv_pending s) < cap then lv_pending s @ [i_a i] else lv_pending s)"
  by (simp_all add: push_arg_def)

lemma flush_args_proj [live_proj]:
  "lv_first_def (flush_args n pos s) = lv_first_def s"
  "lv_last_use (flush_args n pos s) = lv_last_use (fold (use_temp n pos) (lv_pending s) s)"
  "lv_is_float (flush_args n pos s) = lv_is_float s" "lv_is_i64 (flush_args n pos s) = lv_is_i64 s"
  "lv_call_pos (flush_args n pos s) = lv_call_pos s" "lv_pending (flush_args n pos s) = []"
  by (simp_all add: flush_args_def live_proj)

lemma note_call_proj [live_proj]:
  "lv_first_def (note_call pos s) = lv_first_def s" "lv_last_use (note_call pos s) = lv_last_use s"
  "lv_is_float (note_call pos s) = lv_is_float s" "lv_is_i64 (note_call pos s) = lv_is_i64 s"
  "lv_pending (note_call pos s) = lv_pending s"
  "lv_call_pos (note_call pos s) = lv_call_pos s @ [pos]"
  by (simp_all add: note_call_def)

lemma tail_step:
  assumes "live_step n pos D M s s'"
  shows "live_step n pos D M s (push_arg cap i s')" "live_step n pos D M s (flush_args n pos s')"
    and "live_step n pos D M s (note_call pos (flush_args n pos s'))"
proof -
  have z: "length (lv_is_float s') = n" "length (lv_is_i64 s') = n" "sized n s'"
    using live_step_sized [OF assms] by (simp_all add: sized_def)
  show "live_step n pos D M s (push_arg cap i s')"
    by (rule live_step_same [OF assms]) (simp_all add: live_proj z)
  have m: "lv_last_use s' ! t \<le> lv_last_use (fold (use_temp n pos) (lv_pending s') s') ! t" for t
    by (rule use_temps_last)
  show fl: "live_step n pos D M s (flush_args n pos s')"
    using assms m z by (fastforce simp: live_step_def sized_def live_proj intro: order_trans)
  show "live_step n pos D M s (note_call pos (flush_args n pos s'))"
    by (rule live_step_same [OF fl]) (simp_all add: live_proj z)
qed

lemma flush_reach:
  assumes "live_step n pos D M s s'" "lv_pending s' = lv_pending s" "int t \<in> set (lv_pending s)" "t < n"
  shows "pos \<le> lv_last_use (flush_args n pos s') ! t"
  using use_temps_reach [of t "lv_pending s'" n s' pos] live_step_sized [OF assms(1)] assms
  by (simp add: live_proj sized_def)

lemmas pair_body_step = body_step [OF pair_dst_step]
lemmas wide_body_step = body_step [OF wide_dst_step]

interpretation rv: arg_scan n "rv_scan_insn n" float_insn pair_insn rv_is_arg rv_is_call 16 for n
proof
  fix s :: live and pos i t
  show "live_step n pos (sets_temp i) (names_temp i) s (rv_scan_insn n pos i s)"
    if "sized n s" "0 \<le> pos"
    using that by (simp add: rv_scan_insn_def Let_def tail_step pair_body_step)
  show "pos \<le> lv_last_use (rv_scan_insn n pos i s) ! t"
    if "sized n s" "0 \<le> pos" "rv_is_call (i_op i)" "\<not> rv_is_arg (i_op i)" "t < n"
      "int t \<in> set (lv_pending s)"
    using flush_reach [OF pair_body_step [of n s pos i], of t] that
    by (simp add: rv_scan_insn_def Let_def live_proj)
qed (simp_all add: rv_scan_insn_def Let_def live_proj scan_dst_class)

interpretation cf: arg_scan n "cf_scan_insn n" float_insn pair_insn cf_is_arg cf_is_call 32 for n
proof
  fix s :: live and pos i t
  show "live_step n pos (sets_temp i) (names_temp i) s (cf_scan_insn n pos i s)"
    if "sized n s" "0 \<le> pos"
    using that by (simp add: cf_scan_insn_def Let_def tail_step pair_body_step)
  show "pos \<le> lv_last_use (cf_scan_insn n pos i s) ! t"
    if "sized n s" "0 \<le> pos" "cf_is_call (i_op i)" "\<not> cf_is_arg (i_op i)" "t < n"
      "int t \<in> set (lv_pending s)"
    using flush_reach [OF pair_body_step [of n s pos i], of t] that
    by (simp add: cf_scan_insn_def Let_def live_proj)
qed (simp_all add: cf_scan_insn_def Let_def live_proj scan_dst_class)

interpretation x86: call_scan n "x86_scan_insn n" float_insn "\<lambda>_. False" x86_is_arg x86_is_call 16 for n
proof
  fix s :: live and pos i t
  show "live_step n pos (sets_temp i) (names_temp i) s (x86_scan_insn n pos i s)"
    if "sized n s" "0 \<le> pos"
    using that by (simp add: x86_scan_insn_def Let_def tail_step wide_body_step)
  show "pos \<le> lv_last_use (x86_scan_insn n pos i s) ! t"
    if "sized n s" "0 \<le> pos" "x86_is_call (i_op i)" "\<not> x86_is_arg (i_op i)" "t < n"
      "int t \<in> set (lv_pending s)"
    using flush_reach [OF wide_body_step [of n s pos i], of t] that
    by (simp add: x86_scan_insn_def Let_def live_proj)
qed (simp_all add: x86_scan_insn_def Let_def live_proj scan_dst_class)

interpretation arm64: call_scan n "arm64_scan_insn n" float_insn "\<lambda>_. False" arm64_is_arg arm64_is_call 16 for n
proof
  fix s :: live and pos i t
  show "live_step n pos (sets_temp i) (names_temp i) s (arm64_scan_insn n pos i s)"
    if "sized n s" "0 \<le> pos"
    using that by (simp add: arm64_scan_insn_def Let_def tail_step wide_body_step)
  show "pos \<le> lv_last_use (arm64_scan_insn n pos i s) ! t"
    if "sized n s" "0 \<le> pos" "arm64_is_call (i_op i)" "\<not> arm64_is_arg (i_op i)" "t < n"
      "int t \<in> set (lv_pending s)"
    using flush_reach [OF wide_body_step [of n s pos i], of t] that
    by (simp add: arm64_scan_insn_def Let_def live_proj)
qed (simp_all add: arm64_scan_insn_def Let_def live_proj scan_dst_class)

subsection \<open>From live ranges to places\<close>

lemma alloc_ok_cong:
  assumes "alloc_ok num first sz res C st en ns tr ts"
    and "\<And>t. C t \<Longrightarrow> tr' ! t = tr ! t \<and> ts' ! t = ts ! t"
  shows "alloc_ok num first sz res C st en ns tr' ts'"
  unfolding alloc_ok_def
proof (intro conjI allI impI)
  fix t assume "C t"
  then show "placed num first sz res ns (tr' ! t) (ts' ! t)"
    using alloc_ok_placed [OF assms(1)] assms(2) by simp
next
  fix t u assume "C t" "C u" "t \<noteq> u" "tr' ! t = tr' ! u" "tr' ! u \<noteq> -1"
  then show "overlap_free st en t u"
    using alloc_ok_disjoint [OF assms(1), of t u] assms(2) by simp
next
  fix t u assume "C t" "C u" "t \<noteq> u" "tr' ! t = -1" "tr' ! u = -1"
  then show "ts' ! t \<noteq> ts' ! u"
    using alloc_ok_slots [OF assms(1), of t u] assms(2) by simp
qed

lemma max_pair_bounds:
  "-1 \<le> max_pair c tr n" "t < n \<Longrightarrow> c ! t \<Longrightarrow> tr ! t \<le> max_pair c tr n"
  by (induction n) (auto simp: max_pair_def less_Suc_eq)

lemma max_pair_cong:
  "(\<And>t. t < n \<Longrightarrow> c ! t \<Longrightarrow> tr ! t = tr' ! t) \<Longrightarrow> max_pair c tr n = max_pair c tr' n"
  by (induction n) (auto simp: max_pair_def)

text \<open>
  The result of the three scans of a 32-bit target: each class is correctly allocated in the
  final tables, and the integer pool stops below the lowest pair in use.
\<close>

definition pairs_ok :: "nat \<Rightarrow> nat \<Rightarrow> nat \<Rightarrow> int list \<Rightarrow> live \<Rightarrow> ir_func \<Rightarrow> bool" where
  "pairs_ok int_num pairs fp_num pinned lv fn \<longleftrightarrow>
     (let n = fn_ntemps fn; fd = lv_first_def lv; en = live_end fd (lv_last_use lv);
          tr = fn_temp_reg fn; ts = fn_temp_spill fn; mp = max_pair (lv_is_i64 lv) tr n;
          num = nat (int int_num - 2 * (mp + 1)) in
      alloc_ok pairs 0 8 (\<lambda>_. False) (in_class (lv_is_i64 lv) fd n) ((!) fd) en (fn_ni64spills fn) tr ts \<and>
      alloc_ok num 2 4 (\<lambda>k. reserve_slots 2 num int_num pinned ! k)
        (\<lambda>t. t < n \<and> \<not> lv_is_float lv ! t \<and> \<not> lv_is_i64 lv ! t \<and> 0 \<le> fd ! t)
        ((!) fd) en (fn_nspills fn) tr ts \<and>
      alloc_ok fp_num 2 8 (\<lambda>_. False) (in_class (lv_is_float lv) fd n) ((!) fd) en (fn_nfspills fn) tr ts \<and>
      (pinned = [] \<or> mp < 0))"

context interval_qsort
begin

lemma alloc_pairs_ok:
  assumes run: "alloc_pairs qsort int_num pairs fp_num pinned lv fn = Some fn'"
    and len: "length (fn_temp_reg fn) = fn_ntemps fn" "length (fn_temp_spill fn) = fn_ntemps fn"
    and excl: "\<And>t. t < fn_ntemps fn \<Longrightarrow> \<not> (lv_is_float lv ! t \<and> lv_is_i64 lv ! t)"
  shows "pairs_ok int_num pairs fp_num pinned lv fn'"
proof -
  let ?n = "fn_ntemps fn" and ?fd = "lv_first_def lv" and ?lu = "lv_last_use lv"
  let ?is_int = "map (\<lambda>t. \<not> lv_is_float lv ! t \<and> \<not> lv_is_i64 lv ! t) [0..<?n]"
  let ?num = "\<lambda>ts. nat (int int_num - 2 * (max_pair (lv_is_i64 lv) (fst ts) ?n + 1))"
  obtain n64 ts1 ni ts2 nf ts3 where
    1: "linscan qsort ?fd ?lu (lv_is_i64 lv) pairs 0 8 None None ?n (fn_temp_reg fn, fn_temp_spill fn) = Some (n64, ts1)"
    and 2: "linscan qsort ?fd ?lu ?is_int (?num ts1) 2 4 None
        (Some (reserve_slots 2 (?num ts1) int_num pinned)) ?n ts1 = Some (ni, ts2)"
    and 3: "linscan qsort ?fd ?lu (lv_is_float lv) fp_num 2 8 None None ?n ts2 = Some (nf, ts3)"
    and pin: "pinned = [] \<or> max_pair (lv_is_i64 lv) (fst ts1) ?n < 0"
    and fn': "fn' = store_alloc ni nf n64 ts3 fn"
    using run by (auto simp: alloc_pairs_def Let_def bind_eq_Some_conv split: if_splits)
  have l1: "length (fst ts1) = ?n" "length (snd ts1) = ?n" using linscan_frame(1,2) [OF 1] len by auto
  have l2: "length (fst ts2) = ?n" "length (snd ts2) = ?n" using linscan_frame(1,2) [OF 2] l1 by auto
  have cls: "in_class ?is_int ?fd ?n t \<longleftrightarrow>
      t < ?n \<and> \<not> lv_is_float lv ! t \<and> \<not> lv_is_i64 lv ! t \<and> 0 \<le> ?fd ! t" for t
    by (auto simp: in_class_def)
  have k3: "fst ts3 ! t = fst ts2 ! t \<and> snd ts3 ! t = snd ts2 ! t" if "\<not> in_class (lv_is_float lv) ?fd ?n t" for t
    using linscan_frame(3) [OF 3 _ _ that] by simp
  have k2: "fst ts2 ! t = fst ts1 ! t \<and> snd ts2 ! t = snd ts1 ! t" if "\<not> in_class ?is_int ?fd ?n t" for t
    using linscan_frame(3) [OF 2 _ _ that] by simp
  have k64: "fst ts3 ! t = fst ts1 ! t \<and> snd ts3 ! t = snd ts1 ! t" if "t < ?n" "lv_is_i64 lv ! t" for t
    using k3 [of t] k2 [of t] that excl [of t] by (auto simp: in_class_def)
  have mp: "max_pair (lv_is_i64 lv) (fst ts3) ?n = max_pair (lv_is_i64 lv) (fst ts1) ?n"
    by (rule max_pair_cong) (simp add: k64)
  have a1: "alloc_ok pairs 0 8 (\<lambda>_. False) (in_class (lv_is_i64 lv) ?fd ?n) ((!) ?fd) (live_end ?fd ?lu)
      n64 (fst ts3) (snd ts3)"
    by (rule alloc_ok_cong [OF linscan_alloc_ok [OF 1, simplified]])
      (simp_all add: len k64 in_class_def)
  have b2: "alloc_ok (?num ts1) 2 4 (\<lambda>k. reserve_slots 2 (?num ts1) int_num pinned ! k)
      (in_class ?is_int ?fd ?n) ((!) ?fd) (live_end ?fd ?lu) ni (fst ts2) (snd ts2)"
    using linscan_alloc_ok [OF 2] l1 by simp
  have a2: "alloc_ok (?num ts1) 2 4 (\<lambda>k. reserve_slots 2 (?num ts1) int_num pinned ! k)
      (in_class ?is_int ?fd ?n) ((!) ?fd) (live_end ?fd ?lu) ni (fst ts3) (snd ts3)"
    by (rule alloc_ok_cong [OF b2]) (rule k3, auto simp: in_class_def)
  have a3: "alloc_ok fp_num 2 8 (\<lambda>_. False) (in_class (lv_is_float lv) ?fd ?n) ((!) ?fd) (live_end ?fd ?lu)
      nf (fst ts3) (snd ts3)"
    using linscan_alloc_ok [OF 3] l2 by simp
  show ?thesis
    using a1 a2 a3 pin by (simp add: pairs_ok_def Let_def fn' store_alloc_def mp cls [abs_def])
qed

end

text \<open>The same for the two scans of a 64-bit target.\<close>

definition wide_ok ::
  "nat \<Rightarrow> nat \<Rightarrow> int \<Rightarrow> bool list option \<Rightarrow> int list \<Rightarrow> live \<Rightarrow> ir_func \<Rightarrow> bool" where
  "wide_ok int_num fp_num first force pinned lv fn \<longleftrightarrow>
     (let n = fn_ntemps fn; fd = lv_first_def lv; en = live_end fd (lv_last_use lv);
          tr = fn_temp_reg fn; ts = fn_temp_spill fn in
      alloc_ok int_num first 8 (\<lambda>k. reserve_slots first int_num int_num pinned ! k)
        (\<lambda>t. t < n \<and> \<not> lv_is_float lv ! t \<and> 0 \<le> fd ! t) ((!) fd) en (fn_nspills fn) tr ts \<and>
      alloc_ok fp_num first 8 (\<lambda>_. False) (in_class (lv_is_float lv) fd n) ((!) fd) en (fn_nfspills fn) tr ts \<and>
      (\<forall>f t. force = Some f \<longrightarrow> in_class (lv_is_float lv) fd n t \<longrightarrow> f ! t \<longrightarrow> tr ! t = -1))"

context interval_qsort
begin

lemma alloc_wide_ok:
  assumes run: "alloc_wide qsort int_num fp_num first force pinned lv fn = Some fn'" and "0 \<le> first"
    and len: "length (fn_temp_reg fn) = fn_ntemps fn" "length (fn_temp_spill fn) = fn_ntemps fn"
  shows "wide_ok int_num fp_num first force pinned lv fn'"
proof -
  let ?n = "fn_ntemps fn" and ?fd = "lv_first_def lv" and ?lu = "lv_last_use lv"
  let ?is_int = "map (\<lambda>t. \<not> lv_is_float lv ! t) [0..<?n]"
  obtain ni ts1 nf ts2 where
    1: "linscan qsort ?fd ?lu ?is_int int_num first 8 None
        (Some (reserve_slots first int_num int_num pinned)) ?n (fn_temp_reg fn, fn_temp_spill fn) = Some (ni, ts1)"
    and 2: "linscan qsort ?fd ?lu (lv_is_float lv) fp_num first 8 force None ?n ts1 = Some (nf, ts2)"
    and fn': "fn' = store_alloc ni nf 0 ts2 fn"
    using run by (auto simp: alloc_wide_def Let_def bind_eq_Some_conv)
  have l1: "length (fst ts1) = ?n" "length (snd ts1) = ?n"
    using linscan_frame(1,2) [OF 1 \<open>0 \<le> first\<close>] len by auto
  have cls: "in_class ?is_int ?fd ?n t \<longleftrightarrow> t < ?n \<and> \<not> lv_is_float lv ! t \<and> 0 \<le> ?fd ! t" for t
    by (auto simp: in_class_def)
  have k2: "fst ts2 ! t = fst ts1 ! t \<and> snd ts2 ! t = snd ts1 ! t" if "\<not> in_class (lv_is_float lv) ?fd ?n t" for t
    using linscan_frame(3) [OF 2 \<open>0 \<le> first\<close> _ that] by simp
  have b1: "alloc_ok int_num first 8 (\<lambda>k. reserve_slots first int_num int_num pinned ! k)
      (in_class ?is_int ?fd ?n) ((!) ?fd) (live_end ?fd ?lu) ni (fst ts1) (snd ts1)"
    using linscan_alloc_ok [OF 1] len \<open>0 \<le> first\<close> by simp
  have a1: "alloc_ok int_num first 8 (\<lambda>k. reserve_slots first int_num int_num pinned ! k)
      (in_class ?is_int ?fd ?n) ((!) ?fd) (live_end ?fd ?lu) ni (fst ts2) (snd ts2)"
    by (rule alloc_ok_cong [OF b1]) (rule k2, auto simp: in_class_def)
  have a2: "alloc_ok fp_num first 8 (\<lambda>_. False) (in_class (lv_is_float lv) ?fd ?n) ((!) ?fd) (live_end ?fd ?lu)
      nf (fst ts2) (snd ts2)"
    using linscan_alloc_ok [OF 2] l1 \<open>0 \<le> first\<close> by simp
  have a3: "fst ts2 ! t = -1" if "force = Some f" "in_class (lv_is_float lv) ?fd ?n t" "f ! t" for f t
    using linscan_forced [OF 2 [unfolded that(1)] _ _ \<open>0 \<le> first\<close> _ that(2,3)] l1 by simp
  show ?thesis
    using a1 a2 a3 by (simp add: wide_ok_def Let_def fn' store_alloc_def cls [abs_def])
qed

end

text \<open>When the allocators return: some register of the integer pool is not reserved.\<close>

lemma length_reserve_slots [simp]: "length (reserve_slots first num cap pinned) = cap"
proof -
  have "length (fold (\<lambda>p r. if 0 \<le> p - first \<and> p - first < int num then r[nat (p - first) := True] else r)
      pinned r) = length r" for r :: "bool list"
    by (induction pinned arbitrary: r) simp_all
  then show ?thesis by (simp add: reserve_slots_def)
qed

lemma reserve_slots_nth:
  assumes "k < cap" "k < num"
  shows "reserve_slots first num cap pinned ! k \<longleftrightarrow> first + int k \<in> set pinned"
proof -
  let ?f = "\<lambda>p r. if 0 \<le> p - first \<and> p - first < int num then r[nat (p - first) := True] else r"
  have "fold ?f pinned r ! k \<longleftrightarrow> r ! k \<or> first + int k \<in> set pinned" if "k < length r" for r :: "bool list"
    using that
  proof (induction pinned arbitrary: r)
    case (Cons p ps)
    have "?f p r ! k \<longleftrightarrow> r ! k \<or> p = first + int k"
      using Cons.prems assms by (auto simp: nth_upd)
    then show ?case using Cons.IH [of "?f p r"] Cons.prems by auto
  qed simp
  from this [of "replicate cap False"] assms show ?thesis by (simp add: reserve_slots_def)
qed

context interval_qsort
begin

lemma alloc_wide_defined:
  assumes "0 \<le> first" "k < int_num" "first + int k \<notin> set pinned" "0 < fp_num"
  shows "alloc_wide qsort int_num fp_num first force pinned lv fn \<noteq> None"
proof -
  let ?n = "fn_ntemps fn" and ?fd = "lv_first_def lv" and ?lu = "lv_last_use lv"
  let ?is_int = "map (\<lambda>t. \<not> lv_is_float lv ! t) [0..<?n]"
  have "linscan qsort ?fd ?lu ?is_int int_num first 8 None
      (Some (reserve_slots first int_num int_num pinned)) ?n (fn_temp_reg fn, fn_temp_spill fn) \<noteq> None"
    by (rule linscan_defined [of _ _ k]) (simp_all add: assms reserve_slots_nth)
  moreover have "linscan qsort ?fd ?lu (lv_is_float lv) fp_num first 8 force None ?n ts \<noteq> None" for ts
    by (rule linscan_defined [of _ _ 0]) (simp_all add: assms)
  ultimately show ?thesis
    unfolding alloc_wide_def Let_def by (auto simp: Option.is_none_def [symmetric] split: Option.bind_splits)
qed

end

lemma some_pairE:
  assumes "x \<noteq> None" obtains a b where "x = Some (a, b)"
  using assms by (cases x) auto

context interval_qsort
begin

lemma linscan_pool_defined:
  assumes "0 \<le> first" "sz \<noteq> 0" "num = 0 \<or> (\<exists>k<num. \<not> (case reserved of None \<Rightarrow> False | Some f \<Rightarrow> f ! k))"
  shows "linscan qsort fd lu cl num first sz force reserved n ts \<noteq> None"
  using assms(3)
proof
  assume "num = 0"
  then show ?thesis by (simp add: linscan_def Let_def)
next
  assume "\<exists>k<num. \<not> (case reserved of None \<Rightarrow> False | Some f \<Rightarrow> f ! k)"
  then obtain k where "k < num" "\<not> (case reserved of None \<Rightarrow> False | Some f \<Rightarrow> f ! k)" by blast
  then show ?thesis by (rule linscan_defined [OF assms(1,2)])
qed

lemma alloc_pairs_defined:
  assumes "pinned = [] \<or>
      (\<forall>t<fn_ntemps fn. \<not> lv_is_i64 lv ! t) \<and> (\<exists>k<int_num. 2 + int k \<notin> set pinned)"
    and "0 < pairs" "0 < fp_num"
  shows "alloc_pairs qsort int_num pairs fp_num pinned lv fn \<noteq> None"
proof -
  let ?n = "fn_ntemps fn" and ?fd = "lv_first_def lv" and ?lu = "lv_last_use lv"
  let ?is_int = "map (\<lambda>t. \<not> lv_is_float lv ! t \<and> \<not> lv_is_i64 lv ! t) [0..<?n]"
  let ?num = "\<lambda>mp. nat (int int_num - 2 * (mp + 1))"
  have 1: "linscan qsort ?fd ?lu (lv_is_i64 lv) pairs 0 8 None None ?n (fn_temp_reg fn, fn_temp_spill fn) \<noteq> None"
    by (rule linscan_pool_defined) (use assms in auto)
  have 3: "linscan qsort ?fd ?lu (lv_is_float lv) fp_num 2 8 None None ?n ts \<noteq> None" for ts
    by (rule linscan_pool_defined) (use assms in auto)
  have mp: "max_pair (lv_is_i64 lv) tr ?n = -1" if "\<forall>t<?n. \<not> lv_is_i64 lv ! t" for tr
  proof -
    have "max_pair (lv_is_i64 lv) tr k = -1" if "k \<le> ?n" for k
      using that \<open>\<forall>t<?n. \<not> lv_is_i64 lv ! t\<close> by (induction k) (simp_all add: max_pair_def)
    then show ?thesis by simp
  qed
  have 2: "linscan qsort ?fd ?lu ?is_int (?num m) 2 4 None
      (Some (reserve_slots 2 (?num m) int_num pinned)) ?n ts \<noteq> None"
    if m: "-1 \<le> m" "pinned = [] \<or> m = -1 \<and> (\<exists>k<int_num. 2 + int k \<notin> set pinned)" for m ts
  proof (rule linscan_pool_defined)
    show "?num m = 0 \<or> (\<exists>k<?num m. \<not> (case Some (reserve_slots 2 (?num m) int_num pinned) of
        None \<Rightarrow> False | Some f \<Rightarrow> f ! k))"
    proof (cases "pinned = []")
      case True
      then show ?thesis using m(1) by (auto simp: reserve_slots_nth intro!: exI [of _ 0])
    next
      case False
      with m obtain k where "m = -1" "k < int_num" "2 + int k \<notin> set pinned" by blast
      then show ?thesis by (auto simp: reserve_slots_nth intro!: exI [of _ k])
    qed
  qed simp_all
  have ok: "pinned = [] \<or> max_pair (lv_is_i64 lv) tr ?n = -1 \<and> (\<exists>k<int_num. 2 + int k \<notin> set pinned)" for tr
    using assms(1) mp by auto
  obtain n64 ts1 where e1: "linscan qsort ?fd ?lu (lv_is_i64 lv) pairs 0 8 None None ?n
      (fn_temp_reg fn, fn_temp_spill fn) = Some (n64, ts1)"
    using some_pairE [OF 1] .
  let ?m = "max_pair (lv_is_i64 lv) (fst ts1) ?n"
  obtain ni ts2 where e2: "linscan qsort ?fd ?lu ?is_int (?num ?m) 2 4 None
      (Some (reserve_slots 2 (?num ?m) int_num pinned)) ?n ts1 = Some (ni, ts2)"
    using some_pairE [OF 2 [OF max_pair_bounds(1) ok]] .
  obtain nf ts3 where e3: "linscan qsort ?fd ?lu (lv_is_float lv) fp_num 2 8 None None ?n ts2 = Some (nf, ts3)"
    using some_pairE [OF 3] .
  have "\<not> (pinned \<noteq> [] \<and> 0 \<le> ?m)" using ok [of "fst ts1"] by auto
  then show ?thesis
    unfolding alloc_pairs_def Let_def e1 bind.bind_lunit prod.case e2 e3 by simp
qed

end

end
