(* ===== verification/Frame.thy ===== *)
theory Frame
  imports Regalloc_Correct
begin

text \<open>
  Where an allocated temp lives: the frame-layout helpers of the MIPS and ColdFire emitters
  (\<^verbatim>\<open>backend/mips_emit.c\<close>, \<^verbatim>\<open>backend/cf_emit.c\<close>) turn the allocator's tables into registers and
  byte ranges of the stack frame.  A temp's \<open>home\<close> is the set of places it occupies.  The main
  result is that temps live at a common position have disjoint homes; for ColdFire it is shown
  that the low word of the last spilled 64-bit temp lies outside the frame, on the saved \<open>%d7\<close>.
\<close>

unbundle bit_operations_syntax

subsection \<open>MIPS frame layout\<close>

definition align_up :: "int \<Rightarrow> int \<Rightarrow> int" where
  "align_up x a = (x + a - 1) AND NOT (a - 1)"

definition slot_bytes :: "ir_func \<Rightarrow> nat \<Rightarrow> int" where
  "slot_bytes fn i = (fn_slot_size fn ! i + 3) AND NOT 3"

definition slot_align :: "ir_func \<Rightarrow> nat \<Rightarrow> int" where
  "slot_align fn i =
     (case fn_slot_align fn of
        Some sa \<Rightarrow> if sa ! i \<noteq> 0 then sa ! i else if slot_bytes fn i mod 8 = 0 then 8 else 4
      | None \<Rightarrow> if slot_bytes fn i mod 8 = 0 then 8 else 4)"

definition place_slot :: "ir_func \<Rightarrow> nat \<Rightarrow> int \<Rightarrow> int" where
  "place_slot fn i x = align_up x (slot_align fn i) + slot_bytes fn i"

definition mips_locals_size :: "ir_func \<Rightarrow> int" where
  "mips_locals_size fn = (fold (place_slot fn) [fn_nparams fn..<fn_nslots fn] 0 + 7) AND NOT 7"

definition mips_slot_offset :: "ir_func \<Rightarrow> nat \<Rightarrow> int" where
  "mips_slot_offset fn slot =
     (if slot < fn_nparams fn
      then align_up (fold (place_slot fn) [0..<slot] 8) (slot_align fn slot)
      else - fold (place_slot fn) [fn_nparams fn..<slot + 1] 0)"

definition mips_frame_size :: "ir_func \<Rightarrow> int" where
  "mips_frame_size fn =
     mips_locals_size fn + int (fn_nfspills fn) * 8 + int (fn_nspills fn) * 4 + int (fn_ni64spills fn) * 8"

definition mips_fspill_byte_offset :: "ir_func \<Rightarrow> nat \<Rightarrow> int" where
  "mips_fspill_byte_offset fn t = - mips_locals_size fn - (fn_temp_spill fn ! t + 8)"

definition mips_spill_byte_offset :: "ir_func \<Rightarrow> nat \<Rightarrow> int" where
  "mips_spill_byte_offset fn t =
     - mips_locals_size fn - int (fn_nfspills fn) * 8 - (fn_temp_spill fn ! t + 4)"

definition mips_i64spill_byte_offset :: "ir_func \<Rightarrow> nat \<Rightarrow> int" where
  "mips_i64spill_byte_offset fn t =
     - mips_locals_size fn - int (fn_nfspills fn) * 8 - int (fn_nspills fn) * 4 - (fn_temp_spill fn ! t + 8)"

definition mips_i64_lo_idx :: "int \<Rightarrow> int" where
  "mips_i64_lo_idx pair = 8 - 2 * pair"

definition mips_i64_hi_idx :: "int \<Rightarrow> int" where
  "mips_i64_hi_idx pair = 9 - 2 * pair"

subsection \<open>ColdFire frame layout\<close>

definition cf_locals_size :: "ir_func \<Rightarrow> int" where
  "cf_locals_size fn = fold (\<lambda>i s. s + slot_bytes fn i) [fn_nparams fn..<fn_nslots fn] 0"

definition cf_slot_offset :: "ir_func \<Rightarrow> nat \<Rightarrow> int" where
  "cf_slot_offset fn slot =
     (if slot < fn_nparams fn then fold (\<lambda>i off. off + slot_bytes fn i) [0..<slot] 8
      else - fold (\<lambda>i off. off + slot_bytes fn i) [fn_nparams fn..<slot + 1] 0)"

definition cf_spill_byte_offset :: "ir_func \<Rightarrow> nat \<Rightarrow> int" where
  "cf_spill_byte_offset fn t = - cf_locals_size fn - (fn_temp_spill fn ! t + 4)"

definition cf_fspill_byte_offset :: "ir_func \<Rightarrow> nat \<Rightarrow> int" where
  "cf_fspill_byte_offset fn t =
     - cf_locals_size fn - int (fn_nspills fn) * 4 - (fn_temp_spill fn ! t + 8)"

definition cf_i64spill_byte_offset :: "ir_func \<Rightarrow> nat \<Rightarrow> int" where
  "cf_i64spill_byte_offset fn t =
     - cf_locals_size fn - int (fn_nspills fn) * 4 - int (fn_nfspills fn) * 8 - (fn_temp_spill fn ! t + 8)"

definition cf_frame_size :: "ir_func \<Rightarrow> int" where
  "cf_frame_size fn =
     cf_locals_size fn + int (fn_nspills fn) * 4 + int (fn_nfspills fn) * 8 + int (fn_ni64spills fn) * 8"

text \<open>\<open>i64_wd\<close> stores the high word at \<open>off\<close> and the low word at \<open>off - 4\<close>, relative to \<open>%fp\<close>.\<close>

definition cf_i64_wd_words :: "ir_func \<Rightarrow> nat \<Rightarrow> int \<times> int" where
  "cf_i64_wd_words fn t = (let off = cf_i64spill_byte_offset fn t in (off, off - 4))"

text \<open>
  The prologue's \<open>link.w %fp, #-frame\<close>, \<open>lea -24(%sp), %sp\<close> and \<open>movem.l %d2-%d7, (%sp)\<close> leave
  register \<open>%dK\<close> (K in 2..7) at this offset from \<open>%fp\<close>.
\<close>

definition cf_saved_reg_offset :: "ir_func \<Rightarrow> int \<Rightarrow> int" where
  "cf_saved_reg_offset fn k = - cf_frame_size fn - 24 + 4 * (k - 2)"

subsection \<open>Homes\<close>

datatype place = IReg int | FReg int | Stack int

datatype rclass = RInt | RPair | RFloat

definition mips_class :: "bool \<Rightarrow> ir_func \<Rightarrow> nat \<Rightarrow> rclass" where
  "mips_class sf fn t =
     (if \<exists>i \<in> set (fn_insns fn). i_dst i = int t \<and> mips_float_def sf i then RFloat
      else if \<exists>i \<in> set (fn_insns fn). i_dst i = int t \<and> mips_pair_def sf i then RPair
      else RInt)"

definition mips_home :: "bool \<Rightarrow> ir_func \<Rightarrow> nat \<Rightarrow> place set" where
  "mips_home sf fn t =
     (let r = fn_temp_reg fn ! t in
      case mips_class sf fn t of
        RFloat \<Rightarrow>
          if r \<ge> 0 then {FReg r}
          else Stack ` {mips_fspill_byte_offset fn t ..< mips_fspill_byte_offset fn t + 8}
      | RPair \<Rightarrow>
          if r \<ge> 0 then {IReg (mips_i64_lo_idx r), IReg (mips_i64_hi_idx r)}
          else Stack ` {mips_i64spill_byte_offset fn t ..< mips_i64spill_byte_offset fn t + 8}
      | RInt \<Rightarrow>
          if r \<ge> 0 then {IReg r}
          else Stack ` {mips_spill_byte_offset fn t ..< mips_spill_byte_offset fn t + 4})"

text \<open>A temp is live at \<open>p\<close> if it is set at or before \<open>p\<close> and read at or after it.\<close>

definition live_at :: "(nat \<Rightarrow> nat \<Rightarrow> bool) \<Rightarrow> ir_insn list \<Rightarrow> nat \<Rightarrow> nat \<Rightarrow> bool" where
  "live_at reads is t p \<longleftrightarrow>
     (\<exists>d e. d \<le> p \<and> p \<le> e \<and> e < length is \<and> sets_temp (is ! d) t \<and> reads e t)"

subsection \<open>Disjointness of homes\<close>

lemma and_not_mask: "(x :: int) AND NOT (mask k) = x - x mod 2 ^ k"
proof -
  have "x AND NOT (mask k) = push_bit k (drop_bit k x)"
    by (rule bit_eqI) (auto simp: bit_simps)
  also have "\<dots> = x - x mod 2 ^ k"
    by (simp add: push_bit_eq_mult drop_bit_eq_div minus_mod_eq_div_mult)
  finally show ?thesis .
qed

lemma align_up_pow:
  assumes "a = 2 ^ k"
  shows "x \<le> align_up x a" "align_up x a < x + a" "align_up x a mod a = 0"
proof -
  have e: "align_up x a = (x + a - 1) - (x + a - 1) mod a"
    using and_not_mask [of "x + a - 1" k] assms by (simp add: align_up_def mask_eq_exp_minus_1)
  have "0 < a" using assms by simp
  then have "(x + a - 1) mod a < a" "0 \<le> (x + a - 1) mod a" by simp_all
  then show "x \<le> align_up x a" "align_up x a < x + a" by (simp_all add: e)
  show "align_up x a mod a = 0" by (simp add: e mod_eq_0_iff_dvd)
qed

text \<open>Homes over the three spill areas of a 32-bit target, given by the offset of their top.\<close>

definition pair_home :: "int \<Rightarrow> int \<Rightarrow> int \<Rightarrow> int \<Rightarrow> rclass \<Rightarrow> ir_func \<Rightarrow> nat \<Rightarrow> place set" where
  "pair_home int_num bf bi b64 c fn t =
     (let r = fn_temp_reg fn ! t; s = fn_temp_spill fn ! t in
      case c of
        RFloat \<Rightarrow> if r \<ge> 0 then {FReg r} else Stack ` {bf - (s + 8) ..< bf - s}
      | RPair \<Rightarrow> if r \<ge> 0 then {IReg (int_num - 2 * r), IReg (int_num + 1 - 2 * r)}
                 else Stack ` {b64 - (s + 8) ..< b64 - s}
      | RInt \<Rightarrow> if r \<ge> 0 then {IReg r} else Stack ` {bi - (s + 4) ..< bi - s})"

lemma mips_home_pair:
  "mips_home sf fn t =
   pair_home 8 (- mips_locals_size fn) (- mips_locals_size fn - int (fn_nfspills fn) * 8)
     (- mips_locals_size fn - int (fn_nfspills fn) * 8 - int (fn_nspills fn) * 4)
     (mips_class sf fn t) fn t"
  by (simp add: mips_home_def pair_home_def Let_def mips_i64_lo_idx_def mips_i64_hi_idx_def
      mips_fspill_byte_offset_def mips_spill_byte_offset_def mips_i64spill_byte_offset_def
      algebra_simps split: rclass.split)

definition class_of :: "live \<Rightarrow> nat \<Rightarrow> rclass" where
  "class_of lv t = (if lv_is_float lv ! t then RFloat else if lv_is_i64 lv ! t then RPair else RInt)"

lemma placedE:
  assumes "placed num first sz res ns r s" "0 \<le> first"
  obtains k where "k < num" "r = int k + first" "\<not> res k" "0 \<le> r"
    | j where "r = -1" "s = int j * sz" "j < ns"
  using assms unfolding placed_def by auto

text \<open>What one temp of a class gets, in a form the case analysis below uses.\<close>

definition spilled_in :: "int \<Rightarrow> nat \<Rightarrow> int \<Rightarrow> int \<Rightarrow> bool" where
  "spilled_in sz ns r s \<longleftrightarrow> r = -1 \<and> (\<exists>j<ns. s = int j * sz)"

lemma spilled_bounds:
  assumes "spilled_in sz ns r s" "0 < sz"
  shows "0 \<le> s" "s + sz \<le> int ns * sz" "r = -1"
proof -
  from assms obtain j where "j < ns" "s = int j * sz" "r = -1" by (auto simp: spilled_in_def)
  moreover from this have "int (Suc j) * sz \<le> int ns * sz" using assms(2) by (intro mult_right_mono) simp_all
  ultimately show "0 \<le> s" "s + sz \<le> int ns * sz" "r = -1" using assms(2) by (simp_all add: algebra_simps)
qed

lemma spilled_apart:
  assumes "spilled_in sz ns r s" "spilled_in sz ns' r' s'" "s \<noteq> s'" "0 < sz"
  shows "s + sz \<le> s' \<or> s' + sz \<le> s"
proof -
  from assms obtain j j' where j: "s = int j * sz" "s' = int j' * sz" by (auto simp: spilled_in_def)
  with assms have "j \<noteq> j'" by auto
  then have "int (Suc j) \<le> int j' \<or> int (Suc j') \<le> int j" by linarith
  then have "int (Suc j) * sz \<le> int j' * sz \<or> int (Suc j') * sz \<le> int j * sz"
    using assms(4) by (auto intro: mult_right_mono)
  then show ?thesis by (simp add: j algebra_simps)
qed

definition in_range :: "live \<Rightarrow> nat \<Rightarrow> int \<Rightarrow> bool" where
  "in_range lv t p \<longleftrightarrow> 0 \<le> lv_first_def lv ! t \<and> lv_first_def lv ! t \<le> p \<and>
     p \<le> live_end (lv_first_def lv) (lv_last_use lv) t"

lemma placed_cases:
  assumes "alloc_ok num first sz res C st en ns tr ts" "C t" "0 \<le> first"
  obtains "first \<le> tr ! t" "tr ! t < first + int num" "\<not> res (nat (tr ! t - first))"
    | "spilled_in sz ns (tr ! t) (ts ! t)"
  using alloc_ok_placed [OF assms(1,2)] assms(3) unfolding placed_def spilled_in_def by auto

lemma same_class_cases:
  assumes ok: "alloc_ok num first sz res C st en ns tr ts" "C t" "C u" "t \<noteq> u" "0 \<le> first"
    and p: "st t \<le> p" "p \<le> en t" "st u \<le> p" "p \<le> en u"
  obtains "0 \<le> tr ! t" "0 \<le> tr ! u" "tr ! t \<noteq> tr ! u"
    | "0 \<le> tr ! t" "spilled_in sz ns (tr ! u) (ts ! u)"
    | "spilled_in sz ns (tr ! t) (ts ! t)" "0 \<le> tr ! u"
    | "spilled_in sz ns (tr ! t) (ts ! t)" "spilled_in sz ns (tr ! u) (ts ! u)" "ts ! t \<noteq> ts ! u"
proof -
  have no: "\<not> overlap_free st en t u" using p by (simp add: overlap_free_def)
  from placed_cases [OF ok(1,2,5)] show thesis
  proof cases
    case 1
    from placed_cases [OF ok(1,3,5)] show ?thesis
    proof cases
      case 1
      then show ?thesis
        using that(1) \<open>first \<le> tr ! t\<close> no alloc_ok_disjoint [OF ok(1-4)] ok(5) by fastforce
    next
      case 2
      then show ?thesis using that(2) \<open>first \<le> tr ! t\<close> ok(5) by simp
    qed
  next
    case 2
    from placed_cases [OF ok(1,3,5)] show ?thesis
    proof cases
      case 1
      then show ?thesis using that(3) 2 ok(5) by simp
    next
      case 2
      then show ?thesis
        using that(4) \<open>spilled_in sz ns (tr ! t) (ts ! t)\<close> alloc_ok_slots [OF ok(1-4)]
        by (simp add: spilled_in_def)
    qed
  qed
qed

definition apart :: "int \<Rightarrow> int \<Rightarrow> int \<Rightarrow> int \<Rightarrow> bool" where
  "apart b n b' n' \<longleftrightarrow> b' \<le> b - n \<or> b \<le> b' - n'"

lemma stack_disjoint: "(a :: int) + n \<le> b \<or> b + m \<le> a \<Longrightarrow> Stack ` {a..<a + n} \<inter> Stack ` {b..<b + m} = {}"
  by auto

lemma spill_area:
  assumes "spilled_in sz ns r s" "0 < sz"
  shows "Stack ` {b - (s + sz)..<b - s} \<subseteq> Stack ` {b - int ns * sz..<b}"
  using spilled_bounds [OF assms] by auto

lemma spill_areas_disjoint:
  assumes "spilled_in sz ns r s" "0 < sz" "spilled_in sz' ns' r' s'" "0 < sz'"
    and "apart b (int ns * sz) b' (int ns' * sz')"
  shows "Stack ` {b - (s + sz)..<b - s} \<inter> Stack ` {b' - (s' + sz')..<b' - s'} = {}"
  using spilled_bounds [OF assms(1,2)] spilled_bounds [OF assms(3,4)] assms(5)
  by (auto simp: apart_def)

lemma spill_slots_disjoint:
  assumes "spilled_in sz ns r s" "spilled_in sz ns r' s'" "s \<noteq> s'" "0 < sz"
  shows "Stack ` {b - (s + sz)..<b - s} \<inter> Stack ` {b - (s' + sz)..<b - s'} = {}"
  using spilled_apart [OF assms] by auto

lemma spilled_neg: "spilled_in sz ns r s \<Longrightarrow> \<not> 0 \<le> r"
  by (auto simp: spilled_in_def)

lemma pairs_okD:
  assumes "pairs_ok int_num pairs fp_num pinned lv fn"
    "mp = max_pair (lv_is_i64 lv) (fn_temp_reg fn) (fn_ntemps fn)"
    "num = nat (int int_num - 2 * (mp + 1))"
  shows "alloc_ok pairs 0 8 (\<lambda>_. False) (\<lambda>t. t < fn_ntemps fn \<and> 0 \<le> lv_first_def lv ! t \<and> lv_is_i64 lv ! t)
      ((!) (lv_first_def lv)) (live_end (lv_first_def lv) (lv_last_use lv)) (fn_ni64spills fn)
      (fn_temp_reg fn) (fn_temp_spill fn)"
    and "alloc_ok num 2 4 (\<lambda>k. reserve_slots 2 num int_num pinned ! k)
      (\<lambda>t. t < fn_ntemps fn \<and> 0 \<le> lv_first_def lv ! t \<and> \<not> lv_is_float lv ! t \<and> \<not> lv_is_i64 lv ! t)
      ((!) (lv_first_def lv)) (live_end (lv_first_def lv) (lv_last_use lv)) (fn_nspills fn)
      (fn_temp_reg fn) (fn_temp_spill fn)"
    and "alloc_ok fp_num 2 8 (\<lambda>_. False) (\<lambda>t. t < fn_ntemps fn \<and> 0 \<le> lv_first_def lv ! t \<and> lv_is_float lv ! t)
      ((!) (lv_first_def lv)) (live_end (lv_first_def lv) (lv_last_use lv)) (fn_nfspills fn)
      (fn_temp_reg fn) (fn_temp_spill fn)"
    and "pinned = [] \<or> mp < 0"
  using assms(1) unfolding pairs_ok_def Let_def assms(2,3) in_class_def [abs_def]
  by (simp_all add: conj_ac)

lemma pairs_ok_cases:
  assumes ok: "pairs_ok int_num pairs fp_num pinned lv fn" and t: "t < fn_ntemps fn" "in_range lv t p"
    and mp: "mp = max_pair (lv_is_i64 lv) (fn_temp_reg fn) (fn_ntemps fn)"
  obtains "class_of lv t = RFloat" "0 \<le> fn_temp_reg fn ! t"
    | "class_of lv t = RFloat" "spilled_in 8 (fn_nfspills fn) (fn_temp_reg fn ! t) (fn_temp_spill fn ! t)"
    | "class_of lv t = RPair" "0 \<le> fn_temp_reg fn ! t" "fn_temp_reg fn ! t \<le> mp" "fn_temp_reg fn ! t < int pairs"
    | "class_of lv t = RPair" "spilled_in 8 (fn_ni64spills fn) (fn_temp_reg fn ! t) (fn_temp_spill fn ! t)"
    | "class_of lv t = RInt" "2 \<le> fn_temp_reg fn ! t" "fn_temp_reg fn ! t < int int_num - 2 * mp"
    | "class_of lv t = RInt" "spilled_in 4 (fn_nspills fn) (fn_temp_reg fn ! t) (fn_temp_spill fn ! t)"
proof (cases "class_of lv t")
  case RFloat
  then have "t < fn_ntemps fn \<and> 0 \<le> lv_first_def lv ! t \<and> lv_is_float lv ! t"
    using t by (simp add: class_of_def in_range_def split: if_splits)
  from placed_cases [OF pairs_okD(3) [OF ok refl refl] this] show ?thesis
    by cases (use that(1,2) [OF RFloat] in simp_all)
next
  case RPair
  then have c: "t < fn_ntemps fn \<and> 0 \<le> lv_first_def lv ! t \<and> lv_is_i64 lv ! t"
    using t by (simp add: class_of_def in_range_def split: if_splits)
  then have "fn_temp_reg fn ! t \<le> mp" using max_pair_bounds(2) mp by simp
  from placed_cases [OF pairs_okD(1) [OF ok refl refl] c] show ?thesis
    by cases (use that(3,4) [OF RPair] \<open>fn_temp_reg fn ! t \<le> mp\<close> in simp_all)
next
  case RInt
  then have c: "t < fn_ntemps fn \<and> 0 \<le> lv_first_def lv ! t \<and> \<not> lv_is_float lv ! t \<and> \<not> lv_is_i64 lv ! t"
    using t by (simp add: class_of_def in_range_def split: if_splits)
  from placed_cases [OF pairs_okD(2) [OF ok mp refl] c] show ?thesis
    by cases (use that(5,6) [OF RInt] in \<open>auto split: if_splits\<close>)
qed

lemma pairs_ok_same:
  assumes ok: "pairs_ok int_num pairs fp_num pinned lv fn" and tu: "t < fn_ntemps fn" "u < fn_ntemps fn" "t \<noteq> u"
    and r: "in_range lv t p" "in_range lv u p" and c: "class_of lv t = class_of lv u"
    and reg: "fn_temp_reg fn ! t = fn_temp_reg fn ! u"
  shows "fn_temp_reg fn ! u = -1 \<and> fn_temp_spill fn ! t \<noteq> fn_temp_spill fn ! u"
proof -
  have no: "\<not> overlap_free ((!) (lv_first_def lv)) (live_end (lv_first_def lv) (lv_last_use lv)) t u"
    using r by (auto simp: overlap_free_def in_range_def)
  have both: ?thesis if ok: "alloc_ok num first sz res C ((!) (lv_first_def lv))
      (live_end (lv_first_def lv) (lv_last_use lv)) ns (fn_temp_reg fn) (fn_temp_spill fn)" "C t" "C u"
    for num first sz res C ns
    using alloc_ok_disjoint [OF ok tu(3) reg] alloc_ok_slots [OF ok tu(3)] no reg by metis
  have f: "0 \<le> lv_first_def lv ! t" "0 \<le> lv_first_def lv ! u" using r by (simp_all add: in_range_def)
  show ?thesis
  proof (cases "class_of lv u")
    case RFloat
    with c f tu show ?thesis
      by (intro both [OF pairs_okD(3) [OF ok refl refl]]) (simp_all add: class_of_def split: if_splits)
  next
    case RPair
    with c f tu show ?thesis
      by (intro both [OF pairs_okD(1) [OF ok refl refl]]) (simp_all add: class_of_def split: if_splits)
  next
    case RInt
    with c f tu show ?thesis
      by (intro both [OF pairs_okD(2) [OF ok refl refl]]) (simp_all add: class_of_def split: if_splits)
  qed
qed

definition areas_apart :: "int \<Rightarrow> int \<Rightarrow> int \<Rightarrow> ir_func \<Rightarrow> bool" where
  "areas_apart bf bi b64 fn \<longleftrightarrow>
     apart bf (int (fn_nfspills fn) * 8) bi (int (fn_nspills fn) * 4) \<and>
     apart bf (int (fn_nfspills fn) * 8) b64 (int (fn_ni64spills fn) * 8) \<and>
     apart bi (int (fn_nspills fn) * 4) b64 (int (fn_ni64spills fn) * 8)"

text \<open>One temp's home, per case.\<close>

lemma pair_home_reg:
  "0 \<le> fn_temp_reg fn ! t \<Longrightarrow> pair_home k bf bi b64 c fn t =
     (case c of RFloat \<Rightarrow> {FReg (fn_temp_reg fn ! t)} | RInt \<Rightarrow> {IReg (fn_temp_reg fn ! t)}
      | RPair \<Rightarrow> {IReg (k - 2 * fn_temp_reg fn ! t), IReg (k + 1 - 2 * fn_temp_reg fn ! t)})"
  by (simp add: pair_home_def Let_def split: rclass.split)

lemma pair_home_spill:
  "\<not> 0 \<le> fn_temp_reg fn ! t \<Longrightarrow> pair_home k bf bi b64 c fn t =
     (case c of RFloat \<Rightarrow> Stack ` {bf - (fn_temp_spill fn ! t + 8) ..< bf - fn_temp_spill fn ! t}
      | RPair \<Rightarrow> Stack ` {b64 - (fn_temp_spill fn ! t + 8) ..< b64 - fn_temp_spill fn ! t}
      | RInt \<Rightarrow> Stack ` {bi - (fn_temp_spill fn ! t + 4) ..< bi - fn_temp_spill fn ! t})"
  by (simp add: pair_home_def Let_def split: rclass.split)

lemma pair_home_mixed:
  "0 \<le> fn_temp_reg fn ! t \<Longrightarrow> \<not> 0 \<le> fn_temp_reg fn ! u \<Longrightarrow>
   pair_home k bf bi b64 c fn t \<inter> pair_home k bf bi b64 c' fn u = {}"
  by (auto simp: pair_home_reg pair_home_spill split: rclass.split)

lemma pair_home_regs:
  assumes ok: "pairs_ok int_num pairs fp_num pinned lv fn" and tu: "t < fn_ntemps fn" "u < fn_ntemps fn" "t \<noteq> u"
    and r: "in_range lv t p" "in_range lv u p" and reg: "0 \<le> fn_temp_reg fn ! t" "0 \<le> fn_temp_reg fn ! u"
  shows "pair_home (int int_num) bf bi b64 (class_of lv t) fn t \<inter>
    pair_home (int int_num) bf bi b64 (class_of lv u) fn u = {}"
proof -
  define mp where "mp = max_pair (lv_is_i64 lv) (fn_temp_reg fn) (fn_ntemps fn)"
  have ne: "fn_temp_reg fn ! t \<noteq> fn_temp_reg fn ! u" if "class_of lv t = class_of lv u"
    using pairs_ok_same [OF ok tu r that] reg by auto
  have bnd: "(class_of lv v = RPair \<longrightarrow> fn_temp_reg fn ! v \<le> mp) \<and>
      (class_of lv v = RInt \<longrightarrow> fn_temp_reg fn ! v < int int_num - 2 * mp)"
    if "v < fn_ntemps fn" "in_range lv v p" "0 \<le> fn_temp_reg fn ! v" for v
    by (rule pairs_ok_cases [OF ok that(1,2) mp_def]) (use that(3) spilled_neg in auto)
  show ?thesis
    using ne bnd [OF tu(1) r(1) reg(1)] bnd [OF tu(2) r(2) reg(2)]
    by (cases "class_of lv t"; cases "class_of lv u") (auto simp: pair_home_reg reg)
qed

lemma pair_home_spills:
  assumes ok: "pairs_ok int_num pairs fp_num pinned lv fn" and tu: "t < fn_ntemps fn" "u < fn_ntemps fn" "t \<noteq> u"
    and r: "in_range lv t p" "in_range lv u p"
    and reg: "\<not> 0 \<le> fn_temp_reg fn ! t" "\<not> 0 \<le> fn_temp_reg fn ! u" and a: "areas_apart bf bi b64 fn"
  shows "pair_home (int int_num) bf bi b64 (class_of lv t) fn t \<inter>
    pair_home (int int_num) bf bi b64 (class_of lv u) fn u = {}"
proof -
  let ?z = "\<lambda>v. if class_of lv v = RInt then 4 else 8 :: int"
  let ?N = "\<lambda>v. case class_of lv v of RFloat \<Rightarrow> fn_nfspills fn | RPair \<Rightarrow> fn_ni64spills fn | RInt \<Rightarrow> fn_nspills fn"
  let ?B = "\<lambda>v. case class_of lv v of RFloat \<Rightarrow> bf | RPair \<Rightarrow> b64 | RInt \<Rightarrow> bi"
  have sp: "spilled_in (?z v) (?N v) (fn_temp_reg fn ! v) (fn_temp_spill fn ! v)"
    if "v < fn_ntemps fn" "in_range lv v p" "\<not> 0 \<le> fn_temp_reg fn ! v" for v
    by (rule pairs_ok_cases [OF ok that(1,2) refl]) (use that(3) in auto)
  note st = sp [OF tu(1) r(1) reg(1)] and su = sp [OF tu(2) r(2) reg(2)]
  have home: "pair_home (int int_num) bf bi b64 (class_of lv v) fn v =
      Stack ` {?B v - (fn_temp_spill fn ! v + ?z v)..<?B v - fn_temp_spill fn ! v}"
    if "\<not> 0 \<le> fn_temp_reg fn ! v" for v
    using that by (simp add: pair_home_spill split: rclass.split)
  show ?thesis
    unfolding home [OF reg(1)] home [OF reg(2)]
  proof (cases "class_of lv t = class_of lv u")
    case True
    then have "fn_temp_spill fn ! t \<noteq> fn_temp_spill fn ! u"
      using pairs_ok_same [OF ok tu r] st su by (simp add: spilled_in_def)
    then show "Stack ` {?B t - (fn_temp_spill fn ! t + ?z t)..<?B t - fn_temp_spill fn ! t} \<inter>
        Stack ` {?B u - (fn_temp_spill fn ! u + ?z u)..<?B u - fn_temp_spill fn ! u} = {}"
      using spill_slots_disjoint [OF st [unfolded True] su] True by simp
  next
    case False
    then have "apart (?B t) (int (?N t) * ?z t) (?B u) (int (?N u) * ?z u)"
      using a by (cases "class_of lv t"; cases "class_of lv u") (auto simp: areas_apart_def apart_def)
    then show "Stack ` {?B t - (fn_temp_spill fn ! t + ?z t)..<?B t - fn_temp_spill fn ! t} \<inter>
        Stack ` {?B u - (fn_temp_spill fn ! u + ?z u)..<?B u - fn_temp_spill fn ! u} = {}"
      by (intro spill_areas_disjoint [OF st _ su]) simp_all
  qed
qed

lemma pair_home_disjoint:
  assumes ok: "pairs_ok int_num pairs fp_num pinned lv fn" and tu: "t < fn_ntemps fn" "u < fn_ntemps fn" "t \<noteq> u"
    and r: "in_range lv t p" "in_range lv u p" and a: "areas_apart bf bi b64 fn"
  shows "pair_home (int int_num) bf bi b64 (class_of lv t) fn t \<inter>
    pair_home (int int_num) bf bi b64 (class_of lv u) fn u = {}"
proof (cases "0 \<le> fn_temp_reg fn ! t"; cases "0 \<le> fn_temp_reg fn ! u")
  assume "0 \<le> fn_temp_reg fn ! t" "0 \<le> fn_temp_reg fn ! u"
  then show ?thesis by (rule pair_home_regs [OF ok tu r])
next
  assume "0 \<le> fn_temp_reg fn ! t" "\<not> 0 \<le> fn_temp_reg fn ! u"
  then show ?thesis by (rule pair_home_mixed)
next
  assume "\<not> 0 \<le> fn_temp_reg fn ! t" "0 \<le> fn_temp_reg fn ! u"
  from pair_home_mixed [OF this(2,1)] show ?thesis by blast
next
  assume "\<not> 0 \<le> fn_temp_reg fn ! t" "\<not> 0 \<le> fn_temp_reg fn ! u"
  then show ?thesis by (rule pair_home_spills [OF ok tu r _ _ a])
qed

context live_scan
begin

lemma live_in_range:
  assumes "t < n" "live_at (\<lambda>e. names_temp (is ! e)) is t p"
  shows "in_range (scan_from step 0 is (init_live n)) t (int p)"
proof -
  obtain d e where de: "d \<le> p" "p \<le> e" "e < length is" "sets_temp (is ! d) t" "names_temp (is ! e) t"
    using assms(2) by (auto simp: live_at_def)
  then have "d < length is" by simp
  from scan_first_le [OF assms(1) this de(4)] scan_last [OF assms(1) de(3,5)] de(1,2)
  show ?thesis by (auto simp: in_range_def live_end_def)
qed

end

context arg_scan
begin

lemma live_in_range_args:
  assumes "t < n"
    and "live_at (\<lambda>e t. names_temp (is ! e) t \<or> consumes is_arg is_call cap is e t) is t p"
  shows "in_range (scan_from step 0 is (init_live n)) t (int p)"
proof -
  obtain d e where de: "d \<le> p" "p \<le> e" "e < length is" "sets_temp (is ! d) t"
      "names_temp (is ! e) t \<or> consumes is_arg is_call cap is e t"
    using assms(2) by (auto simp: live_at_def)
  then have "d < length is" "int e \<le> lv_last_use (scan_from step 0 is (init_live n)) ! t"
    using scan_last [OF assms(1) de(3)] scan_consumes [OF assms(1) de(3)] by auto
  with scan_first_le [OF assms(1) this(1) de(4)] de(1,2)
  show ?thesis by (auto simp: in_range_def live_end_def)
qed

end

text \<open>No temp is both a float and a 64-bit integer.\<close>

definition one_class :: "(ir_insn \<Rightarrow> bool) \<Rightarrow> (ir_insn \<Rightarrow> bool) \<Rightarrow> ir_func \<Rightarrow> bool" where
  "one_class isf isi fn \<longleftrightarrow>
     (\<forall>i \<in> set (fn_insns fn). \<forall>j \<in> set (fn_insns fn). i_dst i = i_dst j \<longrightarrow> isf i \<longrightarrow> \<not> isi j)"

lemma unallocated_simps [simp]:
  "fn_ntemps (unallocated fn) = fn_ntemps fn" "fn_insns (unallocated fn) = fn_insns fn"
  "length (fn_temp_reg (unallocated fn)) = fn_ntemps fn"
  "length (fn_temp_spill (unallocated fn)) = fn_ntemps fn"
  by (simp_all add: unallocated_def)

lemma store_alloc_simps [simp]:
  "fn_ntemps (store_alloc ni nf n64 ts fn) = fn_ntemps fn"
  "fn_insns (store_alloc ni nf n64 ts fn) = fn_insns fn"
  by (simp_all add: store_alloc_def)

lemma alloc_pairs_frame:
  "alloc_pairs qsort a b c pinned lv fn = Some fn' \<Longrightarrow> fn_ntemps fn' = fn_ntemps fn \<and> fn_insns fn' = fn_insns fn"
  by (auto simp: alloc_pairs_def Let_def bind_eq_Some_conv split: if_splits)

lemma mips_regalloc_ok:
  assumes "qsort_ok qsort" and run: "mips_regalloc sf qsort fn = Some fn'" and n: "fn_ntemps fn \<noteq> 0"
    and cls: "one_class (mips_float_def sf) (mips_pair_def sf) fn"
    and lv: "lv = scan_from (mips_scan_insn sf (fn_ntemps fn)) 0 (fn_insns fn) (init_live (fn_ntemps fn))"
  shows "pairs_ok 8 4 6 (mips_asm_reserved_regs (fn_insns fn) 8) lv fn'"
    and "fn_ntemps fn' = fn_ntemps fn" "fn_insns fn' = fn_insns fn"
    and "t < fn_ntemps fn \<Longrightarrow> mips_class sf fn' t = class_of lv t"
proof -
  have ap: "alloc_pairs qsort 8 4 6 (mips_asm_reserved_regs (fn_insns fn) 8) lv (unallocated fn) = Some fn'"
    using run n by (simp add: mips_regalloc_def lv)
  have ex: "\<not> (lv_is_float lv ! t \<and> lv_is_i64 lv ! t)" if "t < fn_ntemps fn" for t
    using cls that unfolding lv by (simp add: mips.scan_class one_class_def) metis
  show "pairs_ok 8 4 6 (mips_asm_reserved_regs (fn_insns fn) 8) lv fn'"
    by (rule interval_qsort.alloc_pairs_ok [OF qsort_ok_locale [OF assms(1)] ap]) (simp_all add: ex)
  show fr: "fn_ntemps fn' = fn_ntemps fn" "fn_insns fn' = fn_insns fn"
    using alloc_pairs_frame [OF ap] by simp_all
  show "mips_class sf fn' t = class_of lv t" if "t < fn_ntemps fn"
    using that by (simp add: mips_class_def class_of_def fr lv mips.scan_class)
qed



definition demo_fn :: ir_func where
  "demo_fn = (ir_new_func ''f'')\<lparr> fn_ntemps := 4, fn_insns :=
     [(blank_insn IR_LIC)\<lparr>i_dst := 0, i_imm := 7\<rparr>,
      (blank_insn IR_LIC64)\<lparr>i_dst := 1, i_imm := 9\<rparr>,
      (blank_insn IR_LIC)\<lparr>i_dst := 2, i_imm := 5\<rparr>,
      (blank_insn IR_ADD)\<lparr>i_dst := 3, i_a := 0, i_b := 2\<rparr>,
      (blank_insn IR_RETV64)\<lparr>i_a := 1\<rparr>] \<rparr>"

lemma demo_mips: "mips_regalloc False isort demo_fn \<noteq> None"
  by code_simp


subsection \<open>Registers named by an extended asm\<close>

lemma index_of_bounds: "-1 \<le> index_of xs x \<and> index_of xs x < int (length xs)"
  by (induction xs) (auto simp: Let_def)

lemma index_of_nth: "0 \<le> index_of xs x \<Longrightarrow> xs ! nat (index_of xs x) = x"
proof (induction xs)
  case (Cons y ys)
  then show ?case
    by (cases "y = x"; cases "index_of ys x < 0") (auto simp: Let_def nat_add_distrib)
qed simp

text \<open>
  A step that records registers: it keeps the recorded list within the pool and duplicate-free,
  drops nothing, and records everything \<open>g\<close> asks for.
\<close>

definition pool_list :: "int \<Rightarrow> nat \<Rightarrow> int list \<Rightarrow> bool" where
  "pool_list first cap out \<longleftrightarrow> distinct out \<and> set out \<subseteq> {first..<first + int cap}"

definition records :: "int \<Rightarrow> nat \<Rightarrow> ('a \<Rightarrow> int list \<Rightarrow> int list) \<Rightarrow> ('a \<Rightarrow> int set) \<Rightarrow> bool" where
  "records first cap f g \<longleftrightarrow>
     (\<forall>x out. pool_list first cap out \<longrightarrow>
        pool_list first cap (f x out) \<and> set out \<subseteq> set (f x out) \<and> g x \<subseteq> set (f x out))"

lemmas recordsD = records_def [THEN iffD1, rule_format]

lemma records_fold:
  assumes "records first cap f g" "pool_list first cap out"
  shows "pool_list first cap (fold f xs out) \<and> set out \<subseteq> set (fold f xs out) \<and>
    (\<Union>x \<in> set xs. g x) \<subseteq> set (fold f xs out)"
  using assms(2)
proof (induction xs arbitrary: out)
  case (Cons x xs)
  note s = recordsD [OF assms(1) Cons.prems, of x]
  from Cons.IH [OF conjunct1 [OF s]] s show ?case by auto
qed simp

lemma add_reserved_records:
  assumes "pool_list first cap out" "first \<le> idx" "idx < first + int cap"
  shows "pool_list first cap (add_reserved cap idx out) \<and> set out \<subseteq> set (add_reserved cap idx out) \<and>
    idx \<in> set (add_reserved cap idx out)"
proof (cases "length out < cap")
  case True
  then show ?thesis using assms by (auto simp: add_reserved_def pool_list_def)
next
  case False
  have "card (set out) \<le> card {first..<first + int cap}"
    using assms by (intro card_mono) (auto simp: pool_list_def)
  then have "card (set out) = card {first..<first + int cap}"
    using False assms by (simp add: pool_list_def distinct_card)
  then have "set out = {first..<first + int cap}"
    using assms by (intro card_subset_eq) (auto simp: pool_list_def)
  then show ?thesis using assms False by (auto simp: add_reserved_def)
qed

definition asm_names :: "ir_insn \<Rightarrow> string set" where
  "asm_names i =
     (case asm_info_of i of None \<Rightarrow> {}
      | Some ai \<Rightarrow> {r. \<exists>op \<in> set (asm_ops ai). ao_pin_reg op = Some r} \<union> set (ai_clobbers ai))"

lemma mips_reserve_records:
  assumes "idx < 2 + int cap"
  shows "pool_list 2 cap out \<Longrightarrow> pool_list 2 cap (mips_reserve cap idx out) \<and>
    set out \<subseteq> set (mips_reserve cap idx out) \<and> (2 \<le> idx \<longrightarrow> idx \<in> set (mips_reserve cap idx out))"
  using add_reserved_records [of 2 cap out idx] assms by (auto simp: mips_reserve_def)

lemma mips_regindex_bound: "mips_regindex name < 10"
  using index_of_bounds [of mips_regs name] by (simp add: mips_regindex_def mips_regs_def)

lemma mips_asm_reserved:
  assumes "i \<in> set is" "name \<in> asm_names i" "2 \<le> mips_regindex name"
  shows "mips_regindex name \<in> set (mips_asm_reserved_regs is 8)"
proof -
  let ?clob = "\<lambda>c. mips_reserve 8 (mips_regindex c)"
  let ?pin = "\<lambda>op. mips_reserve 8 (case ao_pin_reg op of None \<Rightarrow> -1 | Some r \<Rightarrow> mips_regindex r)"
  let ?S = "\<lambda>N. {idx. 2 \<le> idx \<and> idx \<in> mips_regindex ` N}"
  have c: "records 2 8 ?clob (\<lambda>c. ?S {c})"
    unfolding records_def using mips_reserve_records [of _ 8] mips_regindex_bound by auto
  have p: "records 2 8 ?pin (\<lambda>op. ?S {r. ao_pin_reg op = Some r})"
    unfolding records_def using mips_reserve_records [of _ 8] mips_regindex_bound
    by (auto split: option.splits)
  have "records 2 8 (\<lambda>i out. case asm_info_of i of None \<Rightarrow> out | Some ai \<Rightarrow>
      fold ?clob (ai_clobbers ai) (fold ?pin (asm_ops ai) out)) (\<lambda>i. ?S (asm_names i))"
    unfolding records_def
  proof (intro allI impI)
    fix i out assume out: "pool_list 2 8 out"
    show "pool_list 2 8 (case asm_info_of i of None \<Rightarrow> out | Some ai \<Rightarrow>
        fold ?clob (ai_clobbers ai) (fold ?pin (asm_ops ai) out)) \<and>
      set out \<subseteq> set (case asm_info_of i of None \<Rightarrow> out | Some ai \<Rightarrow>
        fold ?clob (ai_clobbers ai) (fold ?pin (asm_ops ai) out)) \<and>
      ?S (asm_names i) \<subseteq> set (case asm_info_of i of None \<Rightarrow> out | Some ai \<Rightarrow>
        fold ?clob (ai_clobbers ai) (fold ?pin (asm_ops ai) out))"
    proof (cases "asm_info_of i")
      case None
      then show ?thesis using out by (simp add: asm_names_def)
    next
      case (Some ai)
      note 1 = records_fold [OF p out, of "asm_ops ai"]
      note 2 = records_fold [OF c conjunct1 [OF 1], of "ai_clobbers ai"]
      from 1 2 show ?thesis unfolding Some option.case asm_names_def by blast
    qed
  qed
  from records_fold [OF this, of "[]" "is"] show ?thesis
    unfolding mips_asm_reserved_regs_def using assms by (auto simp: pool_list_def)
qed

lemma pair_home_unreserved:
  assumes ok: "pairs_ok int_num pairs fp_num pinned lv fn" and t: "t < fn_ntemps fn" "in_range lv t p"
    and r: "r \<in> set pinned" "2 \<le> r"
  shows "IReg r \<notin> pair_home (int int_num) bf bi b64 (class_of lv t) fn t"
proof
  assume "IReg r \<in> pair_home (int int_num) bf bi b64 (class_of lv t) fn t"
  then have reg: "0 \<le> fn_temp_reg fn ! t" and
    c: "class_of lv t = RPair \<or> class_of lv t = RInt \<and> r = fn_temp_reg fn ! t"
    by (auto simp: pair_home_def Let_def split: rclass.splits if_splits)
  define mp where "mp = max_pair (lv_is_i64 lv) (fn_temp_reg fn) (fn_ntemps fn)"
  define num where "num = nat (int int_num - 2 * (mp + 1))"
  have mp: "mp < 0" using pairs_okD(4) [OF ok mp_def refl] r by auto
  then have num: "num = int_num" "mp = -1"
    using max_pair_bounds(1) [of "lv_is_i64 lv" "fn_temp_reg fn" "fn_ntemps fn"]
    by (simp_all add: num_def mp_def)
  show False
  proof (cases "class_of lv t = RPair")
    case True
    then have "lv_is_i64 lv ! t" by (simp add: class_of_def split: if_splits)
    with max_pair_bounds(2) [OF t(1) this, of "fn_temp_reg fn"] mp reg show False by (simp add: mp_def)
  next
    case False
    with c have i: "class_of lv t = RInt" "r = fn_temp_reg fn ! t" by auto
    then have "t < fn_ntemps fn \<and> 0 \<le> lv_first_def lv ! t \<and> \<not> lv_is_float lv ! t \<and> \<not> lv_is_i64 lv ! t"
      using t by (simp add: class_of_def in_range_def split: if_splits)
    from placed_cases [OF pairs_okD(2) [OF ok mp_def num_def] this zero_le_numeral] show False
    proof cases
      case 1
      then have "nat (r - 2) < num" using i r by auto
      with 1 i r num show False by (simp add: reserve_slots_nth)
    next
      case 2
      then show False using reg spilled_neg by blast
    qed
  qed
qed

text \<open>
  C21: On MIPS, no temp that is live anywhere in the function is kept in an allocatable register
  that some extended asm of the function pins or clobbers.
\<close>

theorem mips_asm_regs_free:
  assumes "qsort_ok qsort" "mips_regalloc sf qsort fn = Some fn'"
    and "one_class (mips_float_def sf) (mips_pair_def sf) fn" and "t < fn_ntemps fn"
    and "live_at (\<lambda>e. names_temp (fn_insns fn ! e)) (fn_insns fn) t p"
    and "i \<in> set (fn_insns fn)" "name \<in> asm_names i" "2 \<le> mips_regindex name"
  shows "IReg (mips_regindex name) \<notin> mips_home sf fn' t"
proof -
  have n: "fn_ntemps fn \<noteq> 0" using assms(4) by simp
  note ok = mips_regalloc_ok [OF assms(1,2) n assms(3) refl]
  have t: "t < fn_ntemps fn'" using assms(4) by (simp add: ok)
  from pair_home_unreserved [OF ok(1) t mips.live_in_range [OF assms(4,5)]
      mips_asm_reserved [OF assms(6-8)] assms(8)]
  show ?thesis using assms(4) by (simp add: mips_home_pair ok)
qed

definition demo_asm :: ir_insn where
  "demo_asm = (blank_insn IR_ASM)\<lparr> i_asm_info := Some \<lparr> ai_noutputs = 0, ai_ninputs = 1,
     ai_ops = [\<lparr> ao_constraint = ''r'', ao_pin_reg = None, ao_temp = 0, ao_size = 4,
                 ao_is_output = False, ao_is_inout = False \<rparr>],
     ai_clobbers = [''$s0''], ai_is_volatile = True \<rparr> \<rparr>"

definition demo_asm_fn :: ir_func where
  "demo_asm_fn = (ir_new_func ''g'')\<lparr> fn_ntemps := 1, fn_insns :=
     [(blank_insn IR_LIC)\<lparr>i_dst := 0, i_imm := 7\<rparr>, demo_asm] \<rparr>"

lemma demo_asm_mips: "mips_regalloc False isort demo_asm_fn \<noteq> None"
  by code_simp

theorem mips_asm_regs_free_witness:
  "IReg (mips_regindex ''$s0'') \<notin> mips_home False (the (mips_regalloc False isort demo_asm_fn)) 0"
proof (rule mips_asm_regs_free [where p = 0])
  show "qsort_ok isort" by (rule qsort_ok_isort)
  show "mips_regalloc False isort demo_asm_fn = Some (the (mips_regalloc False isort demo_asm_fn))"
    using demo_asm_mips by simp
  show "one_class (mips_float_def False) (mips_pair_def False) demo_asm_fn" by code_simp
  show "live_at (\<lambda>e. names_temp (fn_insns demo_asm_fn ! e)) (fn_insns demo_asm_fn) 0 0"
    unfolding live_at_def by (rule exI [of _ 0], rule exI [of _ 1]) code_simp
  show "demo_asm \<in> set (fn_insns demo_asm_fn)" by (simp add: demo_asm_fn_def)
  show "''$s0'' \<in> asm_names demo_asm"
    by (simp add: asm_names_def demo_asm_def asm_info_of_def blank_insn_def)
  show "2 \<le> mips_regindex ''$s0''" by code_simp
qed (simp add: demo_asm_fn_def)

text \<open>
  C22: The MIPS allocator returns for every function in which no extended asm names an allocatable
  register: the linear scan never runs out of an interval to evict.
\<close>

theorem mips_regalloc_returns:
  assumes "qsort_ok qsort" and "mips_asm_reserved_regs (fn_insns fn) 8 = []"
  shows "\<exists>fn'. mips_regalloc sf qsort fn = Some fn'"
  using interval_qsort.alloc_pairs_defined [OF qsort_ok_locale [OF assms(1)]] assms(2)
  by (simp add: mips_regalloc_def del: not_None_eq add: not_None_eq [symmetric])

theorem mips_regalloc_returns_witness: "\<exists>fn'. mips_regalloc True isort demo_fn = Some fn'"
  by (rule mips_regalloc_returns [OF qsort_ok_isort]) code_simp

definition clobber_all_fn :: ir_func where
  "clobber_all_fn = (ir_new_func ''h'')\<lparr> fn_ntemps := 1, fn_insns :=
     [(blank_insn IR_LIC)\<lparr>i_dst := 0, i_imm := 7\<rparr>,
      (blank_insn IR_ASM)\<lparr> i_asm_info := Some \<lparr> ai_noutputs = 0, ai_ninputs = 0, ai_ops = [],
         ai_clobbers = drop 2 mips_regs, ai_is_volatile = True \<rparr> \<rparr>,
      (blank_insn IR_RETV)\<lparr>i_a := 0\<rparr>] \<rparr>"

text \<open>
  An extended asm that clobbers every allocatable register leaves the MIPS scan with an empty
  \<open>active\<close> array when it looks for an interval to evict: the read \<open>active[nactive - 1]\<close> is out of
  bounds, although a register for every temp is not required.
\<close>

theorem mips_regalloc_clobber_all: "mips_regalloc sf isort clobber_all_fn = None"
  by (cases sf) code_simp+

end
