(* ===== verification/Frame_Targets.thy ===== *)
theory Frame_Targets
  imports Frame
begin

text \<open>
  The frames of the other four backends and the homes of their temps: ColdFire
  (\<^verbatim>\<open>backend/cf_emit.c\<close>, its layout is in theory \<open>Frame\<close>), RISC-V (\<^verbatim>\<open>backend/rv_select.c\<close>, with the
  ILP32 argument assignment that sizes the parameter homes), x86-64 (\<^verbatim>\<open>backend/x86_select.c\<close>) and
  AArch64 (\<^verbatim>\<open>backend/arm64_select.c\<close>, with its AAPCS64 parameter assignment).
\<close>

unbundle bit_operations_syntax

subsection \<open>RISC-V: the ILP32 argument assignment\<close>

record rv_ploc =
  pl_words :: int
  pl_ireg :: int
  pl_nreg :: int
  pl_soff :: int

abbreviation (input) NARGREG :: int where "NARGREG \<equiv> 8"

text \<open>One argument of \<open>w\<close> words, given the next register and the stack offset so far.\<close>

definition rv_assign_one :: "int \<Rightarrow> int \<Rightarrow> int \<Rightarrow> rv_ploc \<times> int \<times> int" where
  "rv_assign_one w ix soff =
     (let l = \<lparr> pl_words = w, pl_ireg = -1, pl_nreg = 0, pl_soff = 0 \<rparr> in
      if w = 1 then
        if ix < NARGREG then (l\<lparr>pl_ireg := ix, pl_nreg := 1\<rparr>, ix + 1, soff)
        else (l\<lparr>pl_soff := soff\<rparr>, ix, soff + 4)
      else if w = 2 then
        if ix + 1 < NARGREG then (l\<lparr>pl_ireg := ix, pl_nreg := 2\<rparr>, ix + 2, soff)
        else if ix < NARGREG then (l\<lparr>pl_ireg := ix, pl_nreg := 1, pl_soff := soff\<rparr>, NARGREG, soff + 4)
        else let s = (soff + 7) AND NOT 7 in (l\<lparr>pl_soff := s\<rparr>, ix, s + 8)
      else let s = (soff + 7) AND NOT 7 in (l\<lparr>pl_soff := s\<rparr>, NARGREG, s + w * 4))"

fun rv_assign_from :: "int \<Rightarrow> int list \<Rightarrow> int \<Rightarrow> int \<Rightarrow> int \<Rightarrow> rv_ploc list \<times> int" where
  "rv_assign_from first_vararg [] k ix soff = ([], soff)"
| "rv_assign_from first_vararg (w # ws) k ix soff =
     (let ix0 = (if first_vararg \<ge> 0 \<and> k \<ge> first_vararg then NARGREG else ix);
          (l, ix', soff') = rv_assign_one w ix0 soff;
          (ls, total) = rv_assign_from first_vararg ws (k + 1) ix' soff'
      in (l # ls, total))"

definition rv_abi_assign :: "int list \<Rightarrow> int \<Rightarrow> rv_ploc list \<times> int" where
  "rv_abi_assign words first_vararg = rv_assign_from first_vararg words 0 0 0"

definition rv_param_words :: "ir_func \<Rightarrow> nat \<Rightarrow> int" where
  "rv_param_words fn slot =
     (let sz = (fn_slot_size fn ! slot + 3) AND NOT 3 in
      if (case fn_param_fw fn of Some fw \<Rightarrow> fw ! slot \<noteq> 0 | None \<Rightarrow> False) then 1
      else if sz div 4 < 1 then 1 else sz div 4)"

fun rv_param_loop :: "nat \<Rightarrow> nat \<Rightarrow> int \<Rightarrow> (int \<times> rv_ploc) list \<Rightarrow> (rv_ploc \<times> int) option" where
  "rv_param_loop slot i h [] = None"
| "rv_param_loop slot i h ((w, l) # rest) =
     (if pl_nreg l = 0 then rv_param_loop slot (i + 1) h rest
      else
        let sz = w * 4;
            h1 = (if sz mod 8 = 0 then (h + 7) AND NOT 7 else h);
            h2 = h1 + sz
        in if i = slot then Some (l, - h2) else rv_param_loop slot (i + 1) h2 rest)"

definition rv_param :: "ir_func \<Rightarrow> nat \<Rightarrow> rv_ploc \<times> int" where
  "rv_param fn slot =
     (let n = (if fn_nparams fn > 64 then 64 else fn_nparams fn);
          words = map (rv_param_words fn) [0..<n];
          loc = fst (rv_abi_assign words (-1))
      in case rv_param_loop slot 0 0 (zip words loc) of
           Some r \<Rightarrow> r
         | None \<Rightarrow> (loc ! (if slot < n then slot else 0), 0))"

definition rv_param_home :: "ir_func \<Rightarrow> int" where
  "rv_param_home fn =
     (fold (\<lambda>i h. case rv_param fn i of (p, home) \<Rightarrow>
               if pl_nreg p = 0 then h else if - home > h then - home else h)
        [0..<fn_nparams fn] 0 + 7) AND NOT 7"

definition rv_frame_reserve :: "ir_func \<Rightarrow> int" where
  "rv_frame_reserve fn = rv_param_home fn"

definition rv_place_slot :: "ir_func \<Rightarrow> nat \<Rightarrow> int \<Rightarrow> int" where
  "rv_place_slot fn i x =
     (let sz = slot_bytes fn i in (if sz mod 8 = 0 then (x + 7) AND NOT 7 else x) + sz)"

definition rv_locals_size :: "ir_func \<Rightarrow> int" where
  "rv_locals_size fn = (fold (rv_place_slot fn) [fn_nparams fn..<fn_nslots fn] 0 + 7) AND NOT 7"

definition rv_slot_offset :: "ir_func \<Rightarrow> nat \<Rightarrow> int" where
  "rv_slot_offset fn slot =
     (if slot < fn_nparams fn then
        (case rv_param fn slot of (p, home) \<Rightarrow> if pl_nreg p > 0 then home else 8 + pl_soff p)
      else - rv_frame_reserve fn - fold (rv_place_slot fn) [fn_nparams fn..<slot + 1] 0)"

definition rv_frame_size :: "ir_func \<Rightarrow> int" where
  "rv_frame_size fn =
     rv_frame_reserve fn + rv_locals_size fn + int (fn_nfspills fn) * 8 + int (fn_nspills fn) * 4
     + int (fn_ni64spills fn) * 8"

definition rv_fspill_byte_offset :: "ir_func \<Rightarrow> nat \<Rightarrow> int" where
  "rv_fspill_byte_offset fn t = - rv_frame_reserve fn - rv_locals_size fn - (fn_temp_spill fn ! t + 8)"

definition rv_spill_byte_offset :: "ir_func \<Rightarrow> nat \<Rightarrow> int" where
  "rv_spill_byte_offset fn t =
     - rv_frame_reserve fn - rv_locals_size fn - int (fn_nfspills fn) * 8 - (fn_temp_spill fn ! t + 4)"

definition rv_i64spill_byte_offset :: "ir_func \<Rightarrow> nat \<Rightarrow> int" where
  "rv_i64spill_byte_offset fn t =
     - rv_frame_reserve fn - rv_locals_size fn - int (fn_nfspills fn) * 8 - int (fn_nspills fn) * 4
     - (fn_temp_spill fn ! t + 8)"

definition rv_i64_lo_idx :: "int \<Rightarrow> int" where
  "rv_i64_lo_idx pair = 11 - 2 * pair"

definition rv_i64_hi_idx :: "int \<Rightarrow> int" where
  "rv_i64_hi_idx pair = 12 - 2 * pair"

subsection \<open>ColdFire pair registers\<close>

definition cf_i64_hi_reg :: "int \<Rightarrow> int" where
  "cf_i64_hi_reg pair = 6 - 2 * pair"

definition cf_i64_lo_reg :: "int \<Rightarrow> int" where
  "cf_i64_lo_reg pair = 7 - 2 * pair"

subsection \<open>x86-64 frame geometry\<close>

record x86_frame =
  fr_slot_off :: "int list"
  fr_spill_base :: int
  fr_fspill_base :: int
  fr_va_disp :: int
  fr_size :: int

abbreviation (input) SAVED :: int where "SAVED \<equiv> 40"

definition x86_slot_size :: "ir_func \<Rightarrow> nat \<Rightarrow> int" where
  "x86_slot_size fn k =
     (let s0 = (if fn_slot_size fn = [] then 4 else fn_slot_size fn ! k); s1 = (if s0 \<le> 0 then 8 else s0); s2 = (if s1 < 4 then 4 else s1)
      in (s2 + 3) AND NOT 3)"

fun x86_slot_offs :: "ir_func \<Rightarrow> nat list \<Rightarrow> int \<Rightarrow> int list \<times> int" where
  "x86_slot_offs fn [] off = ([], off)"
| "x86_slot_offs fn (k # ks) off =
     (let off' = off + x86_slot_size fn k; (offs, total) = x86_slot_offs fn ks off'
      in (off' # offs, total))"

definition x86_frame_of :: "ir_func \<Rightarrow> x86_frame" where
  "x86_frame_of fn =
     (let (offs, off) = x86_slot_offs fn [0..<fn_nslots fn] 0;
          off1 = off + int (fn_nspills fn) * 8 + int (fn_nfspills fn) * 8;
          off2 = (if fn_is_variadic fn then off1 + 176 else off1)
      in \<lparr> fr_slot_off = offs, fr_spill_base = off, fr_fspill_base = off + int (fn_nspills fn) * 8,
           fr_va_disp = (if fn_is_variadic fn then - (SAVED + off2) else 0),
           fr_size = ((off2 + 15) AND NOT 15) + 8 \<rparr>)"

definition x86_slot_disp :: "x86_frame \<Rightarrow> nat \<Rightarrow> int" where
  "x86_slot_disp fr k = - (SAVED + fr_slot_off fr ! k)"

definition x86_spill_disp :: "x86_frame \<Rightarrow> ir_func \<Rightarrow> nat \<Rightarrow> int" where
  "x86_spill_disp fr fn t = - (SAVED + fr_spill_base fr + fn_temp_spill fn ! t + 8)"

definition x86_fspill_disp :: "x86_frame \<Rightarrow> ir_func \<Rightarrow> nat \<Rightarrow> int" where
  "x86_fspill_disp fr fn t = - (SAVED + fr_fspill_base fr + fn_temp_spill fn ! t + 8)"

subsection \<open>AArch64 parameters and frame\<close>

record aapcs_ploc =
  ap_is_reg :: bool
  ap_neb :: int
  ap_hwords :: int
  ap_stride :: int
  ap_hidx :: int
  ap_soff :: int
  ap_cls :: "int list"
  ap_ridx :: "int list"

record aapcs_state =
  as_ix :: int
  as_dx :: int
  as_nstack :: int
  as_nreg :: int

fun aapcs_ridx :: "int list \<Rightarrow> int \<Rightarrow> int \<Rightarrow> int list \<times> int \<times> int" where
  "aapcs_ridx [] ix dx = ([], ix, dx)"
| "aapcs_ridx (c # cs) ix dx =
     (if c = 1 \<or> c = 2 then (case aapcs_ridx cs ix (dx + 1) of (rs, i, d) \<Rightarrow> (dx # rs, i, d))
      else (case aapcs_ridx cs (ix + 1) dx of (rs, i, d) \<Rightarrow> (ix # rs, i, d)))"

text \<open>The body of \<open>aapcs_param\<close>'s loop for parameter \<open>i\<close>.\<close>

definition aapcs_one :: "ir_func \<Rightarrow> nat \<Rightarrow> aapcs_state \<Rightarrow> aapcs_ploc \<times> aapcs_state" where
  "aapcs_one fn i st =
     (if i = 0 \<and> fn_ret_neb fn = -1 then
        (\<lparr> ap_is_reg = True, ap_neb = 1, ap_hwords = 1, ap_stride = 8, ap_hidx = as_nreg st,
           ap_soff = 0, ap_cls = [-3], ap_ridx = [0] \<rparr>, st\<lparr>as_nreg := as_nreg st + 1\<rparr>)
      else
        let neb0 = (case fn_param_neb fn of Some ns \<Rightarrow> ns ! i | None \<Rightarrow> 1);
            neb = (if neb0 < 1 then 1 else neb0);
            cls = map (\<lambda>j. case fn_param_cls fn of Some cs \<Rightarrow> cs ! (4 * i + j) | None \<Rightarrow> 0) [0..<nat neb];
            need_f = int (length (filter (\<lambda>c. c = 1 \<or> c = 2) cls));
            need_i = int (length (filter (\<lambda>c. \<not> (c = 1 \<or> c = 2)) cls));
            stride = (if cls ! 0 = 2 then 4 else 8);
            hwords = (neb * stride + 7) div 8
        in if as_ix st + need_i \<le> 8 \<and> as_dx st + need_f \<le> 8 then
             (case aapcs_ridx cls (as_ix st) (as_dx st) of (rs, ix, dx) \<Rightarrow>
               (\<lparr> ap_is_reg = True, ap_neb = neb, ap_hwords = hwords, ap_stride = stride,
                  ap_hidx = as_nreg st, ap_soff = 0, ap_cls = cls, ap_ridx = rs \<rparr>,
                st\<lparr>as_ix := ix, as_dx := dx, as_nreg := as_nreg st + hwords\<rparr>))
           else
             (\<lparr> ap_is_reg = False, ap_neb = neb, ap_hwords = hwords, ap_stride = stride,
                ap_hidx = 0, ap_soff = as_nstack st, ap_cls = cls, ap_ridx = [] \<rparr>,
              st\<lparr>as_nstack := as_nstack st + hwords\<rparr>))"

fun aapcs_state_before :: "ir_func \<Rightarrow> nat \<Rightarrow> aapcs_state" where
  "aapcs_state_before fn 0 = \<lparr> as_ix = 0, as_dx = 0, as_nstack = 0, as_nreg = 0 \<rparr>"
| "aapcs_state_before fn (Suc i) = snd (aapcs_one fn i (aapcs_state_before fn i))"

definition aapcs_param :: "ir_func \<Rightarrow> nat \<Rightarrow> aapcs_ploc" where
  "aapcs_param fn slot = fst (aapcs_one fn slot (aapcs_state_before fn slot))"

definition aapcs_nreg_params :: "ir_func \<Rightarrow> int" where
  "aapcs_nreg_params fn =
     fold (\<lambda>i n. let p = aapcs_param fn i in if ap_is_reg p then n + ap_hwords p else n)
       [0..<fn_nparams fn] 0"

definition arm64_param_home :: "ir_func \<Rightarrow> int" where
  "arm64_param_home fn = aapcs_nreg_params fn * 8"

definition arm64_va_save :: "bool \<Rightarrow> ir_func \<Rightarrow> int" where
  "arm64_va_save darwin fn = (if fn_is_variadic fn \<and> \<not> darwin then 192 else 0)"

definition arm64_frame_reserve :: "bool \<Rightarrow> ir_func \<Rightarrow> int" where
  "arm64_frame_reserve darwin fn = arm64_param_home fn + arm64_va_save darwin fn"

definition arm64_locals_size :: "ir_func \<Rightarrow> int" where
  "arm64_locals_size fn =
     fold (\<lambda>i s. s + ((fn_slot_size fn ! i + 7) AND NOT 7)) [fn_nparams fn..<fn_nslots fn] 0"

definition arm64_slot_offset :: "bool \<Rightarrow> ir_func \<Rightarrow> nat \<Rightarrow> int" where
  "arm64_slot_offset darwin fn slot =
     (if slot < fn_nparams fn then
        let p = aapcs_param fn slot in
        if ap_is_reg p then - 8 * (ap_hidx p + ap_hwords p) else 16 + 8 * ap_soff p
      else - arm64_frame_reserve darwin fn
           - fold (\<lambda>i off. off + ((fn_slot_size fn ! i + 7) AND NOT 7)) [fn_nparams fn..<slot + 1] 0)"

definition arm64_frame_size :: "bool \<Rightarrow> ir_func \<Rightarrow> int" where
  "arm64_frame_size darwin fn =
     (arm64_frame_reserve darwin fn + arm64_locals_size fn + int (fn_nspills fn) * 8
      + int (fn_nfspills fn) * 8 + 15) AND NOT 15"

definition arm64_spill_off :: "bool \<Rightarrow> ir_func \<Rightarrow> nat \<Rightarrow> int" where
  "arm64_spill_off darwin fn t =
     - arm64_frame_reserve darwin fn - arm64_locals_size fn - (fn_temp_spill fn ! t + 8)"

definition arm64_fspill_off :: "bool \<Rightarrow> ir_func \<Rightarrow> nat \<Rightarrow> int" where
  "arm64_fspill_off darwin fn t =
     - arm64_frame_reserve darwin fn - arm64_locals_size fn - int (fn_nspills fn) * 8
     - (fn_temp_spill fn ! t + 8)"

subsection \<open>Homes\<close>

definition insn_class :: "ir_func \<Rightarrow> nat \<Rightarrow> rclass" where
  "insn_class fn t =
     (if \<exists>i \<in> set (fn_insns fn). i_dst i = int t \<and> float_insn i then RFloat
      else if \<exists>i \<in> set (fn_insns fn). i_dst i = int t \<and> pair_insn i then RPair
      else RInt)"

definition rv_home :: "ir_func \<Rightarrow> nat \<Rightarrow> place set" where
  "rv_home fn t =
     (let r = fn_temp_reg fn ! t in
      case insn_class fn t of
        RFloat \<Rightarrow>
          if r \<ge> 0 then {FReg r} else Stack ` {rv_fspill_byte_offset fn t ..< rv_fspill_byte_offset fn t + 8}
      | RPair \<Rightarrow>
          if r \<ge> 0 then {IReg (rv_i64_lo_idx r), IReg (rv_i64_hi_idx r)}
          else Stack ` {rv_i64spill_byte_offset fn t ..< rv_i64spill_byte_offset fn t + 8}
      | RInt \<Rightarrow>
          if r \<ge> 0 then {IReg r} else Stack ` {rv_spill_byte_offset fn t ..< rv_spill_byte_offset fn t + 4})"

text \<open>A spilled 64-bit ColdFire temp occupies the two words \<open>i64_wd\<close> writes.\<close>

definition cf_home :: "ir_func \<Rightarrow> nat \<Rightarrow> place set" where
  "cf_home fn t =
     (let r = fn_temp_reg fn ! t in
      case insn_class fn t of
        RFloat \<Rightarrow>
          if r \<ge> 0 then {FReg r} else Stack ` {cf_fspill_byte_offset fn t ..< cf_fspill_byte_offset fn t + 8}
      | RPair \<Rightarrow>
          if r \<ge> 0 then {IReg (cf_i64_hi_reg r), IReg (cf_i64_lo_reg r)}
          else (case cf_i64_wd_words fn t of (hi, lo) \<Rightarrow> Stack ` ({hi..<hi + 4} \<union> {lo..<lo + 4}))
      | RInt \<Rightarrow>
          if r \<ge> 0 then {IReg r} else Stack ` {cf_spill_byte_offset fn t ..< cf_spill_byte_offset fn t + 4})"

definition x86_home :: "ir_func \<Rightarrow> nat \<Rightarrow> place set" where
  "x86_home fn t =
     (let r = fn_temp_reg fn ! t; fr = x86_frame_of fn in
      if insn_class fn t = RFloat then
        if r \<ge> 0 then {FReg r} else Stack ` {x86_fspill_disp fr fn t ..< x86_fspill_disp fr fn t + 8}
      else
        if r \<ge> 0 then {IReg r} else Stack ` {x86_spill_disp fr fn t ..< x86_spill_disp fr fn t + 8})"

definition arm64_home :: "bool \<Rightarrow> ir_func \<Rightarrow> nat \<Rightarrow> place set" where
  "arm64_home darwin fn t =
     (let r = fn_temp_reg fn ! t in
      if insn_class fn t = RFloat then
        if r \<ge> 0 then {FReg r} else Stack ` {arm64_fspill_off darwin fn t ..< arm64_fspill_off darwin fn t + 8}
      else
        if r \<ge> 0 then {IReg r} else Stack ` {arm64_spill_off darwin fn t ..< arm64_spill_off darwin fn t + 8})"

subsection \<open>The 32-bit targets\<close>

lemma rv_home_pair:
  "rv_home fn t =
   pair_home 11 (- rv_frame_reserve fn - rv_locals_size fn)
     (- rv_frame_reserve fn - rv_locals_size fn - int (fn_nfspills fn) * 8)
     (- rv_frame_reserve fn - rv_locals_size fn - int (fn_nfspills fn) * 8 - int (fn_nspills fn) * 4)
     (insn_class fn t) fn t"
  by (simp add: rv_home_def pair_home_def Let_def rv_i64_lo_idx_def rv_i64_hi_idx_def
      rv_fspill_byte_offset_def rv_spill_byte_offset_def rv_i64spill_byte_offset_def
      algebra_simps split: rclass.split)

lemma cf_i64_words:
  "(case cf_i64_wd_words fn t of (hi, lo) \<Rightarrow> Stack ` ({hi..<hi + 4} \<union> {lo..<lo + 4})) =
   Stack ` {cf_i64spill_byte_offset fn t - 4 ..< cf_i64spill_byte_offset fn t + 4}"
proof -
  have "{a..<a + 4} \<union> {a - 4..<a - 4 + 4} = {a - 4 ..< a + 4}" for a :: int by auto
  then show ?thesis by (simp add: cf_i64_wd_words_def Let_def)
qed

lemma cf_home_pair:
  "cf_home fn t =
   pair_home 6 (- cf_locals_size fn - int (fn_nspills fn) * 4) (- cf_locals_size fn)
     (- cf_locals_size fn - int (fn_nspills fn) * 4 - int (fn_nfspills fn) * 8 - 4)
     (insn_class fn t) fn t"
  unfolding cf_home_def cf_i64_words
  by (simp add: pair_home_def Let_def cf_i64_lo_reg_def cf_i64_hi_reg_def
      cf_fspill_byte_offset_def cf_spill_byte_offset_def cf_i64spill_byte_offset_def
      algebra_simps split: rclass.split)

lemma one_class_excl:
  assumes "one_class isf isi fn"
    and "lv_is_float lv ! t \<longleftrightarrow> (\<exists>i \<in> set (fn_insns fn). i_dst i = int t \<and> isf i)"
    and "lv_is_i64 lv ! t \<longleftrightarrow> (\<exists>i \<in> set (fn_insns fn). i_dst i = int t \<and> isi i)"
  shows "\<not> (lv_is_float lv ! t \<and> lv_is_i64 lv ! t)"
  using assms unfolding one_class_def by metis

lemma rv_regalloc_ok:
  assumes "qsort_ok qsort" and run: "rv_regalloc qsort fn = Some fn'" and n: "fn_ntemps fn \<noteq> 0"
    and cls: "one_class float_insn pair_insn fn"
    and lv: "lv = scan_from (rv_scan_insn (fn_ntemps fn)) 0 (fn_insns fn) (init_live (fn_ntemps fn))"
  shows "pairs_ok 11 4 12 (rv_asm_reserved_regs (fn_insns fn) 11) lv fn'"
    and "fn_ntemps fn' = fn_ntemps fn" "fn_insns fn' = fn_insns fn"
    and "t < fn_ntemps fn \<Longrightarrow> insn_class fn' t = class_of lv t"
proof -
  have ap: "alloc_pairs qsort 11 4 12 (rv_asm_reserved_regs (fn_insns fn) 11) lv (unallocated fn) = Some fn'"
    using run n by (simp add: rv_regalloc_def lv)
  have ex: "\<not> (lv_is_float lv ! t \<and> lv_is_i64 lv ! t)" if "t < fn_ntemps fn" for t
    by (rule one_class_excl [OF cls]) (simp_all add: lv rv.scan_class that)
  show "pairs_ok 11 4 12 (rv_asm_reserved_regs (fn_insns fn) 11) lv fn'"
    by (rule interval_qsort.alloc_pairs_ok [OF qsort_ok_locale [OF assms(1)] ap]) (simp_all add: ex)
  show fr: "fn_ntemps fn' = fn_ntemps fn" "fn_insns fn' = fn_insns fn"
    using alloc_pairs_frame [OF ap] by simp_all
  show "insn_class fn' t = class_of lv t" if "t < fn_ntemps fn"
    using that by (simp add: insn_class_def class_of_def fr lv rv.scan_class)
qed

lemma cf_regalloc_ok:
  assumes "qsort_ok qsort" and run: "cf_regalloc qsort fn = Some fn'" and n: "fn_ntemps fn \<noteq> 0"
    and cls: "one_class float_insn pair_insn fn"
    and lv: "lv = scan_from (cf_scan_insn (fn_ntemps fn)) 0 (fn_insns fn) (init_live (fn_ntemps fn))"
  shows "pairs_ok 6 3 6 (cf_asm_reserved_regs (fn_insns fn) 6) lv fn'"
    and "fn_ntemps fn' = fn_ntemps fn" "fn_insns fn' = fn_insns fn"
    and "t < fn_ntemps fn \<Longrightarrow> insn_class fn' t = class_of lv t"
proof -
  have ap: "alloc_pairs qsort 6 3 6 (cf_asm_reserved_regs (fn_insns fn) 6) lv (unallocated fn) = Some fn'"
    using run n by (simp add: cf_regalloc_def lv)
  have ex: "\<not> (lv_is_float lv ! t \<and> lv_is_i64 lv ! t)" if "t < fn_ntemps fn" for t
    by (rule one_class_excl [OF cls]) (simp_all add: lv cf.scan_class that)
  show "pairs_ok 6 3 6 (cf_asm_reserved_regs (fn_insns fn) 6) lv fn'"
    by (rule interval_qsort.alloc_pairs_ok [OF qsort_ok_locale [OF assms(1)] ap]) (simp_all add: ex)
  show fr: "fn_ntemps fn' = fn_ntemps fn" "fn_insns fn' = fn_insns fn"
    using alloc_pairs_frame [OF ap] by simp_all
  show "insn_class fn' t = class_of lv t" if "t < fn_ntemps fn"
    using that by (simp add: insn_class_def class_of_def fr lv cf.scan_class)
qed


definition demo_call_fn :: ir_func where
  "demo_call_fn = (ir_new_func ''k'')\<lparr> fn_ntemps := 3, fn_insns :=
     [(blank_insn IR_LIC)\<lparr>i_dst := 0, i_imm := 7\<rparr>,
      (blank_insn IR_ARG)\<lparr>i_a := 0\<rparr>,
      (blank_insn IR_LEA)\<lparr>i_dst := 1, i_sym := Some ''g''\<rparr>,
      (blank_insn IR_CALLI)\<lparr>i_dst := 2, i_a := 1, i_nargs := 1\<rparr>,
      (blank_insn IR_RETV)\<lparr>i_a := 2\<rparr>] \<rparr>"

lemma demo_call_rv: "rv_regalloc isort demo_call_fn \<noteq> None"
  and demo_call_cf: "cf_regalloc isort demo_call_fn \<noteq> None"
  and demo_call_x86: "x86_regalloc isort demo_call_fn \<noteq> None"
  by code_simp+




text \<open>A function whose fourth simultaneously live 64-bit temp has no register pair left.\<close>

definition cf_spill_fn :: ir_func where
  "cf_spill_fn = (ir_new_func ''s'')\<lparr> fn_ntemps := 4, fn_insns :=
     map (\<lambda>t. (blank_insn IR_LIC64)\<lparr>i_dst := int t, i_imm := 1\<rparr>) [0..<4] @
     map (\<lambda>t. (blank_insn IR_ARG64)\<lparr>i_a := int t\<rparr>) [0..<4] @ [(blank_insn IR_CALL)\<lparr>i_nargs := 4\<rparr>] \<rparr>"


subsection \<open>The 64-bit targets\<close>

definition wide_home :: "int \<Rightarrow> int \<Rightarrow> bool \<Rightarrow> ir_func \<Rightarrow> nat \<Rightarrow> place set" where
  "wide_home bf bi is_float fn t =
     (let r = fn_temp_reg fn ! t; s = fn_temp_spill fn ! t in
      if is_float then if r \<ge> 0 then {FReg r} else Stack ` {bf - (s + 8) ..< bf - s}
      else if r \<ge> 0 then {IReg r} else Stack ` {bi - (s + 8) ..< bi - s})"

lemma wide_okD:
  assumes "wide_ok int_num fp_num first force pinned lv fn"
  shows "alloc_ok int_num first 8 (\<lambda>k. reserve_slots first int_num int_num pinned ! k)
      (\<lambda>t. t < fn_ntemps fn \<and> 0 \<le> lv_first_def lv ! t \<and> \<not> lv_is_float lv ! t)
      ((!) (lv_first_def lv)) (live_end (lv_first_def lv) (lv_last_use lv)) (fn_nspills fn)
      (fn_temp_reg fn) (fn_temp_spill fn)"
    and "alloc_ok fp_num first 8 (\<lambda>_. False)
      (\<lambda>t. t < fn_ntemps fn \<and> 0 \<le> lv_first_def lv ! t \<and> lv_is_float lv ! t)
      ((!) (lv_first_def lv)) (live_end (lv_first_def lv) (lv_last_use lv)) (fn_nfspills fn)
      (fn_temp_reg fn) (fn_temp_spill fn)"
    and "\<And>f t. force = Some f \<Longrightarrow> t < fn_ntemps fn \<Longrightarrow> 0 \<le> lv_first_def lv ! t \<Longrightarrow>
      lv_is_float lv ! t \<Longrightarrow> f ! t \<Longrightarrow> fn_temp_reg fn ! t = -1"
  using assms unfolding wide_ok_def Let_def in_class_def [abs_def] by (simp_all add: conj_ac)

lemma wide_home_same:
  assumes ok: "alloc_ok num first 8 res C ((!) (lv_first_def lv)) (live_end (lv_first_def lv) (lv_last_use lv))
      ns (fn_temp_reg fn) (fn_temp_spill fn)" "C t" "C u" "t \<noteq> u" "0 \<le> first"
    and r: "in_range lv t p" "in_range lv u p"
  shows "wide_home bf bi k fn t \<inter> wide_home bf bi k fn u = {}"
proof -
  have p: "lv_first_def lv ! t \<le> p" "p \<le> live_end (lv_first_def lv) (lv_last_use lv) t"
      "lv_first_def lv ! u \<le> p" "p \<le> live_end (lv_first_def lv) (lv_last_use lv) u"
    using r by (simp_all add: in_range_def)
  from same_class_cases [OF ok p] show ?thesis
  proof cases
    case 4
    note sp = spilled_neg [OF 4(1)] spilled_neg [OF 4(2)]
    show ?thesis
      using spill_slots_disjoint [OF 4] sp by (simp add: wide_home_def Let_def)
  qed (auto simp: wide_home_def Let_def dest: spilled_neg)
qed

lemma wide_home_disjoint:
  assumes ok: "wide_ok int_num fp_num first force pinned lv fn" and "0 \<le> first"
    and tu: "t < fn_ntemps fn" "u < fn_ntemps fn" "t \<noteq> u"
    and r: "in_range lv t p" "in_range lv u p"
    and a: "apart bf (int (fn_nfspills fn) * 8) bi (int (fn_nspills fn) * 8)"
  shows "wide_home bf bi (lv_is_float lv ! t) fn t \<inter> wide_home bf bi (lv_is_float lv ! u) fn u = {}"
proof -
  have f: "0 \<le> lv_first_def lv ! t" "0 \<le> lv_first_def lv ! u" using r by (simp_all add: in_range_def)
  have cross: "wide_home bf bi True fn v \<inter> wide_home bf bi False fn w = {}"
    if "v < fn_ntemps fn" "0 \<le> lv_first_def lv ! v" "lv_is_float lv ! v"
      "w < fn_ntemps fn" "0 \<le> lv_first_def lv ! w" "\<not> lv_is_float lv ! w" for v w
  proof (cases "0 \<le> fn_temp_reg fn ! v \<or> 0 \<le> fn_temp_reg fn ! w")
    case True
    then show ?thesis by (auto simp: wide_home_def Let_def)
  next
    case False
    have "spilled_in 8 (fn_nfspills fn) (fn_temp_reg fn ! v) (fn_temp_spill fn ! v)"
      by (rule placed_cases [OF wide_okD(2) [OF ok] _ \<open>0 \<le> first\<close>, of v]) (use that False \<open>0 \<le> first\<close> in auto)
    moreover have "spilled_in 8 (fn_nspills fn) (fn_temp_reg fn ! w) (fn_temp_spill fn ! w)"
      by (rule placed_cases [OF wide_okD(1) [OF ok] _ \<open>0 \<le> first\<close>, of w]) (use that False \<open>0 \<le> first\<close> in auto)
    ultimately show ?thesis
      using False spill_areas_disjoint [OF _ _ _ _ a] by (simp add: wide_home_def Let_def)
  qed
  show ?thesis
  proof (cases "lv_is_float lv ! t"; cases "lv_is_float lv ! u")
    assume "lv_is_float lv ! t" "lv_is_float lv ! u"
    then show ?thesis
      using wide_home_same [OF wide_okD(2) [OF ok] _ _ tu(3) \<open>0 \<le> first\<close> r] tu f by simp
  next
    assume "\<not> lv_is_float lv ! t" "\<not> lv_is_float lv ! u"
    then show ?thesis
      using wide_home_same [OF wide_okD(1) [OF ok] _ _ tu(3) \<open>0 \<le> first\<close> r] tu f by simp
  next
    assume "lv_is_float lv ! t" "\<not> lv_is_float lv ! u"
    then show ?thesis using cross [of t u] tu f by simp
  next
    assume "\<not> lv_is_float lv ! t" "lv_is_float lv ! u"
    then show ?thesis using cross [of u t] tu f by (simp add: Int_commute)
  qed
qed

lemma x86_home_wide:
  "x86_home fn t =
   wide_home (- (40 + fr_fspill_base (x86_frame_of fn))) (- (40 + fr_spill_base (x86_frame_of fn)))
     (insn_class fn t = RFloat) fn t"
  by (simp add: x86_home_def wide_home_def Let_def x86_fspill_disp_def x86_spill_disp_def algebra_simps)

lemma add_8_cancel: "b - (s + 8) + 8 = b - (s :: int)"
  by simp

lemma arm64_home_wide:
  "arm64_home d fn t =
   wide_home (- arm64_frame_reserve d fn - arm64_locals_size fn - int (fn_nspills fn) * 8)
     (- arm64_frame_reserve d fn - arm64_locals_size fn) (insn_class fn t = RFloat) fn t"
  by (simp add: arm64_home_def wide_home_def Let_def arm64_fspill_off_def arm64_spill_off_def add_8_cancel)

lemma alloc_wide_frame:
  "alloc_wide qsort a b c force pinned lv fn = Some fn' \<Longrightarrow> fn_ntemps fn' = fn_ntemps fn \<and> fn_insns fn' = fn_insns fn"
  by (auto simp: alloc_wide_def Let_def bind_eq_Some_conv)

lemma x86_regalloc_ok:
  assumes "qsort_ok qsort" and run: "x86_regalloc qsort fn = Some fn'" and n: "fn_ntemps fn \<noteq> 0"
    and lv: "lv = scan_from (x86_scan_insn (fn_ntemps fn)) 0 (fn_insns fn) (init_live (fn_ntemps fn))"
  shows "\<exists>pinned. wide_ok 5 7 0 (Some (mark_float_cross (fn_ntemps fn) lv)) pinned lv fn'"
    and "fn_ntemps fn' = fn_ntemps fn" "fn_insns fn' = fn_insns fn"
    and "t < fn_ntemps fn \<Longrightarrow> (insn_class fn' t = RFloat) = lv_is_float lv ! t"
proof -
  obtain pinned where ap: "alloc_wide qsort 5 7 0 (Some (mark_float_cross (fn_ntemps fn) lv)) pinned lv
      (unallocated fn) = Some fn'"
    using run n by (auto simp: x86_regalloc_def lv Let_def bind_eq_Some_conv)
  have "wide_ok 5 7 0 (Some (mark_float_cross (fn_ntemps fn) lv)) pinned lv fn'"
    by (rule interval_qsort.alloc_wide_ok [OF qsort_ok_locale [OF assms(1)] ap]) simp_all
  then show "\<exists>pinned. wide_ok 5 7 0 (Some (mark_float_cross (fn_ntemps fn) lv)) pinned lv fn'" by blast
  show fr: "fn_ntemps fn' = fn_ntemps fn" "fn_insns fn' = fn_insns fn"
    using alloc_wide_frame [OF ap] by simp_all
  show "(insn_class fn' t = RFloat) = lv_is_float lv ! t" if "t < fn_ntemps fn"
    using that by (simp add: insn_class_def fr lv x86.scan_class)
qed

lemma arm64_regalloc_ok:
  assumes "qsort_ok qsort" and run: "arm64_regalloc psabi qsort fn = Some fn'" and n: "fn_ntemps fn \<noteq> 0"
    and lv: "lv = scan_from (arm64_scan_insn (fn_ntemps fn)) 0 (fn_insns fn) (init_live (fn_ntemps fn))"
  shows "wide_ok 10 8 2 (if psabi then None else Some (mark_float_cross (fn_ntemps fn) lv))
      (arm64_asm_reserved_regs (fn_insns fn) 10) lv fn'"
    and "fn_ntemps fn' = fn_ntemps fn" "fn_insns fn' = fn_insns fn"
    and "t < fn_ntemps fn \<Longrightarrow> (insn_class fn' t = RFloat) = lv_is_float lv ! t"
proof -
  have ap: "alloc_wide qsort 10 8 2 (if psabi then None else Some (mark_float_cross (fn_ntemps fn) lv))
      (arm64_asm_reserved_regs (fn_insns fn) 10) lv (unallocated fn) = Some fn'"
    using run unfolding arm64_regalloc_def Let_def lv if_not_P [OF n] .
  show "wide_ok 10 8 2 (if psabi then None else Some (mark_float_cross (fn_ntemps fn) lv))
      (arm64_asm_reserved_regs (fn_insns fn) 10) lv fn'"
    by (rule interval_qsort.alloc_wide_ok [OF qsort_ok_locale [OF assms(1)] ap]) simp_all
  show fr: "fn_ntemps fn' = fn_ntemps fn" "fn_insns fn' = fn_insns fn"
    using alloc_wide_frame [OF ap] by simp_all
  show "(insn_class fn' t = RFloat) = lv_is_float lv ! t" if "t < fn_ntemps fn"
    using that by (simp add: insn_class_def fr lv arm64.scan_class)
qed




definition demo_fcall_fn :: ir_func where
  "demo_fcall_fn = (ir_new_func ''f'')\<lparr> fn_ntemps := 1, fn_insns :=
     [(blank_insn IR_FLDL)\<lparr>i_dst := 0\<rparr>, (blank_insn IR_CALL)\<lparr>i_sym := Some ''g''\<rparr>,
      (blank_insn IR_FRETV)\<lparr>i_a := 0\<rparr>] \<rparr>"

lemma demo_fcall_x86: "x86_regalloc isort demo_fcall_fn \<noteq> None"
  by code_simp


text \<open>
  C15: On AArch64, two temps live at a common instruction have disjoint homes, where an integer
  argument operand (\<open>IR_ARG\<close>, \<open>IR_ARG64\<close>, \<open>IR_ARG_X8\<close>, \<open>IR_ARG_MEM\<close>) is live up to its call.
\<close>

theorem arm64_homes_disjoint:
  assumes "qsort_ok qsort" "arm64_regalloc psabi qsort fn = Some fn'"
    and "t < fn_ntemps fn" "u < fn_ntemps fn" "t \<noteq> u"
    and "live_at (\<lambda>e t. names_temp (fn_insns fn ! e) t \<or>
           consumes arm64_is_arg arm64_is_call 16 (fn_insns fn) e t) (fn_insns fn) t p"
    and "live_at (\<lambda>e t. names_temp (fn_insns fn ! e) t \<or>
           consumes arm64_is_arg arm64_is_call 16 (fn_insns fn) e t) (fn_insns fn) u p"
  shows "arm64_home darwin fn' t \<inter> arm64_home darwin fn' u = {}"
proof -
  have n: "fn_ntemps fn \<noteq> 0" using assms(3) by simp
  note ok = arm64_regalloc_ok [OF assms(1,2) n refl]
  have apart: "apart (- arm64_frame_reserve darwin fn' - arm64_locals_size fn' - int (fn_nspills fn') * 8)
      (int (fn_nfspills fn') * 8) (- arm64_frame_reserve darwin fn' - arm64_locals_size fn')
      (int (fn_nspills fn') * 8)"
    by (simp add: apart_def)
  have n': "t < fn_ntemps fn'" "u < fn_ntemps fn'" using assms(3,4) by (simp_all add: ok(2))
  show ?thesis
    using wide_home_disjoint [OF ok(1) zero_le_numeral n' assms(5) arm64.live_in_range_args [OF assms(3,6)]
        arm64.live_in_range_args [OF assms(4,7)] apart] assms(3,4)
    by (simp add: arm64_home_wide ok(4))
qed

lemma demo_call_arm64: "arm64_regalloc True isort demo_call_fn \<noteq> None"
  by code_simp

theorem arm64_homes_disjoint_witness:
  "arm64_home False (the (arm64_regalloc True isort demo_call_fn)) 0 \<inter>
   arm64_home False (the (arm64_regalloc True isort demo_call_fn)) 1 = {}"
proof (rule arm64_homes_disjoint [where p = 2])
  show "qsort_ok isort" by (rule qsort_ok_isort)
  show "arm64_regalloc True isort demo_call_fn = Some (the (arm64_regalloc True isort demo_call_fn))"
    using demo_call_arm64 by simp
  show "live_at (\<lambda>e t. names_temp (fn_insns demo_call_fn ! e) t \<or>
      consumes arm64_is_arg arm64_is_call 16 (fn_insns demo_call_fn) e t) (fn_insns demo_call_fn) 0 2"
    unfolding live_at_def by (rule exI [of _ 0], rule exI [of _ 3]) code_simp
  show "live_at (\<lambda>e t. names_temp (fn_insns demo_call_fn ! e) t \<or>
      consumes arm64_is_arg arm64_is_call 16 (fn_insns demo_call_fn) e t) (fn_insns demo_call_fn) 1 2"
    unfolding live_at_def by (rule exI [of _ 2], rule exI [of _ 3]) code_simp
qed (simp_all add: demo_call_fn_def)

text \<open>Two float arguments of one call.\<close>

definition farg_fn :: ir_func where
  "farg_fn = (ir_new_func ''f'')\<lparr> fn_ntemps := 3, fn_insns :=
     [(blank_insn IR_FLDL)\<lparr>i_dst := 0, i_slot := 0\<rparr>, (blank_insn IR_FARG)\<lparr>i_a := 0\<rparr>,
      (blank_insn IR_FLDL)\<lparr>i_dst := 1, i_slot := 1\<rparr>, (blank_insn IR_FARG)\<lparr>i_a := 1\<rparr>,
      (blank_insn IR_FCALL)\<lparr>i_dst := 2, i_nargs := 2, i_sym := Some ''pow''\<rparr>,
      (blank_insn IR_FRETV)\<lparr>i_a := 2\<rparr>] \<rparr>"


text \<open>Two integer arguments of a failable call, and a float temp live across one.\<close>

definition call2_args_fn :: ir_func where
  "call2_args_fn = (ir_new_func ''f'')\<lparr> fn_ntemps := 3, fn_insns :=
     [(blank_insn IR_LIC)\<lparr>i_dst := 0, i_imm := 1\<rparr>, (blank_insn IR_ARG)\<lparr>i_a := 0\<rparr>,
      (blank_insn IR_LIC)\<lparr>i_dst := 1, i_imm := 2\<rparr>, (blank_insn IR_ARG)\<lparr>i_a := 1\<rparr>,
      (blank_insn IR_CALL2)\<lparr>i_dst := 2, i_nargs := 2, i_sym := Some ''g''\<rparr>,
      (blank_insn IR_RETV)\<lparr>i_a := 2\<rparr>] \<rparr>"

definition call2_float_fn :: ir_func where
  "call2_float_fn = (ir_new_func ''f'')\<lparr> fn_ntemps := 2, fn_insns :=
     [(blank_insn IR_FLDL)\<lparr>i_dst := 0\<rparr>,
      (blank_insn IR_CALL2)\<lparr>i_dst := 1, i_sym := Some ''g''\<rparr>,
      (blank_insn IR_FRETV)\<lparr>i_a := 0\<rparr>] \<rparr>"

definition same_reg :: "ir_func option \<Rightarrow> bool" where
  "same_reg r = (case r of None \<Rightarrow> False
     | Some fn \<Rightarrow> 0 \<le> fn_temp_reg fn ! 0 \<and> fn_temp_reg fn ! 0 = fn_temp_reg fn ! 1)"

text \<open>
  Only the RISC-V allocator treats the failable calls \<open>IR_CALL2\<close> and \<open>IR_CALLI2\<close> as calls.  The
  ColdFire, x86-64 and AArch64 allocators give the two arguments of one the same register, and the
  x86-64 and stack-convention AArch64 allocators keep a float live across one in a register that
  the callee may overwrite.
\<close>

theorem call2_not_a_call:
  "same_reg (cf_regalloc isort call2_args_fn) \<and> same_reg (x86_regalloc isort call2_args_fn) \<and>
   same_reg (arm64_regalloc False isort call2_args_fn) \<and>
   \<not> same_reg (rv_regalloc isort call2_args_fn) \<and>
   0 \<le> fn_temp_reg (the (x86_regalloc isort call2_float_fn)) ! 0 \<and>
   0 \<le> fn_temp_reg (the (arm64_regalloc False isort call2_float_fn)) ! 0"
proof (intro conjI)
  show "same_reg (cf_regalloc isort call2_args_fn)" by code_simp
  show "same_reg (x86_regalloc isort call2_args_fn)" by code_simp
  show "same_reg (arm64_regalloc False isort call2_args_fn)" by code_simp
  show "\<not> same_reg (rv_regalloc isort call2_args_fn)" by code_simp
  show "0 \<le> fn_temp_reg (the (x86_regalloc isort call2_float_fn)) ! 0" by code_simp
  show "0 \<le> fn_temp_reg (the (arm64_regalloc False isort call2_float_fn)) ! 0" by code_simp
qed

end
