(* ===== verification/Asm_Obj.thy ===== *)
theory Asm_Obj
  imports Prelude
begin

text \<open>
  Sections, relocations and the symbol table of the assemblers (\<^verbatim>\<open>as/asm_obj.c\<close>). A section's buffer
  is a function from offsets to bytes with the length and capacity the C code keeps; during the
  sizing pass the length moves and the buffer does not. The relocation and symbol arrays grow by
  doubling and never shrink, so they are lists. \<open>None\<close> is \<open>die()\<close> or an index out of range.
\<close>

unbundle bit_operations_syntax

subsection \<open>Data\<close>

record reloc =
  rl_offset :: u32
  rl_sym_idx :: nat
  rl_addend :: int
  rl_type :: nat

record asm_section =
  sec_data :: "nat \<Rightarrow> u8"
  sec_len :: int
  sec_cap :: int
  sec_align_req :: int
  sec_little_endian :: bool
  sec_relocs :: "reloc list"

record symbol =
  sy_name :: string
  sy_section :: int
  sy_value :: u32
  sy_global :: bool
  sy_weak :: bool
  sy_defined :: bool
  sy_is_func :: bool
  sy_size :: u32

type_synonym symtab = "symbol list"

definition empty_section :: asm_section where
  "empty_section = \<lparr> sec_data = (\<lambda>_. 0), sec_len = 0, sec_cap = 0, sec_align_req = 0, sec_little_endian = False, sec_relocs = [] \<rparr>"

subsection \<open>Sections\<close>

text \<open>The capacity doubles until it reaches the wanted size.\<close>

function grow_cap :: "int \<Rightarrow> int \<Rightarrow> int" where
  "grow_cap ncap want = (if 0 < ncap \<and> ncap < want then grow_cap (ncap * 2) want else ncap)"
  by pat_completeness auto

termination by (relation "measure (\<lambda>(ncap, want). nat (want - ncap))") auto

declare grow_cap.simps [simp del]

definition sec_reserve :: "int \<Rightarrow> asm_section \<Rightarrow> asm_section option" where
  "sec_reserve need s =
     (if need < 0 \<or> sec_len s < 0 then None
      else let want = sec_len s + need in
        if want > INT_MAX then None
        else if want \<le> sec_cap s then Some s
        else let ncap = grow_cap (if sec_cap s \<noteq> 0 then sec_cap s else 256) want
             in Some (s\<lparr> sec_cap := (if ncap > INT_MAX then want else ncap) \<rparr>))"

definition sec_emit8 :: "u8 \<Rightarrow> asm_section \<Rightarrow> asm_section option" where
  "sec_emit8 v s =
     do { s \<leftarrow> sec_reserve 1 s;
          Some (s\<lparr> sec_data := (sec_data s)(nat (sec_len s) := v), sec_len := sec_len s + 1 \<rparr>) }"

fun sec_emit_bytes :: "u8 list \<Rightarrow> asm_section \<Rightarrow> asm_section option" where
  "sec_emit_bytes [] s = Some s"
| "sec_emit_bytes (v # vs) s = do { s \<leftarrow> sec_emit8 v s; sec_emit_bytes vs s }"

definition sec_emit16 :: "u16 \<Rightarrow> asm_section \<Rightarrow> asm_section option" where
  "sec_emit16 v s =
     sec_emit_bytes (if sec_little_endian s then [ucast v, ucast (drop_bit 8 v)]
                     else [ucast (drop_bit 8 v), ucast v]) s"

definition sec_emit32 :: "u32 \<Rightarrow> asm_section \<Rightarrow> asm_section option" where
  "sec_emit32 v s =
     sec_emit_bytes
       (if sec_little_endian s
        then [ucast v, ucast (drop_bit 8 v), ucast (drop_bit 16 v), ucast (drop_bit 24 v)]
        else [ucast (drop_bit 24 v), ucast (drop_bit 16 v), ucast (drop_bit 8 v), ucast v]) s"

text \<open>
  The number of zero bytes \<open>sec_align\<close> appends: the iterations of its loop. A zero alignment divides
  by zero.
\<close>

function pad_count :: "int \<Rightarrow> int \<Rightarrow> nat" where
  "pad_count len alignment = (if 0 < alignment \<and> len mod alignment \<noteq> 0 then Suc (pad_count (len + 1) alignment) else 0)"
  by pat_completeness auto

termination
proof (relation "measure (\<lambda>(len, al). nat ((- len) mod al))")
  fix len al :: int
  assume h: "0 < al \<and> len mod al \<noteq> 0"
  have pos: "(- len) mod al > 0"
    using h pos_mod_sign [of al "- len"] by (auto simp: zmod_zminus1_eq_if pos_mod_bound)
  have "(- (len + 1)) mod al = ((- len) mod al - 1) mod al" by (simp add: mod_diff_left_eq)
  also have "\<dots> = (- len) mod al - 1"
    using pos conjunct1 [OF h, THEN pos_mod_bound, of "- len"] by (intro mod_pos_pos_trivial) linarith+
  finally have "(- (len + 1)) mod al = (- len) mod al - 1" .
  then show "((len + 1, al), len, al) \<in> measure (\<lambda>(len, al). nat ((- len) mod al))" using pos by simp
qed simp

declare pad_count.simps [simp del]

definition sec_align :: "int \<Rightarrow> asm_section \<Rightarrow> asm_section option" where
  "sec_align alignment s =
     (if alignment = 0 then None else sec_emit_bytes (replicate (pad_count (sec_len s) \<bar>alignment\<bar>) 0) s)"

definition zero_fill :: "nat \<Rightarrow> nat \<Rightarrow> (nat \<Rightarrow> u8) \<Rightarrow> nat \<Rightarrow> u8" where
  "zero_fill from n f = (\<lambda>i. if from \<le> i \<and> i < from + n then 0 else f i)"

definition sec_space :: "int \<Rightarrow> asm_section \<Rightarrow> asm_section option" where
  "sec_space nbytes s =
     (if nbytes \<le> 0 then Some s
      else do { s \<leftarrow> sec_reserve nbytes s;
                Some (s\<lparr> sec_data := zero_fill (nat (sec_len s)) (nat nbytes) (sec_data s), sec_len := sec_len s + nbytes \<rparr>) })"

definition sec_add_reloc_t :: "u32 \<Rightarrow> nat \<Rightarrow> int \<Rightarrow> nat \<Rightarrow> asm_section \<Rightarrow> asm_section" where
  "sec_add_reloc_t off idx addend ty s =
     s\<lparr> sec_relocs := sec_relocs s @ [\<lparr> rl_offset = off, rl_sym_idx = idx, rl_addend = addend, rl_type = ty \<rparr>] \<rparr>"

definition sec_add_reloc :: "u32 \<Rightarrow> nat \<Rightarrow> int \<Rightarrow> asm_section \<Rightarrow> asm_section" where
  "sec_add_reloc off idx addend s = sec_add_reloc_t off idx addend 0 s"

subsection \<open>The symbol table\<close>

fun sym_lookup :: "symtab \<Rightarrow> string \<Rightarrow> nat option" where
  "sym_lookup [] name = None"
| "sym_lookup (y # ys) name = (if sy_name y = name then Some 0 else map_option Suc (sym_lookup ys name))"

definition blank_symbol :: "string \<Rightarrow> symbol" where
  "blank_symbol name =
     \<lparr> sy_name = name, sy_section = - 1, sy_value = 0, sy_global = False, sy_weak = False, sy_defined = False,
       sy_is_func = False, sy_size = 0 \<rparr>"

definition sym_add :: "symtab \<Rightarrow> string \<Rightarrow> nat \<times> symtab" where
  "sym_add st name = (length st, st @ [blank_symbol name])"

text \<open>The idiom of every caller: look the name up, add it when it is new.\<close>

definition sym_intern :: "symtab \<Rightarrow> string \<Rightarrow> nat \<times> symtab" where
  "sym_intern st name = (case sym_lookup st name of Some i \<Rightarrow> (i, st) | None \<Rightarrow> sym_add st name)"

definition sym_update :: "(symbol \<Rightarrow> symbol) \<Rightarrow> nat \<Rightarrow> symtab \<Rightarrow> symtab option" where
  "sym_update f i st = (if i < length st then Some (st[i := f (st ! i)]) else None)"

definition sym_define :: "nat \<Rightarrow> int \<Rightarrow> u32 \<Rightarrow> symtab \<Rightarrow> symtab option" where
  "sym_define i sec v st = sym_update (\<lambda>y. y\<lparr> sy_section := sec, sy_value := v, sy_defined := True \<rparr>) i st"

definition sym_set_global :: "nat \<Rightarrow> symtab \<Rightarrow> symtab option" where
  "sym_set_global i st = sym_update (\<lambda>y. y\<lparr> sy_global := True \<rparr>) i st"

definition sym_set_weak :: "nat \<Rightarrow> symtab \<Rightarrow> symtab option" where
  "sym_set_weak i st = sym_update (\<lambda>y. y\<lparr> sy_global := True, sy_weak := True \<rparr>) i st"

definition sym_set_func :: "nat \<Rightarrow> symtab \<Rightarrow> symtab option" where
  "sym_set_func i st = sym_update (\<lambda>y. y\<lparr> sy_is_func := True \<rparr>) i st"

definition sym_set_size :: "nat \<Rightarrow> u32 \<Rightarrow> symtab \<Rightarrow> symtab option" where
  "sym_set_size i n st = sym_update (\<lambda>y. y\<lparr> sy_size := n \<rparr>) i st"

subsection \<open>Interning and defining\<close>

lemma sym_lookup_Some: "sym_lookup st name = Some i \<Longrightarrow> i < length st \<and> sy_name (st ! i) = name"
  by (induction st arbitrary: i) (auto split: if_splits)

lemma sym_intern_index:
  "fst (sym_intern st name) < length (snd (sym_intern st name))"
  "sy_name (snd (sym_intern st name) ! fst (sym_intern st name)) = name"
  by (auto simp: sym_intern_def sym_add_def blank_symbol_def split: option.split dest!: sym_lookup_Some)

text \<open>The labels a table holds: name, section and offset of each defined symbol.\<close>

definition defined_labels :: "symtab \<Rightarrow> (string \<times> int \<times> u32) set" where
  "defined_labels st = (\<lambda>y. (sy_name y, sy_section y, sy_value y)) ` {y \<in> set st. sy_defined y}"

lemma intern_labels [simp]: "defined_labels (snd (sym_intern st name)) = defined_labels st"
  by (auto simp: defined_labels_def sym_intern_def sym_add_def blank_symbol_def split: option.split)

lemma image_update:
  assumes "i < length xs" "g (f (xs ! i)) = g (xs ! i)" "P (f (xs ! i)) = P (xs ! i)"
  shows "g ` {y \<in> set (xs[i := f (xs ! i)]). P y} = g ` {y \<in> set xs. P y}"
proof -
  have u: "set (xs[i := f (xs ! i)]) = insert (f (xs ! i)) (set (take i xs) \<union> set (drop (Suc i) xs))"
    using assms(1) by (auto simp: upd_conv_take_nth_drop)
  have split: "{y \<in> insert a A. P y} = (if P a then insert a {y \<in> A. P y} else {y \<in> A. P y})" for a A by auto
  have "set xs = insert (xs ! i) (set (take i xs) \<union> set (drop (Suc i) xs))"
    using arg_cong [OF id_take_nth_drop [OF assms(1)], of set] by auto
  then show ?thesis using assms(2,3) by (simp only: u split) simp
qed

lemma update_labels:
  assumes "sym_update f i st = Some st'"
    and "\<And>y. sy_name (f y) = sy_name y \<and> sy_section (f y) = sy_section y \<and> sy_value (f y) = sy_value y \<and> sy_defined (f y) = sy_defined y"
  shows "defined_labels st' = defined_labels st"
  using assms image_update [of i st "\<lambda>y. (sy_name y, sy_section y, sy_value y)" f sy_defined]
  by (auto simp: sym_update_def defined_labels_def split: if_splits)

lemma flag_labels:
  "sym_set_global i st = Some st' \<Longrightarrow> defined_labels st' = defined_labels st"
  "sym_set_weak i st = Some st' \<Longrightarrow> defined_labels st' = defined_labels st"
  "sym_set_func i st = Some st' \<Longrightarrow> defined_labels st' = defined_labels st"
  "sym_set_size i n st = Some st' \<Longrightarrow> defined_labels st' = defined_labels st"
  unfolding sym_set_global_def sym_set_weak_def sym_set_func_def sym_set_size_def by (auto elim!: update_labels)

lemma define_labels:
  assumes "sym_define i sec v st = Some st'" "i < length st"
  shows "defined_labels st' \<subseteq> insert (sy_name (st ! i), sec, v) (defined_labels st)"
proof
  fix l
  assume "l \<in> defined_labels st'"
  then obtain y where y: "y \<in> set st'" "sy_defined y" "l = (sy_name y, sy_section y, sy_value y)" by (auto simp: defined_labels_def)
  have "y = (st ! i)\<lparr> sy_section := sec, sy_value := v, sy_defined := True \<rparr> \<or> y \<in> set st"
    using y(1) assms set_update_subset_insert [of st i "(st ! i)\<lparr> sy_section := sec, sy_value := v, sy_defined := True \<rparr>"]
    by (auto simp: sym_define_def sym_update_def)
  then show "l \<in> insert (sy_name (st ! i), sec, v) (defined_labels st)" using y(2,3) by (auto simp: defined_labels_def)
qed

end
