(* ===== verification/Asm_Lex.thy ===== *)
theory Asm_Lex
  imports Prelude
begin

text \<open>
  The tokenizer the assemblers share (\<^verbatim>\<open>as/asm_lex.c\<close>). A pointer into the source is the rest of the
  source from there on, so \<open>*l->pos\<close> is its first character, or NUL when it is empty. Reading the
  file of an \<open>.include\<close> is host I/O and stays outside; the stack of saved positions it fills is a
  field of the lexer, and \<open>lex_next\<close> pops it. The scratch buffer of string tokens is folded into the
  token: its characters are the token's text.
\<close>

unbundle bit_operations_syntax

subsection \<open>Tokens and the lexer state\<close>

datatype token_type =
    T_IDENT | T_DOT_IDENT | T_INT | T_STRING | T_HASH | T_COMMA | T_COLON | T_LPAREN | T_RPAREN
  | T_MINUS | T_PLUS | T_RELOC | T_NEWLINE | T_EOF | T_LBRACKET | T_RBRACKET | T_STAR | T_EQUAL | T_AT

record token =
  tk_type :: token_type
  tk_line :: int
  tk_str :: string
  tk_ival :: int

record lex_frame =
  lf_src :: string
  lf_pos :: string
  lf_line :: int

record lexer =
  lx_src :: string
  lx_pos :: string
  lx_line :: int
  lx_tok :: token
  lx_comment_ch :: char
  lx_reloc_pct :: bool
  lx_dollar_reg :: bool
  lx_base_src :: string
  lx_inc :: "lex_frame list"

definition blank_token :: token where
  "blank_token = \<lparr> tk_type = T_NEWLINE, tk_line = 0, tk_str = [], tk_ival = 0 \<rparr>"

definition lex_init :: "string \<Rightarrow> char \<Rightarrow> bool \<Rightarrow> lexer" where
  "lex_init src comment_ch reloc_pct =
     \<lparr> lx_src = src, lx_pos = src, lx_line = 1, lx_tok = blank_token, lx_comment_ch = comment_ch,
       lx_reloc_pct = reloc_pct, lx_dollar_reg = False, lx_base_src = src, lx_inc = [] \<rparr>"

definition set_type :: "token_type \<Rightarrow> lexer \<Rightarrow> lexer" where
  "set_type ty l = l\<lparr> lx_tok := (lx_tok l)\<lparr> tk_type := ty \<rparr> \<rparr>"

definition lex_rewind :: "lexer \<Rightarrow> lexer" where
  "lex_rewind l =
     set_type T_NEWLINE
       (l\<lparr> lx_src := lx_base_src l, lx_pos := lx_base_src l, lx_line := 1, lx_inc := [] \<rparr>)"

definition tok_type :: "lexer \<Rightarrow> token_type" where
  "tok_type l = tk_type (lx_tok l)"

abbreviation (input) tok_str :: "lexer \<Rightarrow> string" where "tok_str l \<equiv> tk_str (lx_tok l)"
abbreviation (input) tok_ival :: "lexer \<Rightarrow> int" where "tok_ival l \<equiv> tk_ival (lx_tok l)"

text \<open>A token with text, a number, or neither; what the token does not carry keeps its old value.\<close>

definition str_tok :: "token_type \<Rightarrow> string \<Rightarrow> string \<Rightarrow> lexer \<Rightarrow> lexer" where
  "str_tok ty s rest l = l\<lparr> lx_pos := rest, lx_tok := (lx_tok l)\<lparr> tk_type := ty, tk_str := s \<rparr> \<rparr>"

definition int_tok :: "int \<times> string \<Rightarrow> lexer \<Rightarrow> lexer" where
  "int_tok r l = l\<lparr> lx_pos := snd r, lx_tok := (lx_tok l)\<lparr> tk_type := T_INT, tk_ival := fst r \<rparr> \<rparr>"

definition plain_tok :: "token_type \<Rightarrow> string \<Rightarrow> lexer \<Rightarrow> lexer" where
  "plain_tok ty rest l = set_type ty (l\<lparr> lx_pos := rest \<rparr>)"

subsection \<open>Characters and numbers\<close>

definition is_digit :: "char \<Rightarrow> bool" where
  "is_digit c \<longleftrightarrow> CHR ''0'' = c \<or> c \<in> set ''123456789''"

definition is_alpha :: "char \<Rightarrow> bool" where
  "is_alpha c \<longleftrightarrow> c \<in> set ''abcdefghijklmnopqrstuvwxyzABCDEFGHIJKLMNOPQRSTUVWXYZ''"

definition is_ident_char :: "char \<Rightarrow> bool" where
  "is_ident_char c \<longleftrightarrow> is_alpha c \<or> is_digit c \<or> c = CHR ''_''"

definition char_code :: "char \<Rightarrow> int" where
  "char_code c = of_char c"

text \<open>The value of a digit in a base up to 16, as \<open>strtoull\<close> reads it.\<close>

definition digit_val :: "int \<Rightarrow> char \<Rightarrow> int option" where
  "digit_val base c =
     (let n = char_code c;
          d = (if 48 \<le> n \<and> n \<le> 57 then n - 48
               else if 97 \<le> n \<and> n \<le> 122 then n - 87
               else if 65 \<le> n \<and> n \<le> 90 then n - 55 else 36)
      in if d < base then Some d else None)"

definition digits :: "int \<Rightarrow> string \<Rightarrow> int" where
  "digits base s = foldl (\<lambda>v c. base * v + (case digit_val base c of Some d \<Rightarrow> d | None \<Rightarrow> 0)) 0 s"

text \<open>\<open>strtoull\<close> on text that starts with a digit: the clamped value and the rest.\<close>

definition strtoull :: "int \<Rightarrow> string \<Rightarrow> int \<times> string" where
  "strtoull base s =
     (let ds = takeWhile (\<lambda>c. digit_val base c \<noteq> None) s
      in (min (digits base ds) (2 ^ 64 - 1), drop (length ds) s))"

text \<open>\<open>(long)\<close> of an unsigned 64-bit value.\<close>

definition long_of :: "int \<Rightarrow> int" where
  "long_of n = signed_take_bit 63 n"

subsection \<open>Token scanners\<close>

definition skip_blanks :: "string \<Rightarrow> string" where
  "skip_blanks s = dropWhile (\<lambda>c. c = CHR '' '' \<or> c = CHR 0x09) s"

definition skip_line_comment :: "string \<Rightarrow> string" where
  "skip_line_comment s = dropWhile (\<lambda>c. c \<noteq> CHR 0x0A) s"

fun skip_block :: "string \<Rightarrow> int \<Rightarrow> string \<times> int" where
  "skip_block (c # d # s) line =
     (if c = CHR ''*'' \<and> d = CHR ''/'' then (s, line)
      else skip_block (d # s) (if c = CHR 0x0A then line + 1 else line))"
| "skip_block [c] line = ([], if c = CHR 0x0A then line + 1 else line)"
| "skip_block [] line = ([], line)"

definition is_octal :: "char \<Rightarrow> bool" where
  "is_octal c \<longleftrightarrow> digit_val 8 c \<noteq> None"

text \<open>Up to three octal digits, truncated to a character.\<close>

definition octal_prefix :: "string \<Rightarrow> string" where
  "octal_prefix s = takeWhile is_octal (take 3 s)"

definition simple_escape :: "char \<Rightarrow> char" where
  "simple_escape c =
     (if c = CHR ''n'' then CHR 0x0A
      else if c = CHR ''t'' then CHR 0x09
      else if c = CHR ''r'' then CHR 0x0D
      else c)"

text \<open>The body of a string literal after the opening quote, and what follows the literal.\<close>

function (sequential) lex_string :: "string \<Rightarrow> string \<times> string" where
  "lex_string [] = ([], [])"
| "lex_string (c # s) =
     (if c = CHR 0x22 then ([], s)
      else if c = CHR 0x5C then
        (case s of
           [] \<Rightarrow> ([], [])
         | d # s' \<Rightarrow>
             if is_octal d then
               (let ds = octal_prefix s; (t, rest) = lex_string (drop (length ds) s)
                in (char_of (digits 8 ds) # t, rest))
             else (let (t, rest) = lex_string s' in (simple_escape d # t, rest)))
      else (let (t, rest) = lex_string s in (c # t, rest)))"
  by pat_completeness auto

termination by (relation "measure length") auto

definition ident_span :: "bool \<Rightarrow> string \<Rightarrow> string" where
  "ident_span dollar_reg s =
     takeWhile (\<lambda>c. is_ident_char c \<or> c = CHR ''.'' \<or> c = CHR ''$'' \<and> \<not> dollar_reg) s"

definition lex_ident :: "bool \<Rightarrow> string \<Rightarrow> lexer \<Rightarrow> lexer" where
  "lex_ident dot_prefix s l =
     (let id = ident_span (lx_dollar_reg l) s
      in str_tok (if dot_prefix then T_DOT_IDENT else T_IDENT)
           (if dot_prefix then CHR ''.'' # id else id) (drop (length id) s) l)"

definition lex_number :: "string \<Rightarrow> int \<times> string" where
  "lex_number s =
     (let hex = (2 < length s \<and> s ! 0 = CHR ''0'' \<and> (s ! 1 = CHR ''x'' \<or> s ! 1 = CHR ''X'') \<and> digit_val 16 (s ! 2) \<noteq> None);
          (v, rest) = (if hex then strtoull 16 (drop 2 s) else strtoull 10 s)
      in (long_of v, rest))"

definition char_escape :: "char \<Rightarrow> int" where
  "char_escape c =
     (if c = CHR ''n'' then 10 else if c = CHR ''t'' then 9 else if c = CHR ''r'' then 13
      else if c = CHR ''0'' then 0 else if c = CHR ''b'' then 8 else if c = CHR ''f'' then 12
      else if c = CHR ''v'' then 11 else if c = CHR ''a'' then 7 else char_code c)"

definition skip_quote :: "string \<Rightarrow> string" where
  "skip_quote s = (case s of c # s' \<Rightarrow> if c = CHR 0x27 then s' else s | [] \<Rightarrow> [])"

text \<open>A character constant after its opening quote.\<close>

definition lex_char :: "string \<Rightarrow> int \<times> string" where
  "lex_char s =
     (case s of
        [] \<Rightarrow> (0, [])
      | c # s1 \<Rightarrow>
          if c = CHR 0x5C then
            (case s1 of [] \<Rightarrow> (0, []) | d # s2 \<Rightarrow> (char_escape d, skip_quote s2))
          else (char_code c, skip_quote s1))"

definition punct :: "char \<Rightarrow> token_type option" where
  "punct c =
     (if c = CHR ''#'' then Some T_HASH else if c = CHR '','' then Some T_COMMA
      else if c = CHR '':'' then Some T_COLON else if c = CHR ''('' then Some T_LPAREN
      else if c = CHR '')'' then Some T_RPAREN else if c = CHR ''['' then Some T_LBRACKET
      else if c = CHR '']'' then Some T_RBRACKET else if c = CHR ''*'' then Some T_STAR
      else if c = CHR ''='' then Some T_EQUAL else if c = CHR ''@'' then Some T_AT
      else if c = CHR ''-'' then Some T_MINUS else if c = CHR ''+'' then Some T_PLUS else None)"

subsection \<open>The next token\<close>

text \<open>What the loop of \<open>lex_next\<close> does at one character: a token, or another iteration.\<close>

datatype scan_result = Token lexer | Again lexer

definition next_is :: "(char \<Rightarrow> bool) \<Rightarrow> string \<Rightarrow> bool" where
  "next_is P s = (case s of [] \<Rightarrow> False | c # _ \<Rightarrow> P c)"

text \<open>A number, unless it turns out to be a numeric label reference like \<open>1f\<close>.\<close>

definition lex_digit :: "string \<Rightarrow> lexer \<Rightarrow> lexer" where
  "lex_digit s l =
     (let (v, rest) = lex_number s in
      if next_is (\<lambda>c. c = CHR ''b'' \<or> c = CHR ''f'') rest \<and> \<not> next_is is_ident_char (tl rest)
      then lex_ident False s l else int_tok (v, rest) l)"

definition scan_char :: "char \<Rightarrow> string \<Rightarrow> lexer \<Rightarrow> scan_result" where
  "scan_char c s l =
     (if c = CHR 0x0A then Token (plain_tok T_NEWLINE s (l\<lparr> lx_line := lx_line l + 1 \<rparr>))
      else if c = lx_comment_ch l then Again (l\<lparr> lx_pos := skip_line_comment (c # s) \<rparr>)
      else if c = CHR ''/'' \<and> next_is (\<lambda>d. d = CHR ''/'') s then Again (l\<lparr> lx_pos := skip_line_comment (c # s) \<rparr>)
      else if c = CHR ''/'' \<and> next_is (\<lambda>d. d = CHR ''*'') s then
        (let (rest, line) = skip_block (tl s) (lx_line l) in Again (l\<lparr> lx_pos := rest, lx_line := line \<rparr>))
      else if c = CHR 0x22 then (let (t, rest) = lex_string s in Token (str_tok T_STRING t rest l))
      else if c = CHR ''.'' then
        Token (if next_is is_ident_char s then lex_ident True s l else str_tok T_DOT_IDENT ''.'' s l)
      else if is_alpha c \<or> c = CHR ''_'' then Token (lex_ident False (c # s) l)
      else if is_digit c then Token (lex_digit (c # s) l)
      else if lx_dollar_reg l \<and> c = CHR ''$'' then
        (let id = takeWhile is_ident_char s in Token (str_tok T_IDENT (c # id) (drop (length id) s) l))
      else if c = CHR 0x27 then Token (int_tok (lex_char s) l)
      else if c = CHR ''%'' then
        Token (let l1 = lex_ident False s l in if lx_reloc_pct l then set_type T_RELOC l1 else l1)
      else (case punct c of Some ty \<Rightarrow> Token (plain_tok ty s l) | None \<Rightarrow> Again (l\<lparr> lx_pos := s \<rparr>)))"

definition pending :: "lexer \<Rightarrow> nat" where
  "pending l = length (lx_pos l) + (\<Sum>f\<leftarrow>lx_inc l. Suc (length (lf_pos f)))"

lemma skip_block_shorter: "length (fst (skip_block s line)) \<le> length s"
  by (induction s line rule: skip_block.induct) auto

lemma scan_char_Again:
  assumes "scan_char c s l = Again l'"
  shows "length (lx_pos l') \<le> length s" "lx_inc l' = lx_inc l"
proof -
  have d: "length (skip_line_comment (c # s)) \<le> length s" if "c \<noteq> CHR 0x0A"
    using that by (simp add: skip_line_comment_def length_dropWhile_le)
  show "length (lx_pos l') \<le> length s" "lx_inc l' = lx_inc l"
    using assms d skip_block_shorter [of "tl s" "lx_line l"]
    by (auto simp: scan_char_def Let_def split: if_splits prod.splits option.splits)
qed

function lex_next :: "lexer \<Rightarrow> lexer" where
  "lex_next l =
     (let s = skip_blanks (lx_pos l);
          l = l\<lparr> lx_pos := s, lx_tok := (lx_tok l)\<lparr> tk_line := lx_line l \<rparr> \<rparr>
      in case s of
           [] \<Rightarrow>
             (case lx_inc l of
                [] \<Rightarrow> set_type T_EOF l
              | f # fs \<Rightarrow> lex_next (l\<lparr> lx_src := lf_src f, lx_pos := lf_pos f, lx_line := lf_line f, lx_inc := fs \<rparr>))
         | c # s' \<Rightarrow> (case scan_char c s' l of Token l' \<Rightarrow> l' | Again l' \<Rightarrow> lex_next l'))"
  by pat_completeness auto

termination
proof (relation "measure pending")
  fix l l1 :: lexer and s f fs
  assume h: "s = skip_blanks (lx_pos l)"
    "l1 = l\<lparr> lx_pos := s, lx_tok := (lx_tok l)\<lparr> tk_line := lx_line l \<rparr> \<rparr>" "lx_inc l1 = f # fs"
  then show "(l1\<lparr> lx_src := lf_src f, lx_pos := lf_pos f, lx_line := lf_line f, lx_inc := fs \<rparr>, l) \<in> measure pending"
    by (simp add: pending_def)
next
  fix l l1 l' :: lexer and s c s'
  assume h: "s = skip_blanks (lx_pos l)"
    "l1 = l\<lparr> lx_pos := s, lx_tok := (lx_tok l)\<lparr> tk_line := lx_line l \<rparr> \<rparr>" "s = c # s'" "scan_char c s' l1 = Again l'"
  have "length s \<le> length (lx_pos l)" using h(1) by (simp add: skip_blanks_def length_dropWhile_le)
  then show "(l', l) \<in> measure pending"
    using scan_char_Again [OF h(4)] h(2,3) by (simp add: pending_def)
qed simp

declare lex_next.simps [simp del]

subsection \<open>Progress\<close>

lemma lex_string_shorter: "length (snd (lex_string s)) \<le> length s"
proof (induction s rule: lex_string.induct)
  case (2 c s)
  show ?case
  proof (cases "c = CHR 0x5C \<and> s \<noteq> []")
    case True
    then obtain d s' where s: "s = d # s'" by (cases s) auto
    have n: "length (drop (length (octal_prefix s)) s) \<le> length s" by simp
    show ?thesis
      using True s 2(1) [of d s' "octal_prefix s"] 2(2) [of d s']
      by (auto simp: Let_def split: prod.split)
  next
    case False
    then show ?thesis using 2(3) by (cases s) (auto split: prod.split)
  qed
qed simp

lemma digit_is_ident: "is_digit c \<Longrightarrow> is_ident_char c"
  by (simp add: is_ident_char_def)

lemma digit_has_val: "is_digit c \<Longrightarrow> digit_val 10 c \<noteq> None"
  by (auto simp: is_digit_def digit_val_def char_code_def)

lemma lex_ident_pos: "length (lx_pos (lex_ident b s l)) = length s - length (ident_span (lx_dollar_reg l) s)"
  by (simp add: lex_ident_def str_tok_def Let_def)

lemma ident_span_Cons: "is_ident_char c \<Longrightarrow> length (ident_span d (c # s)) \<ge> 1"
  by (simp add: ident_span_def)

lemma lex_number_pos: "is_digit c \<Longrightarrow> length (snd (lex_number (c # s))) \<le> length s"
  using digit_has_val [of c] by (auto simp: lex_number_def strtoull_def Let_def nth_Cons')

lemma lex_char_pos: "length (snd (lex_char s)) \<le> length s"
  by (auto simp: lex_char_def skip_quote_def split: list.split)

lemma token_updates [simp]:
  "lx_inc (str_tok ty t rest l) = lx_inc l" "lx_inc (int_tok r l) = lx_inc l" "lx_inc (plain_tok ty rest l) = lx_inc l"
  "lx_inc (set_type ty l) = lx_inc l" "lx_inc (lex_ident b s l) = lx_inc l"
  "lx_pos (str_tok ty t rest l) = rest" "lx_pos (int_tok r l) = snd r" "lx_pos (plain_tok ty rest l) = rest"
  "lx_pos (set_type ty l) = lx_pos l"
  by (simp_all add: str_tok_def int_tok_def plain_tok_def set_type_def lex_ident_def Let_def)

lemma lex_digit_pos:
  assumes "is_digit c"
  shows "length (lx_pos (lex_digit (c # s) l)) \<le> length s" "lx_inc (lex_digit (c # s) l) = lx_inc l"
  using lex_number_pos [OF assms, of s] ident_span_Cons [OF digit_is_ident [OF assms], of "lx_dollar_reg l" s]
  by (auto simp: lex_digit_def lex_ident_pos Let_def split: prod.split)

definition consumed :: "string \<Rightarrow> lexer \<Rightarrow> scan_result \<Rightarrow> bool" where
  "consumed s l r \<longleftrightarrow>
     (case r of Token l' \<Rightarrow> length (lx_pos l') \<le> length s \<and> lx_inc l' = lx_inc l | Again _ \<Rightarrow> True)"

lemma consumed_if: "(b \<Longrightarrow> consumed s l x) \<Longrightarrow> (\<not> b \<Longrightarrow> consumed s l y) \<Longrightarrow> consumed s l (if b then x else y)"
  by simp

lemma scan_char_consumed: "consumed s l (scan_char c s l)"
proof -
  have i: "length (lx_pos (lex_ident False (c # s) l)) \<le> length s" if "is_alpha c \<or> c = CHR ''_''"
    using ident_span_Cons [of c "lx_dollar_reg l" s] that by (auto simp: lex_ident_pos is_ident_char_def)
  note pos = lex_string_shorter [of s] lex_char_pos [of s] i lex_digit_pos [of c s l]
  show ?thesis
    unfolding scan_char_def
    by (intro consumed_if)
      (use pos in \<open>simp_all add: consumed_def lex_ident_pos Let_def case_prod_unfold split: option.split\<close>)
qed

lemma scan_char_Token: "scan_char c s l = Token l' \<Longrightarrow> length (lx_pos l') \<le> length s \<and> lx_inc l' = lx_inc l"
  using scan_char_consumed [of s l c] by (simp add: consumed_def)

lemma lex_next_progress: "tok_type (lex_next l) = T_EOF \<and> pending (lex_next l) \<le> pending l \<or> pending (lex_next l) < pending l"
proof (induction l rule: lex_next.induct)
  case (1 l)
  let ?s = "skip_blanks (lx_pos l)"
  let ?l = "l\<lparr> lx_pos := ?s, lx_tok := (lx_tok l)\<lparr> tk_line := lx_line l \<rparr> \<rparr>"
  have le: "length ?s \<le> length (lx_pos l)" by (simp add: skip_blanks_def length_dropWhile_le)
  show ?case
  proof (cases ?s)
    case s: Nil
    show ?thesis
    proof (cases "lx_inc l")
      case Nil
      then have "lex_next l = set_type T_EOF ?l" using s by (subst lex_next.simps) (simp add: Let_def)
      then show ?thesis using Nil s by (simp add: tok_type_def set_type_def pending_def)
    next
      case (Cons f fs)
      then have "lex_next l = lex_next (?l\<lparr> lx_src := lf_src f, lx_pos := lf_pos f, lx_line := lf_line f, lx_inc := fs \<rparr>)"
        using s by (subst lex_next.simps) (simp add: Let_def)
      then show ?thesis using 1(1) [OF refl refl s, of f fs] Cons s by (auto simp: pending_def)
    qed
  next
    case s: (Cons c s')
    show ?thesis
    proof (cases "scan_char c s' ?l")
      case (Token l')
      then have "lex_next l = l'" using s by (subst lex_next.simps) (simp add: Let_def)
      then show ?thesis using scan_char_Token [OF Token] s le by (auto simp: pending_def)
    next
      case (Again l')
      then have "lex_next l = lex_next l'" using s by (subst lex_next.simps) (simp add: Let_def)
      then show ?thesis using 1(2) [OF refl refl s Again] scan_char_Again [OF Again] s le by (auto simp: pending_def)
    qed
  qed
qed

end
