(* ===== verification/Mips_Encode.thy ===== *)
theory Mips_Encode
  imports Asm_Obj Asm_Lex
begin

text \<open>
  The MIPS I instruction encoder (\<^verbatim>\<open>as/mips_encode.c\<close>) over the assembler state of \<^verbatim>\<open>as/mips.h\<close>.
  An encoder that only produces a word is a function to \<open>u32 option\<close>, where \<open>None\<close> is its return
  value -1 and a word its return value 4. An encoder that emits returns the new state and the C
  return value; there \<open>None\<close> is \<open>die()\<close>. The operand array and its count are a list.
\<close>

unbundle bit_operations_syntax

subsection \<open>Operands and the assembler state\<close>

abbreviation (input) R_MIPS_NONE :: nat where "R_MIPS_NONE \<equiv> 0"
abbreviation (input) R_MIPS_16 :: nat where "R_MIPS_16 \<equiv> 1"
abbreviation (input) R_MIPS_32 :: nat where "R_MIPS_32 \<equiv> 2"
abbreviation (input) R_MIPS_26 :: nat where "R_MIPS_26 \<equiv> 4"
abbreviation (input) R_MIPS_HI16 :: nat where "R_MIPS_HI16 \<equiv> 5"
abbreviation (input) R_MIPS_LO16 :: nat where "R_MIPS_LO16 \<equiv> 6"
abbreviation (input) R_MIPS_PC16 :: nat where "R_MIPS_PC16 \<equiv> 10"

datatype mips_reloc_op = MRELOC_OP_NONE | MRELOC_OP_HI | MRELOC_OP_LO

datatype mips_op_kind = MO_NONE | MO_REG | MO_FREG | MO_IMM | MO_SYM | MO_MEM

record mips_operand =
  mo_kind :: mips_op_kind
  mo_reg :: int
  mo_imm :: int
  mo_sym :: "string option"
  mo_reloc_op :: mips_reloc_op

abbreviation (input) MSEC_TEXT :: nat where "MSEC_TEXT \<equiv> 0"
abbreviation (input) MSEC_DATA :: nat where "MSEC_DATA \<equiv> 1"
abbreviation (input) MSEC_RODATA :: nat where "MSEC_RODATA \<equiv> 2"
abbreviation (input) MSEC_BSS :: nat where "MSEC_BSS \<equiv> 3"
abbreviation (input) MSEC_COUNT :: nat where "MSEC_COUNT \<equiv> 7"

record mips_asm =
  ma_lex :: lexer
  ma_sections :: "nat \<Rightarrow> asm_section"
  ma_cur_section :: nat
  ma_st :: symtab
  ma_pass :: nat
  ma_numlabels :: "(int \<times> int) list"
  ma_debug_file :: "string option"
  ma_locrows :: "(u32 \<times> int) list"

subsection \<open>Register names\<close>

definition mips_abi_names :: "string list" where
  "mips_abi_names =
     [''$zero'', ''$at'', ''$v0'', ''$v1'', ''$a0'', ''$a1'', ''$a2'', ''$a3'',
      ''$t0'', ''$t1'', ''$t2'', ''$t3'', ''$t4'', ''$t5'', ''$t6'', ''$t7'',
      ''$s0'', ''$s1'', ''$s2'', ''$s3'', ''$s4'', ''$s5'', ''$s6'', ''$s7'',
      ''$t8'', ''$t9'', ''$k0'', ''$k1'', ''$gp'', ''$sp'', ''$fp'', ''$ra'']"

fun name_index :: "string list \<Rightarrow> string \<Rightarrow> nat option" where
  "name_index [] s = None"
| "name_index (x # xs) s = (if x = s then Some 0 else map_option Suc (name_index xs s))"

text \<open>\<open>strtol\<close> over the whole text, for text that starts with a digit.\<close>

definition reg_number :: "string \<Rightarrow> int option" where
  "reg_number s =
     (if next_is is_digit s \<and> list_all is_digit s \<and> digits 10 s < 32 then Some (digits 10 s) else None)"

definition mips_ireg :: "string \<Rightarrow> int option" where
  "mips_ireg name =
     (if \<not> next_is (\<lambda>c. c = CHR ''$'') name then None
      else case name_index mips_abi_names name of
             Some k \<Rightarrow> Some (int k)
           | None \<Rightarrow> if name = ''$s8'' then Some 30 else reg_number (tl name))"

definition mips_freg :: "string \<Rightarrow> int option" where
  "mips_freg name =
     (case name of c # d # s \<Rightarrow> if c = CHR ''$'' \<and> d = CHR ''f'' then reg_number s else None | _ \<Rightarrow> None)"

subsection \<open>Field packers\<close>

definition enc_r :: "int \<Rightarrow> int \<Rightarrow> int \<Rightarrow> int \<Rightarrow> int \<Rightarrow> int \<Rightarrow> u32" where
  "enc_r op rs rt rd shamt funct =
     push_bit 26 (word_of_int op AND 63) OR push_bit 21 (word_of_int rs AND 31) OR
     push_bit 16 (word_of_int rt AND 31) OR push_bit 11 (word_of_int rd AND 31) OR
     push_bit 6 (word_of_int shamt AND 31) OR (word_of_int funct AND 63)"

definition enc_i :: "int \<Rightarrow> int \<Rightarrow> int \<Rightarrow> int \<Rightarrow> u32" where
  "enc_i op rs rt imm =
     push_bit 26 (word_of_int op AND 63) OR push_bit 21 (word_of_int rs AND 31) OR
     push_bit 16 (word_of_int rt AND 31) OR (word_of_int imm AND 0xFFFF)"

definition enc_j :: "int \<Rightarrow> u32 \<Rightarrow> u32" where
  "enc_j op target = push_bit 26 (word_of_int op AND 63) OR (target AND 0x3FFFFFF)"

subsection \<open>Emission and relocations\<close>

definition cur :: "mips_asm \<Rightarrow> asm_section" where
  "cur a = ma_sections a (ma_cur_section a)"

definition set_cur :: "asm_section \<Rightarrow> mips_asm \<Rightarrow> mips_asm" where
  "set_cur s a = a\<lparr> ma_sections := (ma_sections a)(ma_cur_section a := s) \<rparr>"

definition emit_word :: "u32 \<Rightarrow> mips_asm \<Rightarrow> mips_asm option" where
  "emit_word w a = do { s \<leftarrow> sec_emit32 w (cur a); Some (set_cur s a) }"

fun emit_words :: "u32 list \<Rightarrow> mips_asm \<Rightarrow> mips_asm option" where
  "emit_words [] a = Some a"
| "emit_words (w # ws) a = do { a \<leftarrow> emit_word w a; emit_words ws a }"

definition here :: "mips_asm \<Rightarrow> u32" where
  "here a = word_of_int (sec_len (cur a))"

definition reloc_sym :: "u32 \<Rightarrow> string \<Rightarrow> int \<Rightarrow> nat \<Rightarrow> mips_asm \<Rightarrow> mips_asm" where
  "reloc_sym off name addend ty a =
     (let (idx, st) = sym_intern (ma_st a) name
      in set_cur (sec_add_reloc_t off idx addend ty (cur a)) (a\<lparr> ma_st := st \<rparr>))"

text \<open>
  The displacement in words from the delay slot. The subtraction is on \<open>int32_t\<close>, where overflow is
  undefined; the shift of a negative value rounds down.
\<close>

definition branch_disp :: "string \<Rightarrow> u32 \<Rightarrow> mips_asm \<Rightarrow> (mips_asm \<times> int) option" where
  "branch_disp target at a =
     (let found = (case sym_lookup (ma_st a) target of
                     None \<Rightarrow> None
                   | Some i \<Rightarrow> let y = ma_st a ! i in
                       if sy_defined y \<and> sy_section y = int (ma_cur_section a) then Some y else None)
      in case found of
           None \<Rightarrow> Some (reloc_sym at target 0 R_MIPS_PC16 a, - 1)
         | Some y \<Rightarrow>
             let d = sint (sy_value y) - sint (at + 4); disp = d div 4 in
             if d < - 2147483648 \<or> d > INT_MAX then None
             else if disp < - 32768 \<or> disp > 32767 then None
             else Some (a, disp))"

definition jump_target :: "string \<Rightarrow> u32 \<Rightarrow> mips_asm \<Rightarrow> mips_asm \<times> u32" where
  "jump_target target at a = (reloc_sym at target 0 R_MIPS_26 a, 0)"

subsection \<open>Operand accessors\<close>

definition is_reg :: "mips_operand \<Rightarrow> bool" where "is_reg o1 \<longleftrightarrow> mo_kind o1 = MO_REG"
definition is_freg :: "mips_operand \<Rightarrow> bool" where "is_freg o1 \<longleftrightarrow> mo_kind o1 = MO_FREG"
definition is_imm :: "mips_operand \<Rightarrow> bool" where "is_imm o1 \<longleftrightarrow> mo_kind o1 = MO_IMM"
definition is_mem :: "mips_operand \<Rightarrow> bool" where "is_mem o1 \<longleftrightarrow> mo_kind o1 = MO_MEM"

definition sym_target :: "mips_operand \<Rightarrow> string option" where
  "sym_target o1 = (if mo_kind o1 \<in> {MO_SYM, MO_REG, MO_FREG} then mo_sym o1 else None)"

text \<open>An encoder's result: the new state and its C return value; \<open>skip\<close> is the return of -1.\<close>

type_synonym enc_result = "(mips_asm \<times> int) option"

definition skip :: "mips_asm \<Rightarrow> enc_result" where "skip a = Some (a, - 1)"

definition emits :: "int \<Rightarrow> mips_asm option \<Rightarrow> enc_result" where
  "emits n r = map_option (\<lambda>a. (a, n)) r"

subsection \<open>Integer encoders\<close>

definition rrr_funct :: "string \<Rightarrow> int option" where
  "rrr_funct m =
     (if m = ''addu'' then Some 0x21 else if m = ''subu'' then Some 0x23
      else if m = ''add'' then Some 0x20 else if m = ''sub'' then Some 0x22
      else if m = ''and'' then Some 0x24 else if m = ''or'' then Some 0x25
      else if m = ''xor'' then Some 0x26 else if m = ''nor'' then Some 0x27
      else if m = ''slt'' then Some 0x2a else if m = ''sltu'' then Some 0x2b else None)"

definition enc_rrr :: "string \<Rightarrow> mips_operand list \<Rightarrow> u32 option" where
  "enc_rrr m ops =
     (case ops of
        [d, s, t] \<Rightarrow>
          if is_reg d \<and> is_reg s \<and> is_reg t
          then map_option (\<lambda>f. enc_r 0 (mo_reg s) (mo_reg t) (mo_reg d) 0 f) (rrr_funct m) else None
      | _ \<Rightarrow> None)"

definition shiftv_funct :: "string \<Rightarrow> int option" where
  "shiftv_funct m =
     (if m = ''sllv'' then Some 0x04 else if m = ''srlv'' then Some 0x06
      else if m = ''srav'' then Some 0x07 else None)"

definition enc_shiftv :: "string \<Rightarrow> mips_operand list \<Rightarrow> u32 option" where
  "enc_shiftv m ops =
     (case ops of
        [d, t, s] \<Rightarrow>
          if is_reg d \<and> is_reg t \<and> is_reg s
          then map_option (\<lambda>f. enc_r 0 (mo_reg s) (mo_reg t) (mo_reg d) 0 f) (shiftv_funct m) else None
      | _ \<Rightarrow> None)"

definition shifti_funct :: "string \<Rightarrow> int option" where
  "shifti_funct m =
     (if m = ''sll'' then Some 0x00 else if m = ''srl'' then Some 0x02
      else if m = ''sra'' then Some 0x03 else None)"

definition enc_shifti :: "string \<Rightarrow> mips_operand list \<Rightarrow> u32 option" where
  "enc_shifti m ops =
     (case ops of
        [d, t, i] \<Rightarrow>
          if is_reg d \<and> is_reg t \<and> is_imm i
          then map_option (\<lambda>f. enc_r 0 0 (mo_reg t) (mo_reg d) (mo_imm i) f) (shifti_funct m) else None
      | _ \<Rightarrow> None)"

definition muldiv_funct :: "string \<Rightarrow> int option" where
  "muldiv_funct m =
     (if m = ''mult'' then Some 0x18 else if m = ''multu'' then Some 0x19
      else if m = ''div'' then Some 0x1a else if m = ''divu'' then Some 0x1b else None)"

definition enc_muldiv :: "string \<Rightarrow> mips_operand list \<Rightarrow> u32 option" where
  "enc_muldiv m ops =
     (case ops of
        [s, t] \<Rightarrow>
          if is_reg s \<and> is_reg t
          then map_option (\<lambda>f. enc_r 0 (mo_reg s) (mo_reg t) 0 0 f) (muldiv_funct m) else None
      | _ \<Rightarrow> None)"

definition enc_hilo :: "string \<Rightarrow> mips_operand list \<Rightarrow> u32 option" where
  "enc_hilo m ops =
     (case ops of
        [d] \<Rightarrow>
          if \<not> is_reg d then None
          else if m = ''mfhi'' then Some (enc_r 0 0 0 (mo_reg d) 0 0x10)
          else if m = ''mflo'' then Some (enc_r 0 0 0 (mo_reg d) 0 0x12)
          else if m = ''mthi'' then Some (enc_r 0 (mo_reg d) 0 0 0 0x11)
          else if m = ''mtlo'' then Some (enc_r 0 (mo_reg d) 0 0 0 0x13)
          else None
      | _ \<Rightarrow> None)"


definition arithi_op :: "string \<Rightarrow> int option" where
  "arithi_op m =
     (if m = ''addiu'' then Some 0x09 else if m = ''addi'' then Some 0x08
      else if m = ''slti'' then Some 0x0a else if m = ''sltiu'' then Some 0x0b
      else if m = ''andi'' then Some 0x0c else if m = ''ori'' then Some 0x0d
      else if m = ''xori'' then Some 0x0e else None)"

text \<open>The relocation of an operand with \<open>%hi\<close> or \<open>%lo\<close>, at the word about to be emitted.\<close>

definition reloc_operand :: "mips_operand \<Rightarrow> nat \<Rightarrow> mips_asm \<Rightarrow> mips_asm option" where
  "reloc_operand o1 ty a =
     (case mo_sym o1 of None \<Rightarrow> None | Some y \<Rightarrow> Some (reloc_sym (here a) y (int32 (mo_imm o1)) ty a))"

definition field_imm :: "mips_operand \<Rightarrow> int" where
  "field_imm o1 = (if mo_reloc_op o1 = MRELOC_OP_NONE then mo_imm o1 else 0)"

definition enc_arithi :: "string \<Rightarrow> mips_operand list \<Rightarrow> bool \<Rightarrow> mips_asm \<Rightarrow> enc_result" where
  "enc_arithi m ops emit a =
     (case (arithi_op m, ops) of
        (Some op, [t, s, i]) \<Rightarrow>
          if \<not> (is_reg t \<and> is_reg s \<and> is_imm i) then skip a
          else if emit then
            emits 4 (do { a \<leftarrow> (case mo_reloc_op i of
                                   MRELOC_OP_HI \<Rightarrow> reloc_operand i R_MIPS_HI16 a
                                 | MRELOC_OP_LO \<Rightarrow> reloc_operand i R_MIPS_LO16 a
                                 | MRELOC_OP_NONE \<Rightarrow> Some a);
                          emit_word (enc_i op (mo_reg s) (mo_reg t) (field_imm i)) a })
          else Some (a, 4)
      | _ \<Rightarrow> skip a)"

definition enc_lui :: "mips_operand list \<Rightarrow> bool \<Rightarrow> mips_asm \<Rightarrow> enc_result" where
  "enc_lui ops emit a =
     (case ops of
        [t, i] \<Rightarrow>
          if \<not> (is_reg t \<and> is_imm i) then skip a
          else if emit then
            emits 4 (do { a \<leftarrow> (if mo_reloc_op i = MRELOC_OP_HI then reloc_operand i R_MIPS_HI16 a else Some a);
                          emit_word (enc_i 0x0f 0 (mo_reg t) (field_imm i)) a })
          else Some (a, 4)
      | _ \<Rightarrow> skip a)"

definition memop_op :: "string \<Rightarrow> (int \<times> bool) option" where
  "memop_op m =
     (if m = ''lb'' then Some (0x20, False) else if m = ''lh'' then Some (0x21, False)
      else if m = ''lw'' then Some (0x23, False) else if m = ''lbu'' then Some (0x24, False)
      else if m = ''lhu'' then Some (0x25, False) else if m = ''sb'' then Some (0x28, False)
      else if m = ''sh'' then Some (0x29, False) else if m = ''sw'' then Some (0x2b, False)
      else if m = ''lwc1'' then Some (0x31, True) else if m = ''swc1'' then Some (0x39, True) else None)"

definition enc_memop :: "string \<Rightarrow> mips_operand list \<Rightarrow> bool \<Rightarrow> mips_asm \<Rightarrow> enc_result" where
  "enc_memop m ops emit a =
     (case (memop_op m, ops) of
        (Some (op, cop), [t, b]) \<Rightarrow>
          if \<not> (is_mem b \<and> (if cop then is_freg t else is_reg t)) then skip a
          else if emit then
            emits 4 (do { a \<leftarrow> (if mo_reloc_op b = MRELOC_OP_LO then reloc_operand b R_MIPS_LO16 a else Some a);
                          emit_word (enc_i op (mo_reg b) (mo_reg t) (field_imm b)) a })
          else Some (a, 4)
      | _ \<Rightarrow> skip a)"

text \<open>A branch word to the target operand, which must name a symbol once words are emitted.\<close>

definition emit_branch :: "int \<Rightarrow> int \<Rightarrow> int \<Rightarrow> mips_operand \<Rightarrow> bool \<Rightarrow> mips_asm \<Rightarrow> enc_result" where
  "emit_branch op rs rt t emit a =
     (if emit then
        (case sym_target t of
           None \<Rightarrow> skip a
         | Some target \<Rightarrow>
             emits 4 (do { (a, disp) \<leftarrow> branch_disp target (here a) a; emit_word (enc_i op rs rt disp) a }))
      else Some (a, 4))"

definition enc_branch :: "string \<Rightarrow> mips_operand list \<Rightarrow> bool \<Rightarrow> mips_asm \<Rightarrow> enc_result" where
  "enc_branch m ops emit a =
     (if m = ''beq'' \<or> m = ''bne'' then
        (case ops of
           [s, t, l] \<Rightarrow>
             if is_reg s \<and> is_reg t
             then emit_branch (if m = ''beq'' then 0x04 else 0x05) (mo_reg s) (mo_reg t) l emit a else skip a
         | _ \<Rightarrow> skip a)
      else if m = ''blez'' \<or> m = ''bgtz'' \<or> m = ''bltz'' \<or> m = ''bgez'' then
        (case ops of
           [s, l] \<Rightarrow>
             if is_reg s
             then emit_branch (if m = ''blez'' then 0x06 else if m = ''bgtz'' then 0x07 else 0x01) (mo_reg s)
                    (if m = ''bgez'' then 1 else 0) l emit a
             else skip a
         | _ \<Rightarrow> skip a)
      else skip a)"

definition enc_jump :: "string \<Rightarrow> mips_operand list \<Rightarrow> bool \<Rightarrow> mips_asm \<Rightarrow> enc_result" where
  "enc_jump m ops emit a =
     (if m = ''jr'' then
        (case ops of
           [s] \<Rightarrow> if \<not> is_reg s then skip a
                  else if emit then emits 4 (emit_word (enc_r 0 (mo_reg s) 0 0 0 0x08) a) else Some (a, 4)
         | _ \<Rightarrow> skip a)
      else if m = ''jalr'' then
        (case ops of
           [s] \<Rightarrow> if \<not> is_reg s then skip a
                  else if emit then emits 4 (emit_word (enc_r 0 (mo_reg s) 0 31 0 0x09) a) else Some (a, 4)
         | [d, s] \<Rightarrow> if \<not> (is_reg d \<and> is_reg s) then skip a
                     else if emit then emits 4 (emit_word (enc_r 0 (mo_reg s) 0 (mo_reg d) 0 0x09) a) else Some (a, 4)
         | _ \<Rightarrow> skip a)
      else if m = ''j'' \<or> m = ''jal'' then
        (case ops of
           [l] \<Rightarrow>
             if emit then
               (case sym_target l of
                  None \<Rightarrow> skip a
                | Some target \<Rightarrow>
                    (let (a, t) = jump_target target (here a) a
                     in emits 4 (emit_word (enc_j (if m = ''j'' then 0x02 else 0x03) t) a)))
             else Some (a, 4)
         | _ \<Rightarrow> skip a)
      else skip a)"

subsection \<open>Coprocessor encoders\<close>

definition fmt_of :: "char \<Rightarrow> int option" where
  "fmt_of c =
     (if c = CHR ''s'' then Some 0x10 else if c = CHR ''d'' then Some 0x11
      else if c = CHR ''w'' then Some 0x14 else None)"

definition cop_sub :: "string \<Rightarrow> (int \<times> bool) option" where
  "cop_sub m =
     (if m = ''mfc1'' then Some (0x00, False) else if m = ''cfc1'' then Some (0x02, True)
      else if m = ''mtc1'' then Some (0x04, False) else if m = ''ctc1'' then Some (0x06, True) else None)"

definition enc_cop1_move :: "string \<Rightarrow> mips_operand list \<Rightarrow> u32 option" where
  "enc_cop1_move m ops =
     (case (cop_sub m, ops) of
        (Some (sub, ctrl), [t, d]) \<Rightarrow>
          if is_reg t \<and> (if ctrl then is_reg d \<or> is_freg d else is_freg d)
          then Some (enc_r 0x11 sub (mo_reg t) (mo_reg d) 0 0) else None
      | _ \<Rightarrow> None)"

definition enc_cop2_move :: "string \<Rightarrow> mips_operand list \<Rightarrow> u32 option" where
  "enc_cop2_move m ops =
     (case ops of
        [t, d] \<Rightarrow>
          if \<not> (is_reg t \<and> is_reg d) then None
          else if m = ''mfc2'' then Some (enc_r 0x12 0x00 (mo_reg t) (mo_reg d) 0 0)
          else if m = ''cfc2'' then Some (enc_r 0x12 0x02 (mo_reg t) (mo_reg d) 0 0)
          else if m = ''mtc2'' then Some (enc_r 0x12 0x04 (mo_reg t) (mo_reg d) 0 0)
          else if m = ''ctc2'' then Some (enc_r 0x12 0x06 (mo_reg t) (mo_reg d) 0 0)
          else None
      | _ \<Rightarrow> None)"

definition enc_cop2_cmd :: "string \<Rightarrow> mips_operand list \<Rightarrow> u32 option" where
  "enc_cop2_cmd m ops =
     (case ops of
        [i] \<Rightarrow> if m = ''cop2'' \<and> is_imm i \<and> mo_sym i = None
               then Some (0x4A000000 OR (word_of_int (mo_imm i) AND 0x1FFFFFF)) else None
      | _ \<Rightarrow> None)"

definition enc_cop1_branch :: "string \<Rightarrow> mips_operand list \<Rightarrow> bool \<Rightarrow> mips_asm \<Rightarrow> enc_result" where
  "enc_cop1_branch m ops emit a =
     (if m = ''bc1f'' \<or> m = ''bc1t'' then
        (case ops of [l] \<Rightarrow> emit_branch 0x11 0x08 (if m = ''bc1t'' then 1 else 0) l emit a | _ \<Rightarrow> skip a)
      else skip a)"

text \<open>The function code of an arithmetic mnemonic without its suffix, and whether it is unary.\<close>

definition fp_funct :: "string \<Rightarrow> (int \<times> bool) option" where
  "fp_funct base =
     (if base = ''add'' then Some (0x00, False) else if base = ''sub'' then Some (0x01, False)
      else if base = ''mul'' then Some (0x02, False) else if base = ''div'' then Some (0x03, False)
      else if base = ''abs'' then Some (0x05, True) else if base = ''mov'' then Some (0x06, True)
      else if base = ''neg'' then Some (0x07, True) else None)"

definition fp_cond :: "string \<Rightarrow> int option" where
  "fp_cond base =
     (if base = ''c.eq'' then Some 2 else if base = ''c.lt'' then Some 12
      else if base = ''c.le'' then Some 14 else None)"

definition enc_cvt :: "string \<Rightarrow> mips_operand list \<Rightarrow> u32 option" where
  "enc_cvt m ops =
     (case ops of
        [d, s] \<Rightarrow>
          if is_freg d \<and> is_freg s then
            (case (fmt_of (m ! 4), fmt_of (m ! 6)) of
               (Some to, Some from) \<Rightarrow>
                 Some (enc_r 0x11 from 0 (mo_reg s) (mo_reg d) (if to = 0x10 then 0x20 else if to = 0x11 then 0x21 else 0x24))
             | _ \<Rightarrow> None)
          else None
      | _ \<Rightarrow> None)"

definition enc_fp_arith :: "string \<Rightarrow> int \<Rightarrow> mips_operand list \<Rightarrow> u32 option" where
  "enc_fp_arith base fmt ops =
     (case fp_funct base of
        Some (funct, unary) \<Rightarrow>
          (case ops of
             [d, s] \<Rightarrow> if unary \<and> is_freg d \<and> is_freg s then Some (enc_r 0x11 fmt 0 (mo_reg s) (mo_reg d) funct) else None
           | [d, s, t] \<Rightarrow>
               if \<not> unary \<and> is_freg d \<and> is_freg s \<and> is_freg t
               then Some (enc_r 0x11 fmt (mo_reg t) (mo_reg s) (mo_reg d) funct) else None
           | _ \<Rightarrow> None)
      | None \<Rightarrow>
          (case (fp_cond base, ops) of
             (Some cond, [s, t]) \<Rightarrow>
               if is_freg s \<and> is_freg t then Some (enc_r 0x11 fmt (mo_reg t) (mo_reg s) 0 (0x30 + cond)) else None
           | _ \<Rightarrow> None))"

definition enc_cop1_fp :: "string \<Rightarrow> mips_operand list \<Rightarrow> u32 option" where
  "enc_cop1_fp m ops =
     (let len = length m in
      if take 4 m = ''cvt.'' \<and> len = 7 \<and> m ! 5 = CHR ''.'' then enc_cvt m ops
      else if 3 \<le> len \<and> m ! (len - 2) = CHR ''.'' then
        (case fmt_of (m ! (len - 1)) of
           None \<Rightarrow> None
         | Some fmt \<Rightarrow> if len - 2 \<ge> 8 then None else enc_fp_arith (take (len - 2) m) fmt ops)
      else None)"

subsection \<open>Macros\<close>

text \<open>The words of \<open>li d, v\<close>.\<close>

definition li_words :: "int \<Rightarrow> int \<Rightarrow> u32 list" where
  "li_words d v =
     (let w = word_of_int v :: u32 in
      if - 32768 \<le> v \<and> v \<le> 32767 then [enc_i 0x09 0 d v]
      else if 0 \<le> v \<and> v \<le> 65535 then [enc_i 0x0d 0 d v]
      else if w AND 0xFFFF = 0 then [enc_i 0x0f 0 d (uint (drop_bit 16 w AND 0xFFFF))]
      else [enc_i 0x0f 0 d (uint (drop_bit 16 w AND 0xFFFF)), enc_i 0x0d d d (uint (w AND 0xFFFF))])"

definition word_bytes :: "u32 list \<Rightarrow> int" where
  "word_bytes ws = 4 * int (length ws)"

definition emit_macro :: "u32 list \<Rightarrow> bool \<Rightarrow> mips_asm \<Rightarrow> enc_result" where
  "emit_macro ws emit a = (if emit then emits (word_bytes ws) (emit_words ws a) else Some (a, word_bytes ws))"

definition enc_li :: "mips_operand list \<Rightarrow> bool \<Rightarrow> mips_asm \<Rightarrow> enc_result" where
  "enc_li ops emit a =
     (case ops of
        [d, i] \<Rightarrow> if is_reg d \<and> is_imm i then emit_macro (li_words (mo_reg d) (int32 (mo_imm i))) emit a else skip a
      | _ \<Rightarrow> skip a)"

text \<open>The words of a trapping division of \<open>s\<close> by \<open>t\<close> into \<open>d\<close>.\<close>

definition div_trap_words :: "int \<Rightarrow> int \<Rightarrow> int \<Rightarrow> bool \<Rightarrow> int \<Rightarrow> int \<Rightarrow> u32 list" where
  "div_trap_words s t d is_signed funct_div hilo =
     [enc_i 0x05 t 0 2, enc_r 0 s t 0 0 funct_div, 0x0007000D] @
     (if is_signed
      then [enc_i 0x09 0 1 (- 1), enc_i 0x05 t 1 4, enc_i 0x0f 0 1 0x8000, enc_i 0x05 s 1 2, 0, 0x0006000D] else []) @
     [enc_r 0 0 0 d 0 hilo]"

definition enc_la :: "mips_operand list \<Rightarrow> bool \<Rightarrow> mips_asm \<Rightarrow> enc_result" where
  "enc_la ops emit a =
     (case ops of
        [d, l] \<Rightarrow>
          (if is_reg d then
             (case sym_target l of
                None \<Rightarrow> skip a
              | Some y \<Rightarrow>
                  if emit then
                    emits 8 (do { a \<leftarrow> emit_word (enc_i 0x0f 0 (mo_reg d) 0) (reloc_sym (here a) y 0 R_MIPS_HI16 a);
                                  emit_word (enc_i 0x09 (mo_reg d) (mo_reg d) 0) (reloc_sym (here a) y 0 R_MIPS_LO16 a) })
                  else Some (a, 8))
           else skip a)
      | _ \<Rightarrow> skip a)"

definition enc_branchz :: "string \<Rightarrow> mips_operand list \<Rightarrow> bool \<Rightarrow> mips_asm \<Rightarrow> enc_result" where
  "enc_branchz m ops emit a =
     (if m = ''b'' then (case ops of [l] \<Rightarrow> emit_branch 0x04 0 0 l emit a | _ \<Rightarrow> skip a)
      else (case ops of
              [s, l] \<Rightarrow> if is_reg s then emit_branch (if m = ''bnez'' then 0x05 else 0x04) (mo_reg s) 0 l emit a else skip a
            | _ \<Rightarrow> skip a))"

definition enc_fp_mem :: "string \<Rightarrow> mips_operand list \<Rightarrow> bool \<Rightarrow> mips_asm \<Rightarrow> enc_result" where
  "enc_fp_mem m ops emit a =
     (case ops of
        [t, b] \<Rightarrow>
          if is_freg t \<and> is_mem b then
            (let op = (if m ! 0 = CHR ''s'' then 0x39 else 0x31);
                 w1 = enc_i op (mo_reg b) (mo_reg t) (mo_imm b)
             in emit_macro (if m ! 2 = CHR ''d'' then [w1, enc_i op (mo_reg b) (mo_reg t + 1) (mo_imm b + 4)] else [w1]) emit a)
          else skip a
      | _ \<Rightarrow> skip a)"

definition enc_div :: "string \<Rightarrow> mips_operand list \<Rightarrow> bool \<Rightarrow> mips_asm \<Rightarrow> enc_result" where
  "enc_div m ops emit a =
     (case ops of
        [d, s, t] \<Rightarrow>
          if is_reg d \<and> is_reg s \<and> is_reg t then
            (let unsgn = (m ! (length m - 1) = CHR ''u''); is_rem = (m ! 0 = CHR ''r'');
                 funct_div = (if unsgn then 0x1b else 0x1a)
             in emit_macro
                  (if mo_reg d = 0 \<and> \<not> is_rem then [enc_r 0 (mo_reg s) (mo_reg t) 0 0 funct_div]
                   else div_trap_words (mo_reg s) (mo_reg t) (mo_reg d) (\<not> unsgn) funct_div (if is_rem then 0x10 else 0x12))
                  emit a)
          else skip a
      | _ \<Rightarrow> skip a)"

text \<open>Two-register macros that are one instruction.\<close>

definition two_reg_word :: "string \<Rightarrow> int \<Rightarrow> int \<Rightarrow> u32 option" where
  "two_reg_word m d s =
     (if m = ''move'' then Some (enc_r 0 s 0 d 0 0x25)
      else if m = ''negu'' then Some (enc_r 0 0 s d 0 0x23)
      else if m = ''neg'' then Some (enc_r 0 0 s d 0 0x22)
      else if m = ''not'' then Some (enc_r 0 s 0 d 0 0x27) else None)"

definition enc_macro :: "string \<Rightarrow> mips_operand list \<Rightarrow> bool \<Rightarrow> mips_asm \<Rightarrow> enc_result" where
  "enc_macro m ops emit a =
     (if m \<in> {''move'', ''negu'', ''neg'', ''not''} then
        (case ops of
           [d, s] \<Rightarrow>
             (if is_reg d \<and> is_reg s
              then (case two_reg_word m (mo_reg d) (mo_reg s) of Some w \<Rightarrow> emit_macro [w] emit a | None \<Rightarrow> skip a)
              else skip a)
         | _ \<Rightarrow> skip a)
      else if m = ''li'' then enc_li ops emit a
      else if m = ''la'' then enc_la ops emit a
      else if m \<in> {''beqz'', ''bnez'', ''b''} then enc_branchz m ops emit a
      else if m \<in> {''l.d'', ''s.d'', ''l.s'', ''s.s''} then enc_fp_mem m ops emit a
      else if m = ''mul'' then
        (case ops of
           [d, s, t] \<Rightarrow>
             if is_reg d \<and> is_reg s \<and> is_reg t
             then emit_macro [enc_r 0 (mo_reg s) (mo_reg t) 0 0 0x19, enc_r 0 0 0 (mo_reg d) 0 0x12] emit a else skip a
         | _ \<Rightarrow> skip a)
      else if m \<in> {''div'', ''divu'', ''rem'', ''remu''} then enc_div m ops emit a
      else skip a)"

subsection \<open>Dispatch\<close>

definition or_enc :: "enc_result \<Rightarrow> (mips_asm \<Rightarrow> enc_result) \<Rightarrow> enc_result" where
  "or_enc r next = do { (a, n) \<leftarrow> r; if n \<ge> 0 then Some (a, n) else next a }"

fun first_word :: "u32 option list \<Rightarrow> u32 option" where
  "first_word [] = None"
| "first_word (r # rs) = (case r of Some w \<Rightarrow> Some w | None \<Rightarrow> first_word rs)"

definition word_groups :: "string \<Rightarrow> mips_operand list \<Rightarrow> u32 option" where
  "word_groups m ops =
     first_word [enc_rrr m ops, enc_shiftv m ops, enc_shifti m ops, enc_muldiv m ops, enc_hilo m ops,
                 enc_cop1_move m ops, enc_cop1_fp m ops, enc_cop2_move m ops, enc_cop2_cmd m ops]"

definition trap_word :: "string \<Rightarrow> mips_operand list \<Rightarrow> u32" where
  "trap_word m ops =
     (let code = (case ops of [i] \<Rightarrow> if is_imm i then word_of_int (mo_imm i) else 0 | _ \<Rightarrow> 0) :: u32
      in if m = ''break'' then 0x0d OR push_bit 16 (code AND 0x3FF) else 0x0c OR push_bit 6 (code AND 0xFFFFF))"

definition mips_encode :: "string \<Rightarrow> mips_operand list \<Rightarrow> bool \<Rightarrow> mips_asm \<Rightarrow> enc_result" where
  "mips_encode m ops emit a =
     (if m = ''nop'' then emit_macro [0] emit a
      else if m = ''syscall'' \<or> m = ''break'' then emit_macro [trap_word m ops] emit a
      else or_enc (enc_macro m ops emit a) (\<lambda>a.
        case word_groups m ops of
          Some w \<Rightarrow> emit_macro [w] emit a
        | None \<Rightarrow>
            or_enc (enc_arithi m ops emit a) (\<lambda>a.
            or_enc (enc_lui ops emit a) (\<lambda>a.
            or_enc (enc_memop m ops emit a) (\<lambda>a.
            or_enc (enc_branch m ops emit a) (\<lambda>a.
            or_enc (enc_jump m ops emit a) (\<lambda>a.
            enc_cop1_branch m ops emit a)))))))"

subsection \<open>What an encoder changes\<close>

text \<open>The current section grew by \<open>n\<close> bytes; the token stream, the pass and the labels are untouched.\<close>

definition asm_frame :: "mips_asm \<Rightarrow> int \<Rightarrow> mips_asm \<Rightarrow> bool" where
  "asm_frame a n a' \<longleftrightarrow>
     ma_lex a' = ma_lex a \<and> ma_cur_section a' = ma_cur_section a \<and> ma_pass a' = ma_pass a \<and>
     ma_numlabels a' = ma_numlabels a \<and> ma_debug_file a' = ma_debug_file a \<and> ma_locrows a' = ma_locrows a \<and>
     defined_labels (ma_st a') = defined_labels (ma_st a) \<and>
     (\<forall>k. sec_len (ma_sections a' k) = sec_len (ma_sections a k) + (if k = ma_cur_section a then n else 0))"

lemma asm_frame_refl [simp]: "asm_frame a 0 a"
  by (simp add: asm_frame_def)

lemma asm_frame_trans: "asm_frame a n b \<Longrightarrow> asm_frame b m c \<Longrightarrow> asm_frame a (n + m) c"
  by (auto simp: asm_frame_def)

lemma sec_reserve_len: "sec_reserve n s = Some s' \<Longrightarrow> sec_len s' = sec_len s \<and> sec_data s' = sec_data s \<and> sec_little_endian s' = sec_little_endian s \<and> sec_relocs s' = sec_relocs s"
  by (auto simp: sec_reserve_def Let_def split: if_splits)

lemma sec_emit8_len: "sec_emit8 v s = Some s' \<Longrightarrow> sec_len s' = sec_len s + 1"
  by (auto simp: sec_emit8_def bind_eq_Some_conv dest: sec_reserve_len)

lemma sec_emit_bytes_len: "sec_emit_bytes vs s = Some s' \<Longrightarrow> sec_len s' = sec_len s + int (length vs)"
  by (induction vs arbitrary: s) (auto simp: bind_eq_Some_conv dest: sec_emit8_len)

lemma set_cur_frame: "sec_len s = sec_len (cur a) + n \<Longrightarrow> asm_frame a n (set_cur s a)"
  by (simp add: asm_frame_def set_cur_def cur_def)

lemma sec_emit32_len: "sec_emit32 w s = Some s' \<Longrightarrow> sec_len s' = sec_len s + 4"
  unfolding sec_emit32_def by (drule sec_emit_bytes_len) (simp split: if_splits)

lemma emit_word_frame: "emit_word w a = Some a' \<Longrightarrow> asm_frame a 4 a'"
  by (auto simp: emit_word_def bind_eq_Some_conv intro!: set_cur_frame dest!: sec_emit32_len)

lemma emit_words_frame: "emit_words ws a = Some a' \<Longrightarrow> asm_frame a (word_bytes ws) a'"
proof (induction ws arbitrary: a)
  case (Cons w ws)
  then obtain b where "emit_word w a = Some b" "emit_words ws b = Some a'" by (auto simp: bind_eq_Some_conv)
  from asm_frame_trans [OF emit_word_frame [OF this(1)] Cons.IH [OF this(2)]]
  show ?case by (simp add: word_bytes_def)
qed (simp add: word_bytes_def)

lemma reloc_sym_frame: "asm_frame a 0 (reloc_sym off name v ty a)"
  by (simp add: reloc_sym_def asm_frame_def set_cur_def cur_def sec_add_reloc_t_def case_prod_unfold Let_def)

text \<open>An encoder either declines and changes nothing, or reports the bytes it emits.\<close>

definition enc_ok :: "bool \<Rightarrow> mips_asm \<Rightarrow> enc_result \<Rightarrow> bool" where
  "enc_ok emit a r \<longleftrightarrow>
     (\<forall>a' n. r = Some (a', n) \<longrightarrow>
        n = - 1 \<and> a' = a \<or> n \<ge> 0 \<and> (if emit then asm_frame a n a' else a' = a))"

lemma enc_ok_skip [simp]: "enc_ok emit a (skip a)" "enc_ok emit a None"
  by (simp_all add: enc_ok_def skip_def)

lemma enc_ok_size [simp]: "n \<ge> 0 \<Longrightarrow> enc_ok False a (Some (a, n))"
  by (simp add: enc_ok_def)

lemma enc_ok_emits: "n \<ge> 0 \<Longrightarrow> (\<And>a'. r = Some a' \<Longrightarrow> asm_frame a n a') \<Longrightarrow> enc_ok True a (emits n r)"
  by (auto simp: enc_ok_def emits_def)

lemma emit_macro_ok [simp]: "enc_ok emit a (emit_macro ws emit a)"
  by (auto simp: emit_macro_def word_bytes_def intro!: enc_ok_emits dest!: emit_words_frame)

lemma reloc_operand_frame: "reloc_operand o1 ty a = Some a' \<Longrightarrow> asm_frame a 0 a'"
  by (auto simp: reloc_operand_def reloc_sym_frame split: option.splits)

lemma frame_then_word: "asm_frame a 0 b \<Longrightarrow> emit_word w b = Some a' \<Longrightarrow> asm_frame a 4 a'"
  using asm_frame_trans [of a 0 b 4 a'] emit_word_frame by simp

lemma branch_disp_frame: "branch_disp t at a = Some (a', d) \<Longrightarrow> asm_frame a 0 a'"
  by (auto simp: branch_disp_def Let_def reloc_sym_frame split: option.splits if_splits)

lemma emit_branch_ok [simp]: "enc_ok emit a (emit_branch op rs rt t emit a)"
  by (auto simp: emit_branch_def bind_eq_Some_conv split: option.split
      intro!: enc_ok_emits intro: frame_then_word [OF branch_disp_frame])

lemma enc_arithi_ok: "enc_ok emit a (enc_arithi m ops emit a)"
  by (auto simp: enc_arithi_def bind_eq_Some_conv split: option.split list.split mips_reloc_op.splits
      intro!: enc_ok_emits intro: emit_word_frame frame_then_word [OF reloc_operand_frame])

lemma enc_lui_ok: "enc_ok emit a (enc_lui ops emit a)"
  by (auto simp: enc_lui_def bind_eq_Some_conv split: option.split list.split if_splits
      intro!: enc_ok_emits intro: emit_word_frame frame_then_word [OF reloc_operand_frame])

lemma enc_memop_ok: "enc_ok emit a (enc_memop m ops emit a)"
  by (auto simp: enc_memop_def bind_eq_Some_conv split: option.split list.split if_splits
      intro!: enc_ok_emits intro: emit_word_frame frame_then_word [OF reloc_operand_frame])

lemma enc_branch_ok: "enc_ok emit a (enc_branch m ops emit a)"
  by (auto simp: enc_branch_def split: list.split)

lemma enc_jump_ok: "enc_ok emit a (enc_jump m ops emit a)"
  by (auto simp: enc_jump_def jump_target_def split: list.split option.split
      intro!: enc_ok_emits intro: emit_word_frame frame_then_word [OF reloc_sym_frame])

lemma enc_cop1_branch_ok: "enc_ok emit a (enc_cop1_branch m ops emit a)"
  by (auto simp: enc_cop1_branch_def split: list.split)

lemma enc_la_ok: "enc_ok emit a (enc_la ops emit a)"
proof -
  have "asm_frame a 8 a'" if "emit_word w1 (reloc_sym off1 y1 v1 t1 a) = Some b" "emit_word w2 (reloc_sym off2 y2 v2 t2 b) = Some a'"
    for w1 w2 off1 off2 y1 y2 v1 v2 t1 t2 b a'
    using asm_frame_trans [OF frame_then_word [OF reloc_sym_frame that(1)] frame_then_word [OF reloc_sym_frame that(2)]] by simp
  then show ?thesis
    by (auto simp: enc_la_def bind_eq_Some_conv split: list.split option.split intro!: enc_ok_emits)
qed

lemma enc_macro_ok: "enc_ok emit a (enc_macro m ops emit a)"
  by (simp add: enc_macro_def enc_li_def enc_la_ok enc_branchz_def enc_fp_mem_def enc_div_def Let_def split: list.split option.split)

lemma or_enc_ok:
  assumes "enc_ok emit a r" "enc_ok emit a (next a)"
  shows "enc_ok emit a (or_enc r next)"
proof (cases r)
  case (Some p)
  obtain b n where "p = (b, n)" by (cases p)
  then show ?thesis using assms Some by (auto simp: or_enc_def enc_ok_def split: if_splits)
qed (simp add: or_enc_def)

lemma mips_encode_ok: "enc_ok emit a (mips_encode m ops emit a)"
  by (auto simp: mips_encode_def split: option.split intro!: or_enc_ok enc_macro_ok enc_arithi_ok enc_lui_ok
      enc_memop_ok enc_branch_ok enc_jump_ok enc_cop1_branch_ok)

subsection \<open>The two passes agree on sizes\<close>

text \<open>
  The emission \<open>e\<close> from one state against the sizing \<open>z\<close> in another: sizing announces \<open>k\<close>, and the
  emission, when it does not die, returns \<open>k\<close> as well; a declined one leaves its state alone.
\<close>

definition same_size :: "mips_asm \<Rightarrow> mips_asm \<Rightarrow> enc_result \<Rightarrow> enc_result \<Rightarrow> bool" where
  "same_size a b e z \<longleftrightarrow>
     (\<exists>k. z = Some (b, k) \<and> (\<forall>a' n. e = Some (a', n) \<longrightarrow> n = k \<and> (n < 0 \<longrightarrow> a' = a)))"

lemma same_size_skip [simp]: "same_size a b (skip a) (skip b)"
  by (simp add: same_size_def skip_def)

lemma same_size_emits [simp]: "n \<ge> 0 \<Longrightarrow> same_size a b (emits n r) (Some (b, n))"
  by (auto simp: same_size_def emits_def)

lemma same_size_macro [simp]: "same_size a b (emit_macro ws True a) (emit_macro ws False b)"
  by (simp add: emit_macro_def word_bytes_def)

lemma same_size_or:
  assumes "same_size a b e z" "same_size a b (f a) (g b)"
  shows "same_size a b (or_enc e f) (or_enc z g)"
proof -
  obtain k where k: "z = Some (b, k)" "\<And>a' n. e = Some (a', n) \<Longrightarrow> n = k \<and> (n < 0 \<longrightarrow> a' = a)"
    using assms(1) by (auto simp: same_size_def)
  show ?thesis
  proof (cases e)
    case (Some p)
    obtain a' n where p: "p = (a', n)" by (cases p)
    then have "n = k \<and> (n < 0 \<longrightarrow> a' = a)" using k(2) Some by blast
    then show ?thesis using Some p k(1) assms(2) by (auto simp: or_enc_def same_size_def)
  next
    case None
    then show ?thesis using k(1) assms(2) by (auto simp: or_enc_def same_size_def)
  qed
qed

lemma arithi_size: "same_size a b (enc_arithi m ops True a) (enc_arithi m ops False b)"
  by (auto simp: enc_arithi_def split: option.split list.split)

lemma lui_size: "same_size a b (enc_lui ops True a) (enc_lui ops False b)"
  by (auto simp: enc_lui_def split: list.split)

lemma memop_size: "same_size a b (enc_memop m ops True a) (enc_memop m ops False b)"
  by (auto simp: enc_memop_def split: option.split list.split prod.split)

text \<open>A branch whose target is no symbol is only refused when emitting.\<close>

definition no_target :: "mips_operand list \<Rightarrow> bool" where
  "no_target ops \<longleftrightarrow> ops \<noteq> [] \<and> sym_target (last ops) = None"

lemma emit_branch_size: "sym_target l \<noteq> None \<Longrightarrow> same_size a b (emit_branch op rs rt l True a) (emit_branch op rs rt l False b)"
  by (auto simp: emit_branch_def)

lemma li_size: "same_size a b (enc_li ops True a) (enc_li ops False b)"
  by (auto simp: enc_li_def split: list.split)

lemma la_size: "same_size a b (enc_la ops True a) (enc_la ops False b)"
  by (auto simp: enc_la_def split: list.split option.split)

lemma fp_mem_size: "same_size a b (enc_fp_mem m ops True a) (enc_fp_mem m ops False b)"
  by (auto simp: enc_fp_mem_def Let_def split: list.split)

lemma div_size: "same_size a b (enc_div m ops True a) (enc_div m ops False b)"
  by (auto simp: enc_div_def Let_def split: list.split)

lemma branchz_size: "\<not> no_target ops \<Longrightarrow> same_size a b (enc_branchz m ops True a) (enc_branchz m ops False b)"
  by (auto simp: enc_branchz_def no_target_def emit_branch_size split: list.split)

lemma macro_size:
  assumes "\<not> (m \<in> {''beqz'', ''bnez'', ''b''} \<and> no_target ops)"
  shows "same_size a b (enc_macro m ops True a) (enc_macro m ops False b)"
proof (cases "m \<in> {''beqz'', ''bnez'', ''b''}")
  case True
  then show ?thesis using assms branchz_size [of ops a b m] by (auto simp: enc_macro_def)
next
  case False
  then show ?thesis
    unfolding enc_macro_def by (auto simp: li_size la_size fp_mem_size div_size split: list.split option.split)
qed

text \<open>Where an accepted line may still be refused: a successful emission has the announced size.\<close>

definition at_most :: "mips_asm \<Rightarrow> enc_result \<Rightarrow> enc_result \<Rightarrow> bool" where
  "at_most b e z \<longleftrightarrow> (\<forall>a' n. e = Some (a', n) \<longrightarrow> n \<ge> 0 \<longrightarrow> z = Some (b, n))"

lemma same_at_most: "same_size a b e z \<Longrightarrow> at_most b e z"
  by (auto simp: same_size_def at_most_def)

lemma at_most_or:
  assumes "same_size a b e z" "at_most b (f a) (g b)"
  shows "at_most b (or_enc e f) (or_enc z g)"
proof -
  obtain k where k: "z = Some (b, k)" "\<And>a' n. e = Some (a', n) \<Longrightarrow> n = k \<and> (n < 0 \<longrightarrow> a' = a)"
    using assms(1) by (auto simp: same_size_def)
  show ?thesis
  proof (cases e)
    case (Some p)
    obtain a' n where p: "p = (a', n)" by (cases p)
    then have "n = k \<and> (n < 0 \<longrightarrow> a' = a)" using k(2) Some by blast
    then show ?thesis using Some p k(1) assms(2) by (auto simp: or_enc_def at_most_def)
  qed (simp add: or_enc_def at_most_def)
qed

definition last_groups :: "string \<Rightarrow> mips_operand list \<Rightarrow> bool \<Rightarrow> mips_asm \<Rightarrow> enc_result" where
  "last_groups m ops emit a =
     or_enc (enc_branch m ops emit a) (\<lambda>a. or_enc (enc_jump m ops emit a) (\<lambda>a. enc_cop1_branch m ops emit a))"

lemma or_enc_skip [simp]: "or_enc (skip a) f = f a"
  by (simp add: or_enc_def skip_def)

lemma at_most_simps [simp]: "at_most b (skip a) z" "n \<ge> 0 \<Longrightarrow> at_most b (emits n r) (Some (b, n))"
  by (auto simp: at_most_def skip_def emits_def)

lemma at_most_or_skip: "at_most b e z \<Longrightarrow> at_most b (or_enc e skip) (or_enc z skip)"
  by (auto simp: at_most_def or_enc_def skip_def bind_eq_Some_conv split: if_splits)

lemma branch_at_most: "at_most b (enc_branch m ops True a) (enc_branch m ops False b)"
  by (auto simp: enc_branch_def emit_branch_def split: list.split option.split)

lemma jump_at_most: "at_most b (enc_jump m ops True a) (enc_jump m ops False b)"
  by (auto simp: enc_jump_def split: list.split option.split prod.split)

lemma cop1_branch_at_most: "at_most b (enc_cop1_branch m ops True a) (enc_cop1_branch m ops False b)"
  by (auto simp: enc_cop1_branch_def emit_branch_def split: list.split option.split)

lemma groups_disjoint:
  "m \<notin> {''beq'', ''bne'', ''blez'', ''bgtz'', ''bltz'', ''bgez''} \<Longrightarrow> enc_branch m ops e = skip"
  "m \<notin> {''jr'', ''jalr'', ''j'', ''jal''} \<Longrightarrow> enc_jump m ops e = skip"
  "m \<notin> {''bc1f'', ''bc1t''} \<Longrightarrow> enc_cop1_branch m ops e = skip"
  by (auto simp: enc_branch_def enc_jump_def enc_cop1_branch_def fun_eq_iff)

lemma last_groups_size: "at_most b (last_groups m ops True a) (last_groups m ops False b)"
proof (cases "m \<in> {''beq'', ''bne'', ''blez'', ''bgtz'', ''bltz'', ''bgez''}")
  case True
  then have "enc_jump m ops e = skip" "enc_cop1_branch m ops e = skip" for e by (auto intro!: groups_disjoint)
  then show ?thesis using at_most_or_skip [OF branch_at_most] by (simp add: last_groups_def)
next
  case b: False
  show ?thesis
  proof (cases "m \<in> {''jr'', ''jalr'', ''j'', ''jal''}")
    case True
    then have "enc_cop1_branch m ops e = skip" for e by (auto intro!: groups_disjoint)
    then show ?thesis using at_most_or_skip [OF jump_at_most] b by (simp add: last_groups_def groups_disjoint(1))
  next
    case False
    then show ?thesis using cop1_branch_at_most b by (simp add: last_groups_def groups_disjoint(1,2))
  qed
qed

definition direct_groups :: "string \<Rightarrow> mips_operand list \<Rightarrow> bool \<Rightarrow> mips_asm \<Rightarrow> enc_result" where
  "direct_groups m ops emit a =
     (case word_groups m ops of
        Some w \<Rightarrow> emit_macro [w] emit a
      | None \<Rightarrow>
          or_enc (enc_arithi m ops emit a) (\<lambda>a. or_enc (enc_lui ops emit a) (\<lambda>a.
          or_enc (enc_memop m ops emit a) (last_groups m ops emit))))"

lemma encode_groups:
  "mips_encode m ops emit a =
     (if m = ''nop'' then emit_macro [0] emit a
      else if m = ''syscall'' \<or> m = ''break'' then emit_macro [trap_word m ops] emit a
      else or_enc (enc_macro m ops emit a) (direct_groups m ops emit))"
  by (simp add: mips_encode_def direct_groups_def [abs_def] last_groups_def [abs_def] cong: option.case_cong)

lemma direct_groups_size: "at_most b (direct_groups m ops True a) (direct_groups m ops False b)"
proof (cases "word_groups m ops")
  case None
  then show ?thesis
    by (simp add: direct_groups_def)
      (intro at_most_or [OF arithi_size] at_most_or [OF lui_size] at_most_or [OF memop_size] last_groups_size)
qed (simp add: direct_groups_def same_at_most [OF same_size_macro])

lemma no_word_group:
  assumes "rrr_funct m = None" "shiftv_funct m = None" "shifti_funct m = None" "muldiv_funct m = None" "cop_sub m = None"
    "m \<notin> {''mfhi'', ''mflo'', ''mthi'', ''mtlo''}" "m \<notin> {''mfc2'', ''cfc2'', ''mtc2'', ''ctc2'', ''cop2''}" "enc_cop1_fp m ops = None"
  shows "word_groups m ops = None"
proof -
  have "enc_rrr m ops = None" using assms(1) by (auto simp: enc_rrr_def split: list.split)
  moreover have "enc_shiftv m ops = None" using assms(2) by (auto simp: enc_shiftv_def split: list.split)
  moreover have "enc_shifti m ops = None" using assms(3) by (auto simp: enc_shifti_def split: list.split)
  moreover have "enc_muldiv m ops = None" using assms(4) by (auto simp: enc_muldiv_def split: list.split)
  moreover have "enc_cop1_move m ops = None" using assms(5) by (simp add: enc_cop1_move_def)
  moreover have "enc_hilo m ops = None" using assms(6) by (auto simp: enc_hilo_def split: list.split)
  moreover have "enc_cop2_move m ops = None" "enc_cop2_cmd m ops = None"
    using assms(7) by (auto simp: enc_cop2_move_def enc_cop2_cmd_def split: list.split)
  ultimately show ?thesis using assms(8) by (simp add: word_groups_def)
qed

text \<open>A compare-with-zero branch to something that is no symbol falls through to \<open>lui\<close>.\<close>

lemma branchz_falls_through:
  assumes m: "m \<in> {''beqz'', ''bnez'', ''b''}" and nt: "no_target ops"
    and e: "or_enc (enc_macro m ops True a) (direct_groups m ops True) = Some (a', n)" "n \<ge> 0"
  shows "or_enc (enc_macro m ops False b) (direct_groups m ops False) = Some (b, n)"
proof -
  have m3: "m = ''beqz'' \<or> m = ''bnez'' \<or> m = ''b''" using m by simp
  have sk: "enc_macro m ops True a = skip a"
  proof -
    have "enc_macro m ops True a = enc_branchz m ops True a" using m3 by (elim disjE) (simp_all add: enc_macro_def)
    moreover have "enc_branchz m ops True a = skip a"
      using nt by (auto simp: enc_branchz_def emit_branch_def no_target_def split: list.split)
    ultimately show ?thesis by simp
  qed
  have gr: "direct_groups m ops c = enc_lui ops c" for c
  proof -
    have "rrr_funct m = None" "shiftv_funct m = None" "shifti_funct m = None" "muldiv_funct m = None" "cop_sub m = None"
      "m \<notin> {''mfhi'', ''mflo'', ''mthi'', ''mtlo''}" "m \<notin> {''mfc2'', ''cfc2'', ''mtc2'', ''ctc2'', ''cop2''}"
      "enc_cop1_fp m ops = None"
      using m3 by (elim disjE; simp add: rrr_funct_def shiftv_funct_def shifti_funct_def muldiv_funct_def cop_sub_def
          enc_cop1_fp_def)+
    then have w0: "word_groups m ops = None" by (rule no_word_group)
    have w: "arithi_op m = None" "memop_op m = None"
      using m3 by (elim disjE; simp add: arithi_op_def memop_op_def)+
    have "or_enc r skip = r" if "r = enc_lui ops c d" for r d
      using enc_lui_ok [of c d ops] that
      by (cases "enc_lui ops c d") (auto simp: or_enc_def skip_def enc_ok_def)
    then show ?thesis
      using w w0 m by (auto simp: fun_eq_iff direct_groups_def enc_arithi_def enc_memop_def last_groups_def groups_disjoint)
  qed
  have l: "enc_lui ops True a = Some (a', n)" using e(1) sk gr by simp
  then obtain t i where ops: "ops = [t, i]" "is_reg t" "is_imm i" "n = 4"
    using e(2) by (auto simp: enc_lui_def skip_def emits_def split: list.splits if_splits)
  then have "enc_macro m ops False b = Some (b, 4) \<or> enc_macro m ops False b = skip b"
    using m3 by (elim disjE) (simp_all add: enc_macro_def enc_branchz_def emit_branch_def)
  then show ?thesis using ops gr by (auto simp: or_enc_def skip_def enc_lui_def)
qed

lemma encode_size:
  assumes "mips_encode m ops True a = Some (a', n)" "n \<ge> 0"
  shows "mips_encode m ops False b = Some (b, n)"
proof (cases "m \<in> {''nop'', ''syscall'', ''break''}")
  case True
  then show ?thesis using assms by (auto simp: encode_groups emit_macro_def emits_def)
next
  case False
  then have s: "mips_encode m ops c d = or_enc (enc_macro m ops c d) (direct_groups m ops c)" for c d
    by (simp add: encode_groups)
  show ?thesis
  proof (cases "m \<in> {''beqz'', ''bnez'', ''b''} \<and> no_target ops")
    case True
    then show ?thesis using branchz_falls_through [of m ops a a' n b] assms s by simp
  next
    case False
    then show ?thesis
      using at_most_or [OF macro_size [OF False, of a b], of "direct_groups m ops True" "direct_groups m ops False"]
        direct_groups_size [of b m ops a] assms s by (auto simp: at_most_def)
  qed
qed

end
