(* ===== verification/Mips_Parse.thy ===== *)
theory Mips_Parse
  imports Mips_Encode
begin

text \<open>
  The two-pass driver of the MIPS assembler (\<^verbatim>\<open>as/mips_parse.c\<close>): operand and directive parsing,
  labels, and the sizing and emitting passes over \<open>mips_encode\<close>. A syntax error ends in \<open>die()\<close> in the
  one caller that sees it, so the operand parser returns \<open>None\<close> for it. Signed overflow of an \<open>int\<close>
  or \<open>long\<close> is undefined and also \<open>None\<close>. Building the debug sections (\<open>mips_emit_debug\<close>) is not
  modelled; the line rows it reads are.
\<close>

unbundle bit_operations_syntax

subsection \<open>The token stream\<close>

abbreviation (input) tt :: "mips_asm \<Rightarrow> token_type" where "tt a \<equiv> tok_type (ma_lex a)"

definition advance :: "mips_asm \<Rightarrow> mips_asm" where
  "advance a = a\<lparr> ma_lex := lex_next (ma_lex a) \<rparr>"

definition work :: "lexer \<Rightarrow> nat" where
  "work l = 2 * pending l + (if tok_type l = T_EOF then 0 else 1)"

lemma work_next: "work (lex_next l) \<le> work l" "tok_type l \<noteq> T_EOF \<Longrightarrow> work (lex_next l) < work l"
  using lex_next_progress [of l] by (auto simp: work_def)

function skip_to_eol :: "lexer \<Rightarrow> lexer" where
  "skip_to_eol l = (if tok_type l = T_NEWLINE \<or> tok_type l = T_EOF then l else skip_to_eol (lex_next l))"
  by pat_completeness auto

termination by (relation "measure work") (simp_all add: work_next)

declare skip_to_eol.simps [simp del]

definition skip_line :: "mips_asm \<Rightarrow> mips_asm" where
  "skip_line a = a\<lparr> ma_lex := skip_to_eol (ma_lex a) \<rparr>"

subsection \<open>Numeric local labels\<close>

text \<open>Negation of a \<open>long\<close>.\<close>

definition neg_long :: "int \<Rightarrow> int option" where
  "neg_long v = (if v = - (2 ^ 63) then None else Some (- v))"

definition numeric_ref :: "string \<Rightarrow> (int \<times> char) option" where
  "numeric_ref s =
     (if 2 \<le> length s \<and> (last s = CHR ''f'' \<or> last s = CHR ''b'') \<and> list_all is_digit (butlast s)
      then Some (int32 (min (digits 10 (butlast s)) (2 ^ 63 - 1)), last s) else None)"

definition numlabel_count :: "int \<Rightarrow> mips_asm \<Rightarrow> int \<times> mips_asm" where
  "numlabel_count num a =
     (case map_of (ma_numlabels a) num of
        Some k \<Rightarrow> (k, a)
      | None \<Rightarrow> (0, a\<lparr> ma_numlabels := ma_numlabels a @ [(num, 0)] \<rparr>))"

definition numlabel_bump :: "int \<Rightarrow> mips_asm \<Rightarrow> mips_asm" where
  "numlabel_bump num a =
     a\<lparr> ma_numlabels := map (\<lambda>(n, k). if n = num then (n, k + 1) else (n, k)) (ma_numlabels a) \<rparr>"

fun nat_str :: "nat \<Rightarrow> string" where
  "nat_str n = (if n < 10 then [char_of (n + 48)] else nat_str (n div 10) @ [char_of (n mod 10 + 48)])"

declare nat_str.simps [simp del]

definition int_str :: "int \<Rightarrow> string" where
  "int_str v = (if v < 0 then CHR ''-'' # nat_str (nat (- v)) else nat_str (nat v))"

definition numlabel_name :: "int \<Rightarrow> int \<Rightarrow> string" where
  "numlabel_name num k = ''.Lnum_'' @ int_str num @ ''_'' @ int_str k"

definition numeric_ref_name :: "int \<Rightarrow> char \<Rightarrow> mips_asm \<Rightarrow> string \<times> mips_asm" where
  "numeric_ref_name num dir a =
     (let (k, a) = numlabel_count num a;
          k = (if dir = CHR ''b'' then k - 1 else k)
      in (numlabel_name num (if k < 0 then 0 else k), a))"

subsection \<open>Operands\<close>

definition reloc_op_of :: "string \<Rightarrow> mips_reloc_op option" where
  "reloc_op_of name = (if name = ''hi'' then Some MRELOC_OP_HI else if name = ''lo'' then Some MRELOC_OP_LO else None)"

definition parse_addend :: "lexer \<Rightarrow> (int \<times> lexer) option" where
  "parse_addend l =
     (if tok_type l = T_PLUS then
        (let l1 = lex_next l in Some (if tok_type l1 = T_INT then (tok_ival l1, lex_next l1) else (0, l1)))
      else if tok_type l = T_MINUS then
        (let l1 = lex_next l in
         if tok_type l1 = T_INT then do { v \<leftarrow> neg_long (tok_ival l1); Some (v, lex_next l1) } else Some (0, l1))
      else Some (0, l))"

text \<open>\<open>(reg)\<close> after an offset: \<open>None\<close> on error, no base when there is no parenthesis.\<close>

definition parse_mem_base :: "lexer \<Rightarrow> (int option \<times> lexer) option" where
  "parse_mem_base l =
     (if tok_type l \<noteq> T_LPAREN then Some (None, l)
      else let l1 = lex_next l in
        if tok_type l1 \<noteq> T_IDENT then None
        else case mips_ireg (tok_str l1) of
               None \<Rightarrow> None
             | Some reg \<Rightarrow>
                 let l2 = lex_next l1 in
                 if tok_type l2 \<noteq> T_RPAREN then None else Some (Some reg, lex_next l2))"

definition blank_operand :: mips_operand where
  "blank_operand = \<lparr> mo_kind = MO_NONE, mo_reg = 0, mo_imm = 0, mo_sym = None, mo_reloc_op = MRELOC_OP_NONE \<rparr>"

text \<open>The common end of the two forms that may carry a base: memory with it, immediate without.\<close>

definition mem_or_imm :: "mips_operand \<Rightarrow> lexer \<Rightarrow> (mips_operand \<times> lexer) option" where
  "mem_or_imm o1 l =
     do { (base, l) \<leftarrow> parse_mem_base l;
          Some (case base of
                  Some reg \<Rightarrow> (o1\<lparr> mo_kind := MO_MEM, mo_reg := reg \<rparr>, l)
                | None \<Rightarrow> (o1\<lparr> mo_kind := MO_IMM \<rparr>, l)) }"

definition parse_reloc :: "lexer \<Rightarrow> (mips_operand \<times> lexer) option" where
  "parse_reloc l =
     do { rop \<leftarrow> reloc_op_of (tok_str l);
          let l = lex_next l;
          if tok_type l \<noteq> T_LPAREN then None
          else let l = lex_next l in
            if tok_type l \<noteq> T_IDENT \<and> tok_type l \<noteq> T_DOT_IDENT then None
            else let y = tok_str l in
              do { (v, l) \<leftarrow> parse_addend (lex_next l);
                   if tok_type l \<noteq> T_RPAREN then None
                   else mem_or_imm (blank_operand\<lparr> mo_imm := v, mo_sym := Some y, mo_reloc_op := rop \<rparr>) (lex_next l) } }"

definition parse_int :: "lexer \<Rightarrow> (mips_operand \<times> lexer) option" where
  "parse_int l =
     do { (v, l) \<leftarrow> (if tok_type l = T_MINUS then
                       (let l = lex_next l in
                        if tok_type l \<noteq> T_INT then None else do { v \<leftarrow> neg_long (tok_ival l); Some (v, l) })
                     else Some (tok_ival l, l));
          mem_or_imm (blank_operand\<lparr> mo_imm := v \<rparr>) (lex_next l) }"

definition parse_ident :: "mips_asm \<Rightarrow> mips_operand \<times> mips_asm" where
  "parse_ident a =
     (let s = tok_str (ma_lex a) in
      case numeric_ref s of
        Some (num, dir) \<Rightarrow>
          let (name, a) = numeric_ref_name num dir a
          in (blank_operand\<lparr> mo_kind := MO_SYM, mo_sym := Some name \<rparr>, advance a)
      | None \<Rightarrow>
          (case mips_ireg s of
             Some reg \<Rightarrow> (blank_operand\<lparr> mo_kind := MO_REG, mo_reg := reg, mo_sym := Some s \<rparr>, advance a)
           | None \<Rightarrow>
               (case mips_freg s of
                  Some reg \<Rightarrow> (blank_operand\<lparr> mo_kind := MO_FREG, mo_reg := reg, mo_sym := Some s \<rparr>, advance a)
                | None \<Rightarrow> (blank_operand\<lparr> mo_kind := MO_SYM, mo_sym := Some s \<rparr>, advance a))))"

definition with_lex :: "mips_asm \<Rightarrow> (mips_operand \<times> lexer) option \<Rightarrow> (mips_operand \<times> mips_asm) option" where
  "with_lex a r = map_option (\<lambda>(o1, l). (o1, a\<lparr> ma_lex := l \<rparr>)) r"

definition parse_operand :: "mips_asm \<Rightarrow> (mips_operand \<times> mips_asm) option" where
  "parse_operand a =
     (case tt a of
        T_RELOC \<Rightarrow> with_lex a (parse_reloc (ma_lex a))
      | T_LPAREN \<Rightarrow>
          with_lex a
            (do { (base, l) \<leftarrow> parse_mem_base (ma_lex a);
                  case base of Some reg \<Rightarrow> Some (blank_operand\<lparr> mo_kind := MO_MEM, mo_reg := reg \<rparr>, l) | None \<Rightarrow> None })
      | T_INT \<Rightarrow> with_lex a (parse_int (ma_lex a))
      | T_MINUS \<Rightarrow> with_lex a (parse_int (ma_lex a))
      | T_IDENT \<Rightarrow> Some (parse_ident a)
      | T_DOT_IDENT \<Rightarrow>
          Some (blank_operand\<lparr> mo_kind := MO_SYM, mo_sym := Some (tok_str (ma_lex a)) \<rparr>, advance a)
      | _ \<Rightarrow> None)"

subsection \<open>Data directives\<close>

definition int_range :: "int \<Rightarrow> bool" where
  "int_range v \<longleftrightarrow> - 2147483648 \<le> v \<and> v \<le> INT_MAX"

definition add_len :: "int \<Rightarrow> mips_asm \<Rightarrow> mips_asm option" where
  "add_len n a =
     (let len = sec_len (cur a) + n in
      if int_range len then Some (set_cur ((cur a)\<lparr> sec_len := len \<rparr>) a) else None)"

definition on_cur :: "(asm_section \<Rightarrow> asm_section option) \<Rightarrow> mips_asm \<Rightarrow> mips_asm option" where
  "on_cur f a = do { s \<leftarrow> f (cur a); Some (set_cur s a) }"

text \<open>What every data directive does: emit in pass 2, only count in pass 1.\<close>

definition put :: "int \<Rightarrow> (asm_section \<Rightarrow> asm_section option) \<Rightarrow> mips_asm \<Rightarrow> mips_asm option" where
  "put n f a = (if ma_pass a = 2 then on_cur f a else add_len n a)"

definition emit_int :: "nat \<Rightarrow> int \<Rightarrow> asm_section \<Rightarrow> asm_section option" where
  "emit_int width v s =
     (if width = 1 then sec_emit8 (word_of_int v) s
      else if width = 2 then sec_emit16 (word_of_int v) s
      else sec_emit32 (word_of_int v) s)"

text \<open>The addend of a symbol in a \<open>.word\<close> list, as an \<open>int32_t\<close>.\<close>

definition word_addend :: "mips_asm \<Rightarrow> (int \<times> mips_asm) option" where
  "word_addend a =
     (if tt a = T_PLUS \<or> tt a = T_MINUS then
        (let is_neg = (tt a = T_MINUS); a = advance a in
         if tt a = T_INT then
           (let v = int32 (tok_ival (ma_lex a)) in
            if is_neg \<and> v = - 2147483648 then None else Some (if is_neg then - v else v, advance a))
         else Some (0, a))
      else Some (0, a))"

definition word_sym :: "mips_asm \<Rightarrow> mips_asm option" where
  "word_sym a =
     (let (idx, st) = (if ma_pass a = 2 then sym_intern (ma_st a) (tok_str (ma_lex a)) else (0, ma_st a)) in
      do { (addend, a) \<leftarrow> word_addend (advance (a\<lparr> ma_st := st \<rparr>));
           put 4 (\<lambda>s. sec_emit32 (word_of_int addend) (sec_add_reloc_t (word_of_int (sec_len s)) idx 0 R_MIPS_32 s)) a })"

text \<open>One element of an integer list: whether there was one, and the state after it.\<close>

definition int_item :: "nat \<Rightarrow> mips_asm \<Rightarrow> (bool \<times> mips_asm) option" where
  "int_item width a0 =
     (let a = advance a0 in
      if tt a = T_INT then
        do { a \<leftarrow> put (int width) (emit_int width (tok_ival (ma_lex a))) a; Some (True, advance a) }
      else if tt a = T_MINUS then
        (let a = advance a in
         if tt a = T_INT then
           do { v \<leftarrow> neg_long (tok_ival (ma_lex a)); a \<leftarrow> put (int width) (emit_int width v) a; Some (True, advance a) }
         else Some (True, a))
      else if (tt a = T_IDENT \<or> tt a = T_DOT_IDENT) \<and> width = 4 then
        do { a \<leftarrow> word_sym a; Some (True, a) }
      else Some (False, a))"

lemma put_lex: "put n f a = Some a' \<Longrightarrow> ma_lex a' = ma_lex a"
  by (auto simp: put_def on_cur_def add_len_def set_cur_def Let_def bind_eq_Some_conv split: if_splits)

lemma advance_lex [simp]: "ma_lex (advance a) = lex_next (ma_lex a)"
  by (simp add: advance_def)

lemma word_addend_work: "word_addend a = Some (v, a') \<Longrightarrow> work (ma_lex a') \<le> work (ma_lex a)"
  using work_next(1) [of "ma_lex a"] work_next(1) [of "lex_next (ma_lex a)"]
  by (auto simp: word_addend_def Let_def split: if_splits intro: order_trans)

lemma word_sym_work:
  assumes "word_sym a = Some a'" "tt a \<noteq> T_EOF"
  shows "work (ma_lex a') < work (ma_lex a)"
  using assms(1) word_addend_work work_next(2) [OF assms(2)]
  by (fastforce simp: word_sym_def bind_eq_Some_conv split: prod.splits dest: put_lex)

lemma int_item_work:
  assumes "int_item width a = Some (True, a')"
  shows "work (ma_lex a') < work (ma_lex a)"
proof -
  let ?l = "lex_next (ma_lex a)"
  have n: "work ?l \<le> work (ma_lex a)" by (rule work_next)
  have "work (ma_lex a') < work ?l"
    using assms word_sym_work [of "advance a"] work_next [of ?l] work_next(1) [of "lex_next ?l"]
    by (auto simp: int_item_def Let_def bind_eq_Some_conv split: if_splits dest!: put_lex)
  then show ?thesis using n by simp
qed

function emit_int_list :: "nat \<Rightarrow> mips_asm \<Rightarrow> mips_asm option" where
  "emit_int_list width a =
     (case int_item width a of
        None \<Rightarrow> None
      | Some (again, a') \<Rightarrow> if again \<and> tt a' = T_COMMA then emit_int_list width a' else Some a')"
  by pat_completeness auto

termination by (relation "measure (\<lambda>(width, a). work (ma_lex a))") (auto dest: int_item_work)

declare emit_int_list.simps [simp del]

definition emit_string :: "bool \<Rightarrow> mips_asm \<Rightarrow> mips_asm option" where
  "emit_string nul a =
     (let a = advance a in
      if tt a = T_STRING then
        (let vs = map of_char (tok_str (ma_lex a)) @ (if nul then [0] else []) in
         do { a \<leftarrow> put (int (length vs)) (sec_emit_bytes vs) a; Some (advance a) })
      else Some a)"

definition do_align :: "int \<Rightarrow> mips_asm \<Rightarrow> mips_asm option" where
  "do_align bytes a =
     (let s = cur a; a = set_cur (s\<lparr> sec_align_req := max bytes (sec_align_req s) \<rparr>) a
      in put (int (pad_count (sec_len s) bytes)) (sec_align bytes) a)"

subsection \<open>The other directives\<close>

definition section_named :: "string \<Rightarrow> nat" where
  "section_named n =
     (if take 5 n = ''.text'' then MSEC_TEXT
      else if take 7 n = ''.rodata'' then MSEC_RODATA
      else if take 5 n = ''.data'' then MSEC_DATA
      else if take 4 n = ''.bss'' then MSEC_BSS
      else MSEC_DATA)"

definition is_name_tok :: "mips_asm \<Rightarrow> bool" where
  "is_name_tok a \<longleftrightarrow> tt a = T_IDENT \<or> tt a = T_DOT_IDENT"

definition intern_tok :: "mips_asm \<Rightarrow> nat \<times> mips_asm" where
  "intern_tok a = (let (idx, st) = sym_intern (ma_st a) (tok_str (ma_lex a)) in (idx, a\<lparr> ma_st := st \<rparr>))"

definition on_st :: "(symtab \<Rightarrow> symtab option) \<Rightarrow> mips_asm \<Rightarrow> mips_asm option" where
  "on_st f a = do { st \<leftarrow> f (ma_st a); Some (a\<lparr> ma_st := st \<rparr>) }"

definition dir_section :: "mips_asm \<Rightarrow> mips_asm" where
  "dir_section a =
     (let a = advance a in
      skip_line (if is_name_tok a then a\<lparr> ma_cur_section := section_named (tok_str (ma_lex a)) \<rparr> else a))"

definition dir_globl :: "bool \<Rightarrow> mips_asm \<Rightarrow> mips_asm option" where
  "dir_globl is_weak a =
     (let a = advance a in
      if is_name_tok a then
        (let (idx, a) = intern_tok a in
         do { a \<leftarrow> on_st (if is_weak then sym_set_weak idx else sym_set_global idx) a; Some (advance a) })
      else Some a)"

definition align_bytes :: "int \<Rightarrow> int" where
  "align_bytes n = 2 ^ nat (if n < 0 then 0 else if n > 12 then 12 else n)"

definition dir_align :: "mips_asm \<Rightarrow> mips_asm option" where
  "dir_align a =
     (let a = advance a in
      if tt a = T_INT then
        (let bytes = align_bytes (int32 (tok_ival (ma_lex a))) in map_option skip_line (do_align bytes (advance a)))
      else Some (skip_line a))"

definition dir_space :: "mips_asm \<Rightarrow> mips_asm option" where
  "dir_space a =
     (let a = advance a in
      if tt a = T_INT then
        (let n = int32 (tok_ival (ma_lex a)) in
         do { a \<leftarrow> put n (sec_space n) a; Some (skip_line (advance a)) })
      else Some (skip_line a))"

text \<open>The loop of \<open>.type\<close>, from the token before the one it looks at.\<close>

function type_loop :: "nat \<Rightarrow> lexer \<Rightarrow> symtab \<Rightarrow> (lexer \<times> symtab) option" where
  "type_loop idx l st =
     (if tok_type l = T_NEWLINE \<or> tok_type l = T_EOF then Some (l, st)
      else case (if (tok_type l = T_IDENT \<or> tok_type l = T_DOT_IDENT) \<and> tok_str l = ''function''
                 then sym_set_func idx st else Some st) of
             None \<Rightarrow> None
           | Some st \<Rightarrow> type_loop idx (lex_next l) st)"
  by pat_completeness auto

termination by (relation "measure (\<lambda>(idx, l, st). work l)") (simp_all add: work_next)

declare type_loop.simps [simp del]

definition dir_type :: "mips_asm \<Rightarrow> mips_asm option" where
  "dir_type a =
     (let a = advance a in
      if is_name_tok a then
        (let (idx, a) = intern_tok a in
         do { (l, st) \<leftarrow> type_loop idx (lex_next (ma_lex a)) (ma_st a); Some (a\<lparr> ma_lex := l, ma_st := st \<rparr>) })
      else Some (skip_line a))"

text \<open>
  The sum after the comma of \<open>.size\<close>: the accumulated value and the token it stopped at. The terms
  are \<open>int32_t\<close>, so an overflow of the sum is undefined.
\<close>

function size_loop :: "symtab \<Rightarrow> int \<Rightarrow> bool \<Rightarrow> lexer \<Rightarrow> (int \<times> lexer) option" where
  "size_loop st acc is_neg l =
     (if tok_type l = T_NEWLINE \<or> tok_type l = T_EOF then Some (acc, l)
      else if tok_type l = T_MINUS then size_loop st acc True (lex_next l)
      else if tok_type l = T_PLUS then size_loop st acc False (lex_next l)
      else if tok_type l = T_INT \<or> tok_type l = T_IDENT \<or> tok_type l = T_DOT_IDENT then
        (let v = (if tok_type l = T_INT then int32 (tok_ival l)
                  else case sym_lookup st (tok_str l) of Some i \<Rightarrow> sint (sy_value (st ! i)) | None \<Rightarrow> 0);
             v = (if is_neg then - v else v); acc = acc + v
         in if int_range v \<and> int_range acc then size_loop st acc False (lex_next l) else None)
      else Some (acc, l))"
  by pat_completeness auto

termination by (relation "measure (\<lambda>(st, acc, is_neg, l). work l)") (simp_all add: work_next)

declare size_loop.simps [simp del]

definition dir_size :: "mips_asm \<Rightarrow> mips_asm option" where
  "dir_size a =
     (let a = advance a in
      if is_name_tok a then
        (let (idx, a) = intern_tok a; a = advance a in
         if tt a = T_COMMA then
           do { (acc, l) \<leftarrow> size_loop (ma_st a) 0 False (lex_next (ma_lex a));
                a \<leftarrow> on_st (sym_set_size idx (word_of_int (max 0 acc))) (a\<lparr> ma_lex := l \<rparr>);
                Some (skip_line a) }
         else Some (skip_line a))
      else Some (skip_line a))"

definition dir_file :: "mips_asm \<Rightarrow> mips_asm" where
  "dir_file a =
     (let a = advance a;
          a = (if tt a = T_INT then advance a else a);
          a = (if tt a = T_STRING then a\<lparr> ma_debug_file := Some (tok_str (ma_lex a)) \<rparr> else a)
      in skip_line a)"

definition mips_add_locrow :: "u32 \<Rightarrow> int \<Rightarrow> mips_asm \<Rightarrow> mips_asm" where
  "mips_add_locrow off line a = a\<lparr> ma_locrows := ma_locrows a @ [(off, line)] \<rparr>"

definition dir_loc :: "mips_asm \<Rightarrow> mips_asm" where
  "dir_loc a =
     (let a = advance a;
          (line, a) = (if tt a = T_INT then
                         (let a = advance a in
                          if tt a = T_INT then (Some (int32 (tok_ival (ma_lex a))), a) else (None, a))
                       else (None, a))
      in skip_line
           (case line of
              Some n \<Rightarrow> if ma_pass a = 2 \<and> ma_cur_section a = MSEC_TEXT
                        then mips_add_locrow (word_of_int (sec_len (ma_sections a MSEC_TEXT))) n a else a
            | None \<Rightarrow> a))"

definition handle_directive :: "string \<Rightarrow> mips_asm \<Rightarrow> mips_asm option" where
  "handle_directive dir a =
     (if dir = ''.text'' then Some (a\<lparr> ma_cur_section := MSEC_TEXT \<rparr>)
      else if dir = ''.data'' then Some (a\<lparr> ma_cur_section := MSEC_DATA \<rparr>)
      else if dir = ''.rodata'' then Some (a\<lparr> ma_cur_section := MSEC_RODATA \<rparr>)
      else if dir = ''.bss'' \<or> dir = ''.sbss'' then Some (a\<lparr> ma_cur_section := MSEC_BSS \<rparr>)
      else if dir = ''.section'' then Some (dir_section a)
      else if dir = ''.globl'' \<or> dir = ''.global'' then dir_globl False a
      else if dir = ''.weak'' then dir_globl True a
      else if dir = ''.align'' \<or> dir = ''.p2align'' then dir_align a
      else if dir = ''.word'' \<or> dir = ''.long'' then emit_int_list 4 a
      else if dir = ''.short'' \<or> dir = ''.half'' \<or> dir = ''.2byte'' then emit_int_list 2 a
      else if dir = ''.byte'' then emit_int_list 1 a
      else if dir = ''.ascii'' then emit_string False a
      else if dir = ''.asciiz'' \<or> dir = ''.asciz'' \<or> dir = ''.string'' then emit_string True a
      else if dir = ''.space'' \<or> dir = ''.zero'' \<or> dir = ''.skip'' then dir_space a
      else if dir = ''.type'' then dir_type a
      else if dir = ''.size'' then dir_size a
      else if dir = ''.file'' then Some (dir_file a)
      else if dir = ''.loc'' then Some (dir_loc a)
      else Some (skip_line a))"

subsection \<open>Instruction lines\<close>

text \<open>Up to four operands separated by commas; the first call has none yet.\<close>

fun parse_operands :: "nat \<Rightarrow> mips_asm \<Rightarrow> (mips_operand list \<times> mips_asm) option" where
  "parse_operands 0 a = None"
| "parse_operands (Suc room) a =
     do { (o1, a) \<leftarrow> parse_operand a;
          if tt a = T_COMMA
          then do { (os, a) \<leftarrow> parse_operands room (advance a); Some (o1 # os, a) }
          else Some ([o1], a) }"

definition MAX_OPS :: nat where "MAX_OPS = 4"

definition parse_instruction :: "string \<Rightarrow> mips_asm \<Rightarrow> mips_asm option" where
  "parse_instruction m a =
     do { (ops, a) \<leftarrow> (if tt a \<noteq> T_NEWLINE \<and> tt a \<noteq> T_EOF then parse_operands MAX_OPS a else Some ([], a));
          (a, n) \<leftarrow> mips_encode m ops (ma_pass a = 2) a;
          if n < 0 then None
          else do { a \<leftarrow> (if ma_pass a = 1 then add_len n a else Some a); Some (skip_line a) } }"

subsection \<open>The passes\<close>

definition define_label :: "string \<Rightarrow> mips_asm \<Rightarrow> mips_asm option" where
  "define_label name a =
     (if ma_pass a = 1 then
        (let (idx, st) = sym_intern (ma_st a) name
         in on_st (sym_define idx (int (ma_cur_section a)) (word_of_int (sec_len (cur a)))) (a\<lparr> ma_st := st \<rparr>))
      else Some a)"

definition end_line :: "mips_asm \<Rightarrow> mips_asm" where
  "end_line a = (if tt a = T_NEWLINE then advance a else a)"

text \<open>A line that starts with a number: a numeric label, or a line to skip.\<close>

definition pass_int :: "mips_asm \<Rightarrow> mips_asm option" where
  "pass_int a =
     (let num = int32 (tok_ival (ma_lex a)); a1 = advance a in
      if tt a1 = T_COLON \<and> num \<ge> 0 then
        (let (k, a2) = numlabel_count num (advance a1) in
         do { a3 \<leftarrow> define_label (numlabel_name num k) a2; Some (numlabel_bump num a3) })
      else Some (end_line (skip_line a)))"

definition pass_dot :: "mips_asm \<Rightarrow> mips_asm option" where
  "pass_dot a =
     (let name = tok_str (ma_lex a); a1 = advance a in
      if tt a1 = T_COLON then define_label name (advance a1)
      else do { a2 \<leftarrow> handle_directive name a; Some (end_line (skip_line a2)) })"

definition pass_ident :: "mips_asm \<Rightarrow> mips_asm option" where
  "pass_ident a =
     (let name = tok_str (ma_lex a); a1 = advance a in
      if tt a1 = T_COLON then define_label name (advance a1)
      else do { a2 \<leftarrow> parse_instruction name a1; Some (end_line a2) })"

definition pass_step :: "mips_asm \<Rightarrow> mips_asm option" where
  "pass_step a =
     (case tt a of
        T_NEWLINE \<Rightarrow> Some (advance a)
      | T_INT \<Rightarrow> pass_int a
      | T_DOT_IDENT \<Rightarrow> pass_dot a
      | T_IDENT \<Rightarrow> pass_ident a
      | _ \<Rightarrow> Some (end_line (skip_line a)))"

unbundle bit_operations_syntax

subsection \<open>Progress through the source\<close>

text \<open>Outside an include file, only the position, the line and the token of a lexer change.\<close>

definition same_source :: "lexer \<Rightarrow> lexer \<Rightarrow> bool" where
  "same_source l l' \<longleftrightarrow>
     lx_src l' = lx_src l \<and> lx_inc l' = [] \<and> lx_comment_ch l' = lx_comment_ch l \<and> lx_reloc_pct l' = lx_reloc_pct l \<and>
     lx_dollar_reg l' = lx_dollar_reg l \<and> lx_base_src l' = lx_base_src l"

lemma same_source_tok:
  "lx_inc l = [] \<Longrightarrow> same_source l (str_tok ty t rest l)" "lx_inc l = [] \<Longrightarrow> same_source l (int_tok r l)"
  "lx_inc l = [] \<Longrightarrow> same_source l (plain_tok ty rest l)" "lx_inc l = [] \<Longrightarrow> same_source l (set_type ty l)"
  "lx_inc l = [] \<Longrightarrow> same_source l (lex_ident d s l)" "lx_inc l = [] \<Longrightarrow> same_source l (set_type ty (lex_ident d s l))"
  "lx_inc l = [] \<Longrightarrow> same_source l (l\<lparr> lx_pos := rest \<rparr>)" "lx_inc l = [] \<Longrightarrow> same_source l (l\<lparr> lx_pos := rest, lx_line := n \<rparr>)"
  "lx_inc l = [] \<Longrightarrow> same_source l (plain_tok ty rest (l\<lparr> lx_line := n \<rparr>))" "lx_inc l = [] \<Longrightarrow> same_source l (lex_digit s l)"
  by (auto simp: same_source_def str_tok_def int_tok_def plain_tok_def set_type_def lex_ident_def lex_digit_def Let_def split: prod.split)

definition scan_source :: "lexer \<Rightarrow> scan_result \<Rightarrow> bool" where
  "scan_source l r \<longleftrightarrow> (case r of Token l' \<Rightarrow> same_source l l' | Again l' \<Rightarrow> same_source l l')"

lemma scan_source_if: "scan_source l x \<Longrightarrow> scan_source l y \<Longrightarrow> scan_source l (if b then x else y)"
  by simp

lemma scan_char_source: "lx_inc l = [] \<Longrightarrow> scan_source l (scan_char c s l)"
  unfolding scan_char_def
  by (intro scan_source_if) (simp_all add: scan_source_def same_source_tok Let_def case_prod_unfold split: option.split)

lemma lex_next_source: "lx_inc l = [] \<Longrightarrow> same_source l (lex_next l)"
proof (induction l rule: lex_next.induct)
  case (1 l)
  let ?s = "skip_blanks (lx_pos l)"
  let ?l = "l\<lparr> lx_pos := ?s, lx_tok := (lx_tok l)\<lparr> tk_line := lx_line l \<rparr> \<rparr>"
  have tr: "same_source l m" if "same_source ?l m" for m using that by (simp add: same_source_def)
  show ?case
  proof (cases ?s)
    case Nil
    then show ?thesis using 1(3) same_source_tok(4) [of ?l T_EOF] by (subst lex_next.simps) (simp add: same_source_def)
  next
    case s: (Cons c s')
    have sc: "scan_source ?l (scan_char c s' ?l)" using scan_char_source 1(3) by simp
    show ?thesis
    proof (cases "scan_char c s' ?l")
      case (Token l')
      then show ?thesis using sc s by (subst lex_next.simps) (auto simp: scan_source_def intro!: tr)
    next
      case (Again l')
      then have "same_source ?l l'" using sc by (simp add: scan_source_def)
      moreover from this have "same_source l' (lex_next l')" using 1(2) [OF refl refl s Again] by (simp add: same_source_def)
      ultimately have "same_source l (lex_next l')" by (simp add: same_source_def)
      moreover have "lex_next l = lex_next l'" using s Again by (subst lex_next.simps) simp
      ultimately show ?thesis by simp
    qed
  qed
qed

definition later :: "lexer \<Rightarrow> lexer \<Rightarrow> bool" where
  "later l l' \<longleftrightarrow> work l' \<le> work l \<and> (lx_inc l = [] \<longrightarrow> same_source l l')"

lemma later_refl [simp]: "later l l"
  by (simp add: later_def same_source_def)

lemma later_next [simp]: "later l (lex_next l)"
  by (simp add: later_def work_next lex_next_source)

lemma later_trans: "later l l' \<Longrightarrow> later l' l'' \<Longrightarrow> later l l''"
  by (auto simp: later_def same_source_def)

lemma later_step: "later (lex_next l) l' \<Longrightarrow> later l l'"
  using later_trans [OF later_next] .

lemma later_more: "later l l' \<Longrightarrow> later l (lex_next l')"
  using later_trans [OF _ later_next] .

lemma later_skip [simp]: "later l (skip_to_eol l)"
proof (induction l rule: skip_to_eol.induct)
  case (1 l)
  then show ?case by (subst skip_to_eol.simps) (auto intro: later_step)
qed

lemma skip_to_eol_work: "tok_type l \<noteq> T_NEWLINE \<Longrightarrow> tok_type l \<noteq> T_EOF \<Longrightarrow> work (skip_to_eol l) < work l"
  using later_skip [of "lex_next l"] work_next(2) [of l] by (subst skip_to_eol.simps) (simp add: later_def)

lemma frame_lex [simp]:
  "ma_lex (skip_line a) = skip_to_eol (ma_lex a)"
  "ma_lex (end_line a) = (if tt a = T_NEWLINE then lex_next (ma_lex a) else ma_lex a)"
  "ma_lex (numlabel_bump num a) = ma_lex a"
  "ma_lex (mips_add_locrow off n a) = ma_lex a"
  by (simp_all add: skip_line_def end_line_def numlabel_bump_def mips_add_locrow_def)

lemma numlabel_count_lex [simp]: "ma_lex (snd (numlabel_count num a)) = ma_lex a"
  by (simp add: numlabel_count_def split: option.split)

lemma numeric_ref_name_lex [simp]: "ma_lex (snd (numeric_ref_name num d a)) = ma_lex a"
  using numlabel_count_lex [of num a] by (simp add: numeric_ref_name_def case_prod_unfold Let_def)

lemma intern_tok_lex [simp]: "ma_lex (snd (intern_tok a)) = ma_lex a"
  by (simp add: intern_tok_def case_prod_unfold Let_def)

lemma on_st_lex: "on_st f a = Some a' \<Longrightarrow> ma_lex a' = ma_lex a"
  by (auto simp: on_st_def bind_eq_Some_conv)

lemma define_label_lex: "define_label n a = Some a' \<Longrightarrow> ma_lex a' = ma_lex a"
  by (auto simp: define_label_def Let_def case_prod_unfold split: if_splits dest: on_st_lex)

lemma parse_addend_later: "parse_addend l = Some (v, l') \<Longrightarrow> later l l'"
  by (auto simp: parse_addend_def Let_def split: if_splits bind_splits intro: later_step)

lemma parse_mem_base_later: "parse_mem_base l = Some (r, l') \<Longrightarrow> later l l'"
  by (auto simp: parse_mem_base_def Let_def split: if_splits option.splits intro!: later_more)

lemma mem_or_imm_later: "mem_or_imm o1 l = Some (o2, l') \<Longrightarrow> later l l'"
  by (auto simp: mem_or_imm_def bind_eq_Some_conv split: option.splits dest: parse_mem_base_later)

lemma parse_reloc_later: "parse_reloc l = Some (o1, l') \<Longrightarrow> later l l'"
  by (auto simp: parse_reloc_def Let_def bind_eq_Some_conv split: if_splits
      dest!: mem_or_imm_later parse_addend_later intro!: later_step [of l] later_step [of "lex_next l"] later_step
      [of "lex_next (lex_next l)"] elim: later_trans [OF _ later_step])

lemma parse_int_later: "parse_int l = Some (o1, l') \<Longrightarrow> later l l'"
  by (auto simp: parse_int_def Let_def bind_eq_Some_conv split: if_splits
      dest!: mem_or_imm_later intro: later_step)

lemma parse_operand_later:
  assumes "parse_operand a = Some (o1, a')"
  shows "later (ma_lex a) (ma_lex a')"
  using assms
  by (auto simp: parse_operand_def with_lex_def bind_eq_Some_conv parse_ident_def Let_def case_prod_unfold
      split: token_type.splits option.splits prod.splits
      dest: parse_reloc_later parse_int_later parse_mem_base_later)

lemma parse_operands_later: "parse_operands n a = Some (os, a') \<Longrightarrow> later (ma_lex a) (ma_lex a')"
proof (induction n arbitrary: a os)
  case (Suc n)
  then obtain o1 b where b: "parse_operand a = Some (o1, b)" by (auto simp: bind_eq_Some_conv)
  show ?case
  proof (cases "tt b = T_COMMA")
    case True
    then obtain os' where "parse_operands n (advance b) = Some (os', a')" using Suc(2) b by (auto simp: bind_eq_Some_conv)
    from later_step [OF Suc.IH [OF this, simplified]] show ?thesis by (rule later_trans [OF parse_operand_later [OF b]])
  next
    case False
    then show ?thesis using Suc(2) b parse_operand_later [OF b] by simp
  qed
qed simp

lemma add_len_lex: "add_len n a = Some a' \<Longrightarrow> ma_lex a' = ma_lex a"
  by (auto simp: add_len_def Let_def set_cur_def split: if_splits)

lemma encode_lex: "mips_encode m ops e a = Some (a', n) \<Longrightarrow> ma_lex a' = ma_lex a \<and> ma_pass a' = ma_pass a"
  using mips_encode_ok [of e a m ops] by (auto simp: enc_ok_def asm_frame_def split: if_splits)

lemma parse_instruction_later:
  assumes "parse_instruction m a = Some a'"
  shows "later (ma_lex a) (ma_lex a')"
proof -
  obtain ops b c n where b: "(if tt a \<noteq> T_NEWLINE \<and> tt a \<noteq> T_EOF then parse_operands MAX_OPS a else Some ([], a)) = Some (ops, b)"
    and c: "mips_encode m ops (ma_pass b = 2) b = Some (c, n)" and a': "ma_lex a' = skip_to_eol (ma_lex c)"
    using assms by (auto simp: parse_instruction_def bind_eq_Some_conv split: if_splits dest: add_len_lex)
  have "later (ma_lex a) (ma_lex b)" using b parse_operands_later by (auto split: if_splits)
  then show ?thesis using encode_lex [OF c] a' by (auto intro: later_trans)
qed

lemma word_addend_later: "word_addend a = Some (v, a') \<Longrightarrow> later (ma_lex a) (ma_lex a')"
  by (auto simp: word_addend_def Let_def split: if_splits intro: later_step)

lemma word_sym_later:
  assumes "word_sym a = Some a'"
  shows "later (ma_lex a) (ma_lex a')"
proof -
  obtain c v b where "word_addend c = Some (v, b)" "ma_lex c = lex_next (ma_lex a)" "ma_lex a' = ma_lex b"
    using assms by (auto simp: word_sym_def bind_eq_Some_conv case_prod_unfold Let_def dest!: put_lex)
  then show ?thesis using later_step word_addend_later [of c v b] by simp
qed

lemma int_item_later: "int_item w a = Some (g, a') \<Longrightarrow> later (lex_next (ma_lex a)) (ma_lex a')"
  by (auto simp: int_item_def Let_def bind_eq_Some_conv split: if_splits dest!: put_lex dest: word_sym_later intro: later_step)

lemma emit_int_list_later: "emit_int_list w a = Some a' \<Longrightarrow> later (lex_next (ma_lex a)) (ma_lex a')"
proof (induction w a rule: emit_int_list.induct)
  case (1 w a)
  obtain g b where b: "int_item w a = Some (g, b)" using 1(2) by (auto simp: emit_int_list.simps [of w a] split: option.splits)
  show ?case
  proof (cases "g \<and> tt b = T_COMMA")
    case True
    then have "emit_int_list w b = Some a'" using 1(2) b by (simp add: emit_int_list.simps [of w a])
    from later_trans [OF int_item_later [OF b] later_step [OF 1(1) [OF b refl True this]]] show ?thesis .
  next
    case False
    then have "a' = b" using 1(2) b by (auto simp: emit_int_list.simps [of w a])
    then show ?thesis using int_item_later [OF b] by simp
  qed
qed

lemma emit_string_later: "emit_string z a = Some a' \<Longrightarrow> later (lex_next (ma_lex a)) (ma_lex a')"
  by (auto simp: emit_string_def Let_def bind_eq_Some_conv split: if_splits dest!: put_lex)

lemma do_align_lex: "do_align n a = Some a' \<Longrightarrow> ma_lex a' = ma_lex a"
  by (auto simp: do_align_def Let_def set_cur_def dest!: put_lex)

lemma type_loop_later: "type_loop i l st = Some (l', st') \<Longrightarrow> later l l'"
proof (induction i l st rule: type_loop.induct)
  case (1 i l st)
  show ?case
  proof (cases "tok_type l = T_NEWLINE \<or> tok_type l = T_EOF")
    case True
    then show ?thesis using 1(2) by (auto simp: type_loop.simps [of i l st])
  next
    case False
    then obtain st1 where st1: "(if (tok_type l = T_IDENT \<or> tok_type l = T_DOT_IDENT) \<and> tok_str l = ''function''
        then sym_set_func i st else Some st) = Some st1" "type_loop i (lex_next l) st1 = Some (l', st')"
      using 1(2) by (simp add: type_loop.simps [of i l st] split: option.splits)
    from later_step [OF 1(1) [OF False this]] show ?thesis .
  qed
qed

lemma size_loop_later: "size_loop st acc g l = Some (v, l') \<Longrightarrow> later l l'"
proof (induction "work l" arbitrary: acc g l rule: less_induct)
  case less
  show ?case
  proof (cases "tok_type l = T_EOF")
    case False
    have "\<exists>acc' g'. size_loop st acc' g' (lex_next l) = Some (v, l') \<or> l' = l"
      using less.prems by (subst (asm) size_loop.simps) (auto simp: Let_def split: if_splits)
    then show ?thesis using less.hyps [OF work_next(2) [OF False]] later_step by auto
  qed (use less.prems in \<open>simp add: size_loop.simps\<close>)
qed

lemma directive_later:
  "later (lex_next (ma_lex a)) (ma_lex (dir_section a))"
  "dir_globl w a = Some a' \<Longrightarrow> later (lex_next (ma_lex a)) (ma_lex a')"
  "dir_align a = Some a' \<Longrightarrow> later (lex_next (ma_lex a)) (ma_lex a')"
  "dir_space a = Some a' \<Longrightarrow> later (lex_next (ma_lex a)) (ma_lex a')"
  "later (lex_next (ma_lex a)) (ma_lex (dir_file a))"
  "later (lex_next (ma_lex a)) (ma_lex (dir_loc a))"
  subgoal by (simp add: dir_section_def Let_def)
  subgoal by (auto simp: dir_globl_def Let_def case_prod_unfold bind_eq_Some_conv split: if_splits dest!: on_st_lex)
  subgoal by (auto simp: dir_align_def Let_def split: if_splits dest!: do_align_lex intro: later_step)
  subgoal by (auto simp: dir_space_def Let_def bind_eq_Some_conv split: if_splits dest!: put_lex intro: later_step)
  subgoal by (auto simp: dir_file_def Let_def intro: later_step)
  subgoal by (auto simp: dir_loc_def Let_def intro: later_step split: if_splits option.split)
  done

lemma dir_type_later: "dir_type a = Some a' \<Longrightarrow> later (lex_next (ma_lex a)) (ma_lex a')"
  by (auto simp: dir_type_def Let_def case_prod_unfold bind_eq_Some_conv split: if_splits dest!: type_loop_later intro: later_step)

lemma dir_size_later: "dir_size a = Some a' \<Longrightarrow> later (lex_next (ma_lex a)) (ma_lex a')"
  by (auto simp: dir_size_def Let_def case_prod_unfold bind_eq_Some_conv split: if_splits
      dest!: size_loop_later on_st_lex intro: later_step elim: later_trans [OF later_step [OF later_step]])

definition moves :: "mips_asm \<Rightarrow> mips_asm option \<Rightarrow> bool" where
  "moves a r \<longleftrightarrow>
     (\<forall>a'. r = Some a' \<longrightarrow>
        ma_lex a' = ma_lex a \<or> later (lex_next (ma_lex a)) (ma_lex a') \<or> ma_lex a' = skip_to_eol (ma_lex a))"

lemma moves_if: "moves a x \<Longrightarrow> moves a y \<Longrightarrow> moves a (if b then x else y)"
  by simp

lemma handle_directive_moves: "moves a (handle_directive d a)"
  unfolding handle_directive_def
  by (intro moves_if)
    (auto simp: moves_def intro: directive_later emit_int_list_later emit_string_later dir_type_later dir_size_later)

lemma end_line_later: "later (ma_lex a) (ma_lex (end_line a))"
  by simp

lemma pass_step_later:
  assumes "pass_step a = Some a'" "tt a \<noteq> T_EOF"
  shows "later (ma_lex a) (ma_lex a') \<and> work (ma_lex a') < work (ma_lex a)"
proof -
  note n = work_next(2) [OF assms(2)]
  have le: ?thesis if "later (lex_next (ma_lex a)) (ma_lex a')"
    using n later_step [OF that] that by (simp add: later_def)
  have sk: ?thesis
    if "ma_lex a' = ma_lex (end_line (skip_line b))"
      "ma_lex b = ma_lex a \<or> later (lex_next (ma_lex a)) (ma_lex b) \<or> ma_lex b = skip_to_eol (ma_lex a)"
      "tt a \<noteq> T_NEWLINE" for b
  proof -
    note e = end_line_later [of "skip_line b"]
    have l: "later (ma_lex a) (ma_lex b)" using that(2) later_step by auto
    have "work (ma_lex (skip_line b)) < work (ma_lex a)"
      using that(2) skip_to_eol_work [OF that(3) assms(2)] later_skip [of "ma_lex b"] n by (auto simp: later_def)
    then have "work (ma_lex a') < work (ma_lex a)" using e unfolding that(1) later_def by linarith
    then show ?thesis
      unfolding that(1) using later_trans [OF later_trans [OF l later_skip] e [unfolded frame_lex(1)]] by (simp only: frame_lex(1))
  qed
  consider "tt a = T_NEWLINE" | "tt a = T_INT" | "tt a = T_DOT_IDENT" | "tt a = T_IDENT"
    | "tt a \<notin> {T_NEWLINE, T_INT, T_DOT_IDENT, T_IDENT}" by auto
  then show ?thesis
  proof cases
    case 1
    then show ?thesis using assms n by (auto simp: pass_step_def)
  next
    case 2
    show ?thesis
    proof (cases "tok_type (lex_next (ma_lex a)) = T_COLON \<and> int32 (tok_ival (ma_lex a)) \<ge> 0")
      case True
      then have "ma_lex a' = lex_next (lex_next (ma_lex a))"
        using assms(1) 2 by (auto simp: pass_step_def pass_int_def Let_def case_prod_unfold bind_eq_Some_conv dest!: define_label_lex)
      then show ?thesis by (intro le) simp
    next
      case False
      then show ?thesis using assms(1) 2 by (intro sk [of a]) (auto simp: pass_step_def pass_int_def Let_def)
    qed
  next
    case 3
    show ?thesis
    proof (cases "tok_type (lex_next (ma_lex a)) = T_COLON")
      case True
      then show ?thesis
        using assms(1) 3 by (intro le) (auto simp: pass_step_def pass_dot_def Let_def dest!: define_label_lex)
    next
      case False
      then obtain b where b: "handle_directive (tok_str (ma_lex a)) a = Some b" "a' = end_line (skip_line b)"
        using assms(1) 3 by (auto simp: pass_step_def pass_dot_def Let_def bind_eq_Some_conv)
      show ?thesis
        using handle_directive_moves [of a "tok_str (ma_lex a)"] b 3 by (intro sk [of b]) (simp_all add: moves_def)
    qed
  next
    case 4
    show ?thesis
    proof (cases "tok_type (lex_next (ma_lex a)) = T_COLON")
      case True
      then show ?thesis
        using assms(1) 4 by (intro le) (auto simp: pass_step_def pass_ident_def Let_def dest!: define_label_lex)
    next
      case False
      then obtain b where b: "parse_instruction (tok_str (ma_lex a)) (advance a) = Some b" "a' = end_line b"
        using assms(1) 4 by (auto simp: pass_step_def pass_ident_def Let_def bind_eq_Some_conv)
      show ?thesis
        using later_trans [OF parse_instruction_later [OF b(1)] end_line_later] b(2) by (intro le) simp
    qed
  next
    case 5
    then show ?thesis using assms by (intro sk [of a]) (auto simp: pass_step_def split: token_type.splits)
  qed
qed

subsection \<open>The driver\<close>

function pass_loop :: "mips_asm \<Rightarrow> mips_asm option" where
  "pass_loop a =
     (if tt a = T_EOF then Some a
      else case pass_step a of None \<Rightarrow> None | Some a' \<Rightarrow> pass_loop a')"
  by pat_completeness auto

termination by (relation "measure (\<lambda>a. work (ma_lex a))") (simp_all add: pass_step_later)

declare pass_loop.simps [simp del]

definition run_pass :: "mips_asm \<Rightarrow> mips_asm option" where
  "run_pass a =
     pass_loop (advance (a\<lparr> ma_cur_section := MSEC_TEXT, ma_numlabels := map (\<lambda>(n, k). (n, 0)) (ma_numlabels a) \<rparr>))"

definition reset_lexer :: "mips_asm \<Rightarrow> mips_asm" where
  "reset_lexer a =
     a\<lparr> ma_lex := set_type T_NEWLINE ((ma_lex a)\<lparr> lx_pos := lx_src (ma_lex a), lx_line := 1 \<rparr>) \<rparr>"

text \<open>The state \<open>mips_init\<close> leaves, for the text \<open>mips_schedule\<close> returned.\<close>

definition mips_init :: "string \<Rightarrow> mips_asm" where
  "mips_init src =
     \<lparr> ma_lex = (lex_init src CHR ''#'' True)\<lparr> lx_dollar_reg := True \<rparr>,
       ma_sections = (\<lambda>_. empty_section\<lparr> sec_little_endian := True \<rparr>), ma_cur_section = MSEC_TEXT, ma_st = [],
       ma_pass = 0, ma_numlabels = [], ma_debug_file = None, ma_locrows = [] \<rparr>"

definition clear_lens :: "mips_asm \<Rightarrow> mips_asm" where
  "clear_lens a = a\<lparr> ma_sections := (\<lambda>k. (ma_sections a k)\<lparr> sec_len := 0 \<rparr>) \<rparr>"

definition start_pass :: "nat \<Rightarrow> mips_asm \<Rightarrow> mips_asm" where
  "start_pass p a = reset_lexer ((clear_lens a)\<lparr> ma_pass := p \<rparr>)"

definition mips_assemble :: "mips_asm \<Rightarrow> mips_asm option" where
  "mips_assemble a = do { a \<leftarrow> run_pass (start_pass 1 a); run_pass (start_pass 2 a) }"

end
