(* ===== verification/Mips_Passes.thy ===== *)
theory Mips_Passes
  imports Mips_Parse
begin

text \<open>
  The sizing and the emitting pass of the MIPS assembler agree. Reading the same source, the two passes
  stand at the same token with the same section lengths after every line, so the offset pass 1 records
  for a label is the offset at which pass 2 emits what follows it.
\<close>

unbundle bit_operations_syntax

subsection \<open>Tokens that read alike\<close>

text \<open>
  The lexer leaves the text and the number of an earlier token in place when the new token carries none,
  and the second pass starts with what the first one left. Two lexers read alike when they stand at the
  same place and agree on what the current token carries.
\<close>

definition lex_eq :: "lexer \<Rightarrow> lexer \<Rightarrow> bool" where
  "lex_eq l m \<longleftrightarrow>
     l\<lparr> lx_tok := lx_tok m \<rparr> = m \<and> tok_type l = tok_type m \<and>
     (tok_type l \<in> {T_IDENT, T_DOT_IDENT, T_STRING, T_RELOC} \<longrightarrow> tok_str l = tok_str m) \<and>
     (tok_type l = T_INT \<longrightarrow> tok_ival l = tok_ival m)"

fun scan_eq :: "scan_result \<Rightarrow> scan_result \<Rightarrow> bool" where
  "scan_eq (Token l) (Token m) = lex_eq l m"
| "scan_eq (Again l) (Again m) = (l\<lparr> lx_tok := lx_tok m \<rparr> = m)"
| "scan_eq _ _ = False"

lemma scan_eq_if: "scan_eq x x' \<Longrightarrow> scan_eq y y' \<Longrightarrow> scan_eq (if b then x else y) (if b then x' else y')"
  by simp

lemma lex_eq_toks [simp]:
  "lex_eq (str_tok ty s rest l) (str_tok ty s rest (l\<lparr> lx_tok := t \<rparr>)) \<longleftrightarrow> ty \<noteq> T_INT \<or> tok_ival l = tk_ival t"
  "lex_eq (int_tok r l) (int_tok r (l\<lparr> lx_tok := t \<rparr>))"
  by (auto simp: lex_eq_def str_tok_def int_tok_def tok_type_def)

lemma lex_eq_plain:
  "ty \<notin> {T_IDENT, T_DOT_IDENT, T_STRING, T_RELOC, T_INT} \<Longrightarrow> lex_eq (plain_tok ty rest l) (plain_tok ty rest (l\<lparr> lx_tok := t \<rparr>))"
  "ty \<notin> {T_IDENT, T_DOT_IDENT, T_STRING, T_RELOC, T_INT} \<Longrightarrow> lex_eq (set_type ty l) (set_type ty (l\<lparr> lx_tok := t \<rparr>))"
  by (auto simp: lex_eq_def plain_tok_def set_type_def tok_type_def)

lemma lex_eq_ident [simp]:
  "lex_eq (lex_ident d s l) (lex_ident d s (l\<lparr> lx_tok := t \<rparr>))"
  "lex_eq (set_type T_RELOC (lex_ident d s l)) (set_type T_RELOC (lex_ident d s (l\<lparr> lx_tok := t \<rparr>)))"
  by (auto simp: lex_ident_def Let_def lex_eq_def str_tok_def set_type_def tok_type_def)

lemma punct_plain: "punct c = Some ty \<Longrightarrow> ty \<notin> {T_IDENT, T_DOT_IDENT, T_STRING, T_RELOC, T_INT}"
  by (auto simp: punct_def split: if_splits)

lemma scan_char_eq: "scan_eq (scan_char c s l) (scan_char c s (l\<lparr> lx_tok := t \<rparr>))"
proof -
  have p: "scan_eq (Token (plain_tok T_NEWLINE s (l\<lparr> lx_line := k \<rparr>))) (Token (plain_tok T_NEWLINE s (l\<lparr> lx_tok := t, lx_line := k \<rparr>)))" for k
    using lex_eq_plain(1) [of T_NEWLINE s "l\<lparr> lx_line := k \<rparr>" t] by (cases l) simp
  have sel: "lx_comment_ch (l\<lparr> lx_tok := t \<rparr>) = lx_comment_ch l" "lx_line (l\<lparr> lx_tok := t \<rparr>) = lx_line l"
    "lx_dollar_reg (l\<lparr> lx_tok := t \<rparr>) = lx_dollar_reg l" "lx_reloc_pct (l\<lparr> lx_tok := t \<rparr>) = lx_reloc_pct l" by simp_all
  show ?thesis
    unfolding scan_char_def sel
    by (intro scan_eq_if)
      (use p in \<open>auto simp: lex_digit_def Let_def case_prod_unfold lex_eq_plain(1) [OF punct_plain] split: option.split\<close>)
qed

lemma lex_next_eq: "lex_eq (lex_next l) (lex_next (l\<lparr> lx_tok := t \<rparr>))"
proof (induction l arbitrary: t rule: lex_next.induct)
  case (1 l)
  let ?s = "skip_blanks (lx_pos l)"
  let ?l = "l\<lparr> lx_pos := ?s, lx_tok := (lx_tok l)\<lparr> tk_line := lx_line l \<rparr> \<rparr>"
  let ?t = "t\<lparr> tk_line := lx_line l \<rparr>"
  show ?case
  proof (cases ?s)
    case s: Nil
    show ?thesis
    proof (cases "lx_inc l")
      case Nil
      then show ?thesis
        using s lex_eq_plain(2) [of T_EOF ?l ?t] by (simp add: lex_next.simps [of l] lex_next.simps [of "l\<lparr> lx_tok := t \<rparr>"])
    next
      case (Cons f fs)
      have o1: "l\<lparr> lx_tok := ?t, lx_src := lf_src f, lx_pos := lf_pos f, lx_line := lf_line f, lx_inc := fs \<rparr>
          = l\<lparr> lx_src := lf_src f, lx_pos := lf_pos f, lx_line := lf_line f, lx_inc := fs, lx_tok := ?t \<rparr>" by (cases l) simp
      have "lex_eq (lex_next (?l\<lparr> lx_src := lf_src f, lx_pos := lf_pos f, lx_line := lf_line f, lx_inc := fs \<rparr>))
          (lex_next (l\<lparr> lx_tok := ?t, lx_src := lf_src f, lx_pos := lf_pos f, lx_line := lf_line f, lx_inc := fs \<rparr>))"
        unfolding o1 using 1(1) [OF refl refl s, of f fs ?t] Cons by simp
      then show ?thesis using s Cons by (simp add: lex_next.simps [of l] lex_next.simps [of "l\<lparr> lx_tok := t \<rparr>"])
    qed
  next
    case s: (Cons c s')
    have e: "lex_next l = (case scan_char c s' ?l of Token l' \<Rightarrow> l' | Again l' \<Rightarrow> lex_next l')"
      "lex_next (l\<lparr> lx_tok := t \<rparr>) = (case scan_char c s' (?l\<lparr> lx_tok := ?t \<rparr>) of Token l' \<Rightarrow> l' | Again l' \<Rightarrow> lex_next l')"
      using s by (simp_all add: lex_next.simps [of l] lex_next.simps [of "l\<lparr> lx_tok := t \<rparr>"])
    show ?thesis
    proof (cases "scan_char c s' ?l")
      case (Token l')
      then show ?thesis using scan_char_eq [of c s' ?l ?t] by (auto simp: e elim: scan_eq.elims)
    next
      case (Again l')
      then show ?thesis
        using scan_char_eq [of c s' ?l ?t] 1(2) [OF refl refl s Again] by (auto simp: e elim!: scan_eq.elims) metis
    qed
  qed
qed

lemma lex_eq_next: "lex_eq l m \<Longrightarrow> lex_eq (lex_next l) (lex_next m)"
  using lex_next_eq [of l "lx_tok m"] by (simp add: lex_eq_def)

lemma lex_eq_tok: "lex_eq l m \<Longrightarrow> tok_type m = tok_type l"
  by (simp add: lex_eq_def)

lemma lex_eq_text:
  "lex_eq l m \<Longrightarrow> tok_type l = T_IDENT \<Longrightarrow> tok_str m = tok_str l"
  "lex_eq l m \<Longrightarrow> tok_type l = T_DOT_IDENT \<Longrightarrow> tok_str m = tok_str l"
  "lex_eq l m \<Longrightarrow> tok_type l = T_STRING \<Longrightarrow> tok_str m = tok_str l"
  "lex_eq l m \<Longrightarrow> tok_type l = T_RELOC \<Longrightarrow> tok_str m = tok_str l"
  "lex_eq l m \<Longrightarrow> tok_type l = T_INT \<Longrightarrow> tok_ival m = tok_ival l"
  by (simp_all add: lex_eq_def)

lemmas lex_eqD = lex_eq_tok lex_eq_text lex_eq_next

text \<open>Parsers that return a value and the lexer after it.\<close>

abbreviation (input) same_parse :: "('v \<times> lexer) option \<Rightarrow> ('v \<times> lexer) option \<Rightarrow> bool" where
  "same_parse \<equiv> rel_option (rel_prod (=) lex_eq)"

lemma same_parse_bind:
  assumes "same_parse x y" "\<And>v l m. lex_eq l m \<Longrightarrow> same_parse (f v l) (g v m)"
  shows "same_parse (x \<bind> (\<lambda>(v, l). f v l)) (y \<bind> (\<lambda>(v, m). g v m))"
  using assms by (cases x; cases y) auto

lemma skip_to_eol_eq: "lex_eq l m \<Longrightarrow> lex_eq (skip_to_eol l) (skip_to_eol m)"
proof (induction l arbitrary: m rule: skip_to_eol.induct)
  case (1 l)
  then show ?case
    using lex_eqD(1) [OF 1(2)] lex_eq_next [OF 1(2)] by (simp add: skip_to_eol.simps [of l] skip_to_eol.simps [of m])
qed

lemma parse_addend_eq:
  assumes "lex_eq l m"
  shows "same_parse (parse_addend l) (parse_addend m)"
proof -
  note n = lex_eq_next [OF assms]
  show ?thesis
    using assms n lex_eq_tok [OF assms] lex_eqD(1,6,7) [OF n]
    by (cases "neg_long (tok_ival (lex_next l))") (auto simp: parse_addend_def Let_def)
qed

lemma parse_mem_base_eq:
  assumes "lex_eq l m"
  shows "same_parse (parse_mem_base l) (parse_mem_base m)"
proof -
  note n = lex_eq_next [OF assms]
  note n2 = lex_eq_next [OF n]
  show ?thesis
    using assms lex_eqD(1) [OF assms] lex_eqD(1,2) [OF n] lex_eqD [OF n2]
    by (simp add: parse_mem_base_def Let_def split: option.split)
qed

lemma mem_or_imm_eq: "lex_eq l m \<Longrightarrow> same_parse (mem_or_imm o1 l) (mem_or_imm o1 m)"
  unfolding mem_or_imm_def by (rule same_parse_bind [OF parse_mem_base_eq]) (auto split: option.split)

lemma parse_reloc_eq:
  assumes "lex_eq l m" "tok_type l = T_RELOC"
  shows "same_parse (parse_reloc l) (parse_reloc m)"
proof -
  note n = lex_eq_next [OF assms(1)]
  note n2 = lex_eq_next [OF n]
  note n3 = lex_eq_next [OF n2]
  have b: "same_parse (parse_addend (lex_next (lex_next (lex_next l))) \<bind>
        (\<lambda>(v, l). if tok_type l \<noteq> T_RPAREN then None else mem_or_imm (f y v) (lex_next l)))
      (parse_addend (lex_next (lex_next (lex_next m))) \<bind>
        (\<lambda>(v, l). if tok_type l \<noteq> T_RPAREN then None else mem_or_imm (f y' v) (lex_next l)))" if "y = y'" for f and y y' :: string
    unfolding that by (rule same_parse_bind [OF parse_addend_eq [OF n3]]) (simp add: lex_eq_tok mem_or_imm_eq lex_eq_next)
  show ?thesis
    using lex_eqD(1,5) [OF assms(1)] lex_eqD(1) [OF n] lex_eqD(1,2,3) [OF n2] assms(2)
    by (cases "reloc_op_of (tok_str l)") (auto simp: parse_reloc_def Let_def intro!: b)
qed

lemma parse_int_eq:
  assumes "lex_eq l m" "tok_type l = T_INT \<or> tok_type l = T_MINUS"
  shows "same_parse (parse_int l) (parse_int m)"
proof -
  note n = lex_eq_next [OF assms(1)]
  have "same_parse
      (if tok_type l = T_MINUS then (let l = lex_next l in if tok_type l \<noteq> T_INT then None else do { v \<leftarrow> neg_long (tok_ival l); Some (v, l) })
       else Some (tok_ival l, l))
      (if tok_type m = T_MINUS then (let m = lex_next m in if tok_type m \<noteq> T_INT then None else do { v \<leftarrow> neg_long (tok_ival m); Some (v, m) })
       else Some (tok_ival m, m))"
    using assms n lex_eqD(1,6) [OF assms(1)] lex_eqD(1,6) [OF n]
    by (cases "neg_long (tok_ival (lex_next l))") (auto simp: Let_def)
  then show ?thesis
    unfolding parse_int_def by (rule same_parse_bind) (simp add: mem_or_imm_eq lex_eq_next)
qed

lemma type_loop_eq:
  assumes "lex_eq l m" "type_loop i l st = Some (l', st1)" "type_loop j m st' = Some (m', st2)"
  shows "lex_eq l' m'"
  using assms
proof (induction "work l" arbitrary: l m st st' rule: less_induct)
  case less
  show ?case
  proof (cases "tok_type l = T_NEWLINE \<or> tok_type l = T_EOF")
    case True
    then show ?thesis
      using less.prems lex_eq_tok [OF less.prems(1)] by (simp add: type_loop.simps [of i l] type_loop.simps [of j m])
  next
    case False
    then obtain s s' where "type_loop i (lex_next l) s = Some (l', st1)" "type_loop j (lex_next m) s' = Some (m', st2)"
      using less.prems lex_eq_tok [OF less.prems(1)]
      by (auto simp: type_loop.simps [of i l] type_loop.simps [of j m] split: option.splits)
    then show ?thesis using less.hyps [OF work_next(2) lex_eq_next [OF less.prems(1)]] False by blast
  qed
qed

lemma size_loop_step:
  assumes "size_loop st acc g l = Some (v, l')"
  shows "if tok_type l \<in> {T_MINUS, T_PLUS, T_INT, T_IDENT, T_DOT_IDENT}
    then \<exists>acc g. size_loop st acc g (lex_next l) = Some (v, l') else l' = l"
  using assms by (subst (asm) size_loop.simps) (auto simp: Let_def split: if_splits)

lemma size_loop_eq:
  assumes "lex_eq l m" "size_loop st acc g l = Some (v, l')" "size_loop st' acc' g' m = Some (v', m')"
  shows "lex_eq l' m'"
  using assms
proof (induction "work l" arbitrary: l m acc g acc' g' rule: less_induct)
  case less
  note st = size_loop_step [OF less.prems(2)] size_loop_step [OF less.prems(3)] lex_eq_tok [OF less.prems(1)]
  show ?case
  proof (cases "tok_type l \<in> {T_MINUS, T_PLUS, T_INT, T_IDENT, T_DOT_IDENT}")
    case True
    then have "work (lex_next l) < work l" by (auto intro!: work_next(2))
    then show ?thesis using st True less.hyps [OF _ lex_eq_next [OF less.prems(1)]] by auto
  next
    case False
    then show ?thesis using st less.prems(1) by simp
  qed
qed

subsection \<open>The two passes in step\<close>

text \<open>How often a numeric label has been seen.\<close>

definition label_no :: "mips_asm \<Rightarrow> int \<Rightarrow> int" where
  "label_no a n = (case map_of (ma_numlabels a) n of Some k \<Rightarrow> k | None \<Rightarrow> 0)"

definition sim :: "mips_asm \<Rightarrow> mips_asm \<Rightarrow> bool" where
  "sim a b \<longleftrightarrow>
     lex_eq (ma_lex a) (ma_lex b) \<and> ma_cur_section a = ma_cur_section b \<and> ma_pass a = 1 \<and> ma_pass b = 2 \<and>
     (\<forall>n. label_no a n = label_no b n) \<and> (\<forall>k. sec_len (ma_sections a k) = sec_len (ma_sections b k))"

lemma simD:
  assumes "sim a b"
  shows "lex_eq (ma_lex a) (ma_lex b)" "ma_cur_section b = ma_cur_section a" "ma_pass a = 1" "ma_pass b = 2"
    "label_no b n = label_no a n" "sec_len (cur b) = sec_len (cur a)" "tt b = tt a"
  using assms by (auto simp: sim_def cur_def lex_eq_def)

lemma sim_lex: "sim a b \<Longrightarrow> lex_eq l m \<Longrightarrow> sim (a\<lparr> ma_lex := l \<rparr>) (b\<lparr> ma_lex := m \<rparr>)"
  by (simp add: sim_def label_no_def)

lemma sim_advance [intro]: "sim a b \<Longrightarrow> sim (advance a) (advance b)"
  using simD(1) [THEN lex_eq_next] by (auto simp: advance_def intro!: sim_lex)

lemma sim_skip_line [intro]: "sim a b \<Longrightarrow> sim (skip_line a) (skip_line b)"
  using simD(1) [THEN skip_to_eol_eq] by (auto simp: skip_line_def intro!: sim_lex)

lemma sim_end_line [intro]: "sim a b \<Longrightarrow> sim (end_line a) (end_line b)"
  using simD(7) by (auto simp: end_line_def)

lemma numlabel_count_no:
  "fst (numlabel_count num a) = label_no a num" "label_no (snd (numlabel_count num a)) n = label_no a n"
  "num \<in> fst ` set (ma_numlabels (snd (numlabel_count num a)))"
  by (auto simp: numlabel_count_def label_no_def map_add_def split: option.split dest!: map_of_SomeD intro: rev_image_eqI)

lemma numlabel_count_rest: "\<exists>x. snd (numlabel_count num a) = a\<lparr> ma_numlabels := x \<rparr>"
  by (auto simp: numlabel_count_def split: option.split intro: exI [of _ "ma_numlabels a"])

lemma sim_numlabel_count:
  assumes "sim a b"
  shows "sim (snd (numlabel_count num a)) (snd (numlabel_count num b))"
proof -
  obtain x y where "snd (numlabel_count num a) = a\<lparr> ma_numlabels := x \<rparr>" "snd (numlabel_count num b) = b\<lparr> ma_numlabels := y \<rparr>"
    using numlabel_count_rest by metis
  then show ?thesis using assms numlabel_count_no(2) [of num a] numlabel_count_no(2) [of num b] by (simp add: sim_def)
qed

lemma map_of_bump:
  "map_of (map (\<lambda>(n, k). if n = num then (n, k + 1) else (n, k)) xs) n
     = (if n = num then map_option (\<lambda>k. k + 1) (map_of xs n) else map_of xs n)" for num n :: int and xs :: "(int \<times> int) list"
  by (induction xs) auto

lemma label_no_bump:
  "num \<in> fst ` set (ma_numlabels a) \<Longrightarrow> label_no (numlabel_bump num a) n = label_no a n + (if n = num then 1 else 0)"
  by (auto simp: label_no_def numlabel_bump_def map_of_bump map_of_eq_None_iff split: option.split)

lemma sim_bump:
  "sim a b \<Longrightarrow> num \<in> fst ` set (ma_numlabels a) \<Longrightarrow> num \<in> fst ` set (ma_numlabels b) \<Longrightarrow>
   sim (numlabel_bump num a) (numlabel_bump num b)"
  by (simp add: sim_def label_no_bump) (simp add: numlabel_bump_def)

lemma numeric_ref_sim:
  assumes "sim a b"
  shows "fst (numeric_ref_name num d a) = fst (numeric_ref_name num d b)"
    "sim (snd (numeric_ref_name num d a)) (snd (numeric_ref_name num d b))"
  using assms sim_numlabel_count [OF assms, of num] simD(5) [OF assms]
  by (simp_all add: numeric_ref_name_def case_prod_unfold Let_def numlabel_count_no)

lemma parse_ident_sim:
  assumes "sim a b" "tt a = T_IDENT"
  shows "fst (parse_ident a) = fst (parse_ident b) \<and> sim (snd (parse_ident a)) (snd (parse_ident b))"
proof -
  have s: "tok_str (ma_lex b) = tok_str (ma_lex a)" using assms(2) lex_eq_text(1) [OF simD(1) [OF assms(1)]] by simp
  show ?thesis
    using numeric_ref_sim [OF assms(1)] assms(1)
    by (auto simp: parse_ident_def s Let_def case_prod_unfold split: option.split)
qed

abbreviation (input) same_ops :: "('v \<times> mips_asm) option \<Rightarrow> ('v \<times> mips_asm) option \<Rightarrow> bool" where
  "same_ops \<equiv> rel_option (rel_prod (=) sim)"

lemma with_lex_sim: "sim a b \<Longrightarrow> same_parse x y \<Longrightarrow> same_ops (with_lex a x) (with_lex b y)"
  by (cases x; cases y) (auto simp: with_lex_def intro: sim_lex)

lemma parse_operand_sim:
  assumes "sim a b"
  shows "same_ops (parse_operand a) (parse_operand b)"
proof -
  note l = simD(1) [OF assms]
  have base: "same_parse (do { (base, l) \<leftarrow> parse_mem_base (ma_lex a);
                  case base of Some reg \<Rightarrow> Some (blank_operand\<lparr> mo_kind := MO_MEM, mo_reg := reg \<rparr>, l) | None \<Rightarrow> None })
      (do { (base, l) \<leftarrow> parse_mem_base (ma_lex b);
                  case base of Some reg \<Rightarrow> Some (blank_operand\<lparr> mo_kind := MO_MEM, mo_reg := reg \<rparr>, l) | None \<Rightarrow> None })"
    by (rule same_parse_bind [OF parse_mem_base_eq [OF l]]) (auto split: option.split)
  consider "tt a = T_RELOC" | "tt a = T_LPAREN" | "tt a = T_INT \<or> tt a = T_MINUS" | "tt a = T_IDENT" | "tt a = T_DOT_IDENT"
    | "tt a \<notin> {T_RELOC, T_LPAREN, T_INT, T_MINUS, T_IDENT, T_DOT_IDENT}" by auto
  then show ?thesis
  proof cases
    case 1
    then show ?thesis
      using simD(7) [OF assms] with_lex_sim [OF assms parse_reloc_eq [OF l 1]] by (simp add: parse_operand_def)
  next
    case 2
    then show ?thesis using simD(7) [OF assms] with_lex_sim [OF assms base] by (simp add: parse_operand_def)
  next
    case 3
    then show ?thesis
      using simD(7) [OF assms] with_lex_sim [OF assms parse_int_eq [OF l 3]] by (auto simp: parse_operand_def)
  next
    case 4
    then show ?thesis
      using simD(7) [OF assms] parse_ident_sim [OF assms 4] by (auto simp: parse_operand_def rel_prod_sel)
  next
    case 5
    then show ?thesis
      using simD(7) [OF assms] lex_eq_text(2) [OF l 5] sim_advance [OF assms] by (simp add: parse_operand_def)
  next
    case 6
    then show ?thesis using simD(7) [OF assms] by (auto simp: parse_operand_def split: token_type.split)
  qed
qed

lemma parse_operands_sim: "sim a b \<Longrightarrow> same_ops (parse_operands n a) (parse_operands n b)"
proof (induction n arbitrary: a b)
  case (Suc n)
  show ?case
  proof (cases "parse_operand a")
    case None
    then show ?thesis using parse_operand_sim [OF Suc(2)] by simp
  next
    case (Some r)
    then obtain o1 a1 b1 where r: "parse_operand a = Some (o1, a1)" "parse_operand b = Some (o1, b1)" "sim a1 b1"
      using parse_operand_sim [OF Suc(2)] by (cases r; cases "parse_operand b") auto
    have "same_ops (parse_operands n (advance a1)) (parse_operands n (advance b1))" using Suc.IH r(3) by auto
    then show ?thesis
      using r simD(7) [OF r(3)]
      by (cases "parse_operands n (advance a1)"; cases "parse_operands n (advance b1)") (auto simp: rel_prod_sel)
  qed
qed simp

definition grows :: "int \<Rightarrow> (asm_section \<Rightarrow> asm_section option) \<Rightarrow> bool" where
  "grows n f \<longleftrightarrow> (\<forall>s s'. f s = Some s' \<longrightarrow> sec_len s' = sec_len s + n)"

lemma sec_emit16_len: "sec_emit16 v s = Some s' \<Longrightarrow> sec_len s' = sec_len s + 2"
  unfolding sec_emit16_def by (drule sec_emit_bytes_len) (simp split: if_splits)

lemma grows_emits:
  "grows (int (length vs)) (sec_emit_bytes vs)"
  "w \<in> {1, 2, 4} \<Longrightarrow> grows (int w) (emit_int w v)"
  "grows 4 (\<lambda>s. sec_emit32 x (sec_add_reloc_t (off s) idx k ty s))"
  by (auto simp: grows_def emit_int_def sec_add_reloc_t_def
      dest: sec_emit_bytes_len sec_emit8_len sec_emit16_len sec_emit32_len)

lemma grows_space: "n \<ge> 0 \<Longrightarrow> grows n (sec_space n)"
  by (auto simp: grows_def sec_space_def bind_eq_Some_conv split: if_splits dest: sec_reserve_len)

lemma sim_put:
  assumes "sim a b" "put n f a = Some a'" "put n g b = Some b'" "\<And>s. g (cur b) = Some s \<Longrightarrow> sec_len s = sec_len (cur b) + n"
  shows "sim a' b'"
proof -
  obtain s where s: "g (cur b) = Some s" "b' = set_cur s b"
    using assms(3) simD(4) [OF assms(1)] by (auto simp: put_def on_cur_def bind_eq_Some_conv)
  have a': "a' = set_cur ((cur a)\<lparr> sec_len := sec_len (cur a) + n \<rparr>) a"
    using assms(2) simD(3) [OF assms(1)] by (auto simp: put_def add_len_def Let_def split: if_splits)
  show ?thesis
    using assms(1) assms(4) [OF s(1)] by (auto simp: a' s(2) sim_def set_cur_def cur_def label_no_def)
qed

lemma sim_put_grows: "sim a b \<Longrightarrow> grows n g \<Longrightarrow> put n f a = Some a' \<Longrightarrow> put n g b = Some b' \<Longrightarrow> sim a' b'"
  by (rule sim_put) (auto simp: grows_def)

lemma sim_st: "sim a b \<Longrightarrow> sim (a\<lparr> ma_st := s \<rparr>) (b\<lparr> ma_st := t \<rparr>)" "sim a b \<Longrightarrow> sim a (b\<lparr> ma_st := t \<rparr>)"
  by (simp_all add: sim_def label_no_def)

lemma word_addend_sim:
  assumes "sim a b" "word_addend a = Some (v, a')" "word_addend b = Some (v', b')"
  shows "sim a' b'"
proof -
  note n = sim_advance [OF assms(1)]
  note n2 = sim_advance [OF n]
  show ?thesis
    using assms n n2 simD(7) [OF assms(1)] simD(7) [OF n] by (auto simp: word_addend_def Let_def split: if_splits)
qed

lemma word_sym_sim:
  assumes "sim a b" "word_sym a = Some a'" "word_sym b = Some b'"
  shows "sim a' b'"
proof -
  obtain v c where c: "word_addend (advance a) = Some (v, c)" "add_len 4 c = Some a'" and pc: "ma_pass c = 1"
  proof -
    from assms(2) simD(3) [OF assms(1)] obtain v c where "word_addend (advance a) = Some (v, c)"
      "put 4 (\<lambda>s. sec_emit32 (word_of_int v) (sec_add_reloc_t (word_of_int (sec_len s)) 0 0 R_MIPS_32 s)) c = Some a'"
      by (auto simp: word_sym_def bind_eq_Some_conv)
    moreover from this(1) have "ma_pass c = ma_pass a" by (auto simp: word_addend_def Let_def advance_def split: if_splits)
    ultimately show ?thesis using that simD(3) [OF assms(1)] by (auto simp: put_def)
  qed
  obtain st idx w d where d: "word_addend (advance (b\<lparr> ma_st := st \<rparr>)) = Some (w, d)"
    "put 4 (\<lambda>s. sec_emit32 (word_of_int w) (sec_add_reloc_t (word_of_int (sec_len s)) idx 0 R_MIPS_32 s)) d = Some b'"
    using assms(3) simD(4) [OF assms(1)] by (auto simp: word_sym_def bind_eq_Some_conv split: prod.splits)
  have "sim c d" using word_addend_sim [OF sim_advance [OF sim_st(2) [OF assms(1)]] c(1) d(1)] .
  moreover have "put 4 (\<lambda>s. Some s) c = Some a'" using c(2) pc by (simp add: put_def)
  ultimately show ?thesis using sim_put_grows [OF _ grows_emits(3) _ d(2)] by blast
qed

lemma int_item_sim:
  assumes "sim a b" "w \<in> {1, 2, 4}" "int_item w a = Some (g, a')" "int_item w b = Some (h, b')"
  shows "g = h \<and> sim a' b'"
proof -
  note n = sim_advance [OF assms(1)]
  note n2 = sim_advance [OF n]
  note ty = simD(7) [OF n] simD(7) [OF n2]
  consider "tt (advance a) = T_INT" | "tt (advance a) = T_MINUS" | "tt (advance a) \<notin> {T_INT, T_MINUS}" by auto
  then show ?thesis
  proof cases
    case 1
    then obtain c d where "put (int w) (emit_int w (tok_ival (ma_lex (advance a)))) (advance a) = Some c" "g" "h" "a' = advance c"
      "put (int w) (emit_int w (tok_ival (ma_lex (advance b)))) (advance b) = Some d" "b' = advance d"
      using assms(3,4) ty by (auto simp: int_item_def Let_def bind_eq_Some_conv)
    then show ?thesis using sim_put_grows [OF n grows_emits(2) [OF assms(2)]] by auto
  next
    case 2
    show ?thesis
    proof (cases "tt (advance (advance a)) = T_INT")
      case True
      then obtain v v' c d where "put (int w) (emit_int w v) (advance (advance a)) = Some c" "g" "h" "a' = advance c"
        "put (int w) (emit_int w v') (advance (advance b)) = Some d" "b' = advance d"
        using assms(3,4) ty 2 by (auto simp: int_item_def Let_def bind_eq_Some_conv)
      then show ?thesis using sim_put_grows [OF n2 grows_emits(2) [OF assms(2)]] by auto
    next
      case False
      then show ?thesis using assms(3,4) ty 2 n2 by (simp add: int_item_def Let_def)
    qed
  next
    case 3
    then show ?thesis
      using assms(3,4) ty n word_sym_sim [OF n] by (auto simp: int_item_def Let_def bind_eq_Some_conv split: if_splits)
  qed
qed

lemma emit_int_list_sim:
  assumes "sim a b" "w \<in> {1, 2, 4}" "emit_int_list w a = Some a'" "emit_int_list w b = Some b'"
  shows "sim a' b'"
  using assms
proof (induction w a arbitrary: b rule: emit_int_list.induct)
  case (1 w a)
  obtain g c where c: "int_item w a = Some (g, c)" using 1(4) by (auto simp: emit_int_list.simps [of w a] split: option.splits)
  obtain h d where d: "int_item w b = Some (h, d)" using 1(5) by (auto simp: emit_int_list.simps [of w b] split: option.splits)
  note s = int_item_sim [OF 1(2,3) c d]
  show ?case
  proof (cases "g \<and> tt c = T_COMMA")
    case True
    then have "emit_int_list w c = Some a'" "emit_int_list w d = Some b'"
      using 1(4,5) c d s simD(7) [of c d] by (simp_all add: emit_int_list.simps [of w a] emit_int_list.simps [of w b])
    then show ?thesis using 1(1) [OF c refl True, of d] 1(3) s by simp
  next
    case False
    then show ?thesis
      using 1(4,5) c d s simD(7) [of c d] by (auto simp: emit_int_list.simps [of w a] emit_int_list.simps [of w b])
  qed
qed

lemma emit_string_sim:
  assumes "sim a b" "emit_string z a = Some a'" "emit_string z b = Some b'"
  shows "sim a' b'"
proof -
  note n = sim_advance [OF assms(1)]
  show ?thesis
  proof (cases "tt (advance a) = T_STRING")
    case True
    define vs :: "u8 list" where "vs = map of_char (tok_str (ma_lex (advance a))) @ (if z then [0] else [])"
    have "tok_str (ma_lex (advance b)) = tok_str (ma_lex (advance a))" using lex_eq_text(3) [OF simD(1) [OF n] True] .
    then obtain c d where "put (int (length vs)) (sec_emit_bytes vs) (advance a) = Some c" "a' = advance c"
      "put (int (length vs)) (sec_emit_bytes vs) (advance b) = Some d" "b' = advance d"
      using assms(2,3) simD(7) [OF n] True by (auto simp: emit_string_def Let_def bind_eq_Some_conv vs_def)
    then show ?thesis using sim_put_grows [OF n grows_emits(1)] by auto
  next
    case False
    then show ?thesis using assms(2,3) simD(7) [OF n] n by (auto simp: emit_string_def Let_def split: if_splits)
  qed
qed

lemma do_align_sim:
  assumes "sim a b" "n > 0" "do_align n a = Some a'" "do_align n b = Some b'"
  shows "sim a' b'"
proof -
  let ?al = "\<lambda>a. set_cur ((cur a)\<lparr> sec_align_req := max n (sec_align_req (cur a)) \<rparr>) a"
  have s: "sim (?al a) (?al b)" using assms(1) by (auto simp: sim_def set_cur_def cur_def label_no_def)
  have c: "sec_len (cur (?al b)) = sec_len (cur b)" by (simp add: cur_def set_cur_def)
  show ?thesis
    using assms simD(6) [OF assms(1)] c
    by (intro sim_put [OF s]) (auto simp: do_align_def Let_def sec_align_def dest!: sec_emit_bytes_len)
qed

lemma on_st_sim: "sim a b \<Longrightarrow> on_st f a = Some a' \<Longrightarrow> on_st g b = Some b' \<Longrightarrow> sim a' b'"
  by (auto simp: on_st_def bind_eq_Some_conv intro: sim_st)

lemma intern_tok_sim: "sim a b \<Longrightarrow> sim (snd (intern_tok a)) (snd (intern_tok b))"
  by (simp add: intern_tok_def case_prod_unfold Let_def sim_st)

lemma name_tok_sim: "sim a b \<Longrightarrow> is_name_tok b = is_name_tok a"
  using simD(7) by (auto simp: is_name_tok_def)

lemma name_text_sim: "sim a b \<Longrightarrow> is_name_tok a \<Longrightarrow> tok_str (ma_lex b) = tok_str (ma_lex a)"
  using lex_eq_text(1,2) simD(1) by (auto simp: is_name_tok_def)

lemma sim_section: "sim a b \<Longrightarrow> sim (a\<lparr> ma_cur_section := k \<rparr>) (b\<lparr> ma_cur_section := k \<rparr>)"
  by (simp add: sim_def label_no_def)

lemma dir_section_sim: "sim a b \<Longrightarrow> sim (dir_section a) (dir_section b)"
  using name_tok_sim [OF sim_advance] name_text_sim [OF sim_advance]
  by (auto simp: dir_section_def Let_def intro!: sim_skip_line sim_section)

lemma dir_globl_sim:
  assumes "sim a b" "dir_globl w a = Some a'" "dir_globl w b = Some b'"
  shows "sim a' b'"
  using assms(2,3) name_tok_sim [OF sim_advance [OF assms(1)]] intern_tok_sim [OF sim_advance [OF assms(1)]] sim_advance [OF assms(1)]
  by (auto simp: dir_globl_def Let_def case_prod_unfold bind_eq_Some_conv split: if_splits intro: on_st_sim)

lemma align_bytes_pos [simp]: "align_bytes n > 0"
  by (simp add: align_bytes_def)

lemma dir_align_sim:
  assumes "sim a b" "dir_align a = Some a'" "dir_align b = Some b'"
  shows "sim a' b'"
proof -
  note n = sim_advance [OF assms(1)]
  show ?thesis
    using assms(2,3) simD(7) [OF n] lex_eq_text(5) [OF simD(1) [OF n]] n do_align_sim [OF sim_advance [OF n] align_bytes_pos]
    by (auto simp: dir_align_def Let_def split: if_splits)
qed

text \<open>The count of a \<open>.space\<close> the parser stands at is not negative.\<close>

definition space_ok :: "mips_asm \<Rightarrow> bool" where
  "space_ok a \<longleftrightarrow>
     (tt a = T_DOT_IDENT \<and> tok_str (ma_lex a) \<in> {''.space'', ''.zero'', ''.skip''} \<and> tt (advance a) = T_INT \<longrightarrow>
      int32 (tok_ival (ma_lex (advance a))) \<ge> 0)"

lemma dir_space_sim:
  assumes "sim a b" "dir_space a = Some a'" "dir_space b = Some b'"
    and ok: "tt (advance a) = T_INT \<longrightarrow> int32 (tok_ival (ma_lex (advance a))) \<ge> 0"
  shows "sim a' b'"
proof -
  note n = sim_advance [OF assms(1)]
  show ?thesis
    using assms(2,3) simD(7) [OF n] lex_eq_text(5) [OF simD(1) [OF n]] n sim_put_grows [OF n grows_space] ok
    by (auto simp: dir_space_def Let_def bind_eq_Some_conv split: if_splits intro!: sim_skip_line sim_advance)
qed

lemma dir_type_sim:
  assumes "sim a b" "dir_type a = Some a'" "dir_type b = Some b'"
  shows "sim a' b'"
proof -
  note n = sim_advance [OF assms(1)]
  show ?thesis
  proof (cases "is_name_tok (advance a)")
    case True
    then obtain l st m st' where "type_loop (fst (intern_tok (advance a))) (lex_next (lex_next (ma_lex a))) (ma_st (snd (intern_tok (advance a)))) = Some (l, st)"
      "type_loop (fst (intern_tok (advance b))) (lex_next (lex_next (ma_lex b))) (ma_st (snd (intern_tok (advance b)))) = Some (m, st')"
      "a' = (snd (intern_tok (advance a)))\<lparr> ma_lex := l, ma_st := st \<rparr>" "b' = (snd (intern_tok (advance b)))\<lparr> ma_lex := m, ma_st := st' \<rparr>"
      using assms(2,3) name_tok_sim [OF n] by (auto simp: dir_type_def Let_def case_prod_unfold bind_eq_Some_conv)
    then show ?thesis
      using type_loop_eq [OF lex_eq_next [OF lex_eq_next [OF simD(1) [OF assms(1)]]]] intern_tok_sim [OF n]
      by (auto intro!: sim_st(1) sim_lex)
  next
    case False
    then show ?thesis using assms(2,3) name_tok_sim [OF n] n by (auto simp: dir_type_def Let_def)
  qed
qed

lemma dir_size_sim:
  assumes "sim a b" "dir_size a = Some a'" "dir_size b = Some b'"
  shows "sim a' b'"
proof -
  note n = sim_advance [OF assms(1)]
  note i = sim_advance [OF intern_tok_sim [OF n]]
  let ?a = "advance (snd (intern_tok (advance a)))" and ?b = "advance (snd (intern_tok (advance b)))"
  show ?thesis
  proof (cases "is_name_tok (advance a) \<and> tt ?a = T_COMMA")
    case True
    then obtain v l c w m d where "size_loop (ma_st ?a) 0 False (lex_next (ma_lex ?a)) = Some (v, l)"
      "on_st (sym_set_size (fst (intern_tok (advance a))) (word_of_int (max 0 v))) (?a\<lparr> ma_lex := l \<rparr>) = Some c" "a' = skip_line c"
      "size_loop (ma_st ?b) 0 False (lex_next (ma_lex ?b)) = Some (w, m)"
      "on_st (sym_set_size (fst (intern_tok (advance b))) (word_of_int (max 0 w))) (?b\<lparr> ma_lex := m \<rparr>) = Some d" "b' = skip_line d"
      using assms(2,3) name_tok_sim [OF n] simD(7) [OF i] by (auto simp: dir_size_def Let_def case_prod_unfold bind_eq_Some_conv)
    then show ?thesis
      using size_loop_eq [OF lex_eq_next [OF simD(1) [OF i]]] sim_lex [OF i] by (auto intro!: sim_skip_line elim!: on_st_sim [rotated])
  next
    case False
    then show ?thesis
      using assms(2,3) name_tok_sim [OF n] n i simD(7) [OF i]
      by (auto simp: dir_size_def Let_def case_prod_unfold split: if_splits)
  qed
qed

lemma dir_file_sim: "sim a b \<Longrightarrow> sim (dir_file a) (dir_file b)"
proof -
  assume s: "sim a b"
  have f: "sim x y \<Longrightarrow> sim (x\<lparr> ma_debug_file := p \<rparr>) (y\<lparr> ma_debug_file := q \<rparr>)" for x y p q by (simp add: sim_def label_no_def)
  show ?thesis
    using simD(7) [OF sim_advance [OF s]] simD(7) [OF sim_advance [OF sim_advance [OF s]]] s
    by (auto simp: dir_file_def Let_def intro!: sim_skip_line f)
qed

lemma dir_loc_sim: "sim a b \<Longrightarrow> sim (dir_loc a) (dir_loc b)"
proof -
  assume s: "sim a b"
  have f: "sim x y \<Longrightarrow> sim x (mips_add_locrow off k y)" for x y off k by (simp add: sim_def label_no_def mips_add_locrow_def)
  note n = sim_advance [OF s]
  note n2 = sim_advance [OF n]
  show ?thesis
    using simD(3,4) [OF n] simD(3,4) [OF n2] simD(7) [OF n] simD(7) [OF n2] n n2
    by (auto simp: dir_loc_def Let_def intro!: sim_skip_line f)
qed

definition both :: "mips_asm option \<Rightarrow> mips_asm option \<Rightarrow> bool" where
  "both r r' \<longleftrightarrow> (\<forall>a b. r = Some a \<longrightarrow> r' = Some b \<longrightarrow> sim a b)"

lemma both_Some [simp]: "both (Some a) (Some b) \<longleftrightarrow> sim a b"
  by (simp add: both_def)

lemma both_if: "(c \<Longrightarrow> both x x') \<Longrightarrow> both y y' \<Longrightarrow> both (if c then x else y) (if c then x' else y')"
  by simp

lemma both_Some_intro: "sim a b \<Longrightarrow> both (Some a) (Some b)"
  by simp

lemma handle_directive_sim:
  assumes s: "sim a b" and sp: "dir \<in> {''.space'', ''.zero'', ''.skip''} \<Longrightarrow> tt (advance a) = T_INT \<Longrightarrow> int32 (tok_ival (ma_lex (advance a))) \<ge> 0"
  shows "both (handle_directive dir a) (handle_directive dir b)"
proof -
  have l: "both (emit_int_list w a) (emit_int_list w b)" if "w \<in> {1, 2, 4}" for w
    using emit_int_list_sim [OF s that] by (simp add: both_def)
  have z: "both (emit_string z a) (emit_string z b)" for z using emit_string_sim [OF s] by (simp add: both_def)
  have g: "both (dir_globl z a) (dir_globl z b)" for z using dir_globl_sim [OF s] by (simp add: both_def)
  have al: "both (dir_align a) (dir_align b)" using dir_align_sim [OF s] by (simp add: both_def)
  have p: "both (dir_space a) (dir_space b)" if "dir = ''.space'' \<or> dir = ''.zero'' \<or> dir = ''.skip''"
    using dir_space_sim [OF s] sp that by (auto simp: both_def)
  have ty: "both (dir_type a) (dir_type b)" using dir_type_sim [OF s] by (simp add: both_def)
  have sz: "both (dir_size a) (dir_size b)" using dir_size_sim [OF s] by (simp add: both_def)
  show ?thesis
    unfolding handle_directive_def
    by (intro both_if both_Some_intro sim_section [OF s] dir_section_sim [OF s] l z g al p ty sz dir_file_sim [OF s]
        dir_loc_sim [OF s] sim_skip_line [OF s]) simp_all
qed

definition line_operands :: "mips_asm \<Rightarrow> (mips_operand list \<times> mips_asm) option" where
  "line_operands a = (if tt a \<noteq> T_NEWLINE \<and> tt a \<noteq> T_EOF then parse_operands MAX_OPS a else Some ([], a))"

lemma parse_instructionD:
  assumes "parse_instruction m a = Some a'"
  obtains ops b c n where "line_operands a = Some (ops, b)" "mips_encode m ops (ma_pass b = 2) b = Some (c, n)" "n \<ge> 0"
    "(if ma_pass c = 1 then map_option skip_line (add_len n c) else Some (skip_line c)) = Some a'"
proof -
  obtain ops b where b: "line_operands a = Some (ops, b)"
    using assms unfolding parse_instruction_def line_operands_def [symmetric] by (cases "line_operands a") auto
  obtain c n where c: "mips_encode m ops (ma_pass b = 2) b = Some (c, n)"
    using assms unfolding parse_instruction_def line_operands_def [symmetric] b by (cases "mips_encode m ops (ma_pass b = 2) b") auto
  have "(if n < 0 then None else do { a \<leftarrow> (if ma_pass c = 1 then add_len n c else Some c); Some (skip_line a) }) = Some a'"
    using assms c unfolding parse_instruction_def line_operands_def [symmetric] b by simp
  then have "n \<ge> 0" "(if ma_pass c = 1 then map_option skip_line (add_len n c) else Some (skip_line c)) = Some a'"
    by (auto simp: bind_eq_Some_conv split: if_splits)
  then show ?thesis using that [OF b c] by simp
qed

lemma line_operands_sim: "sim a b \<Longrightarrow> same_ops (line_operands a) (line_operands b)"
  using simD(7) parse_operands_sim by (simp add: line_operands_def)

lemma parse_instruction_sim:
  assumes s: "sim a b" and a': "parse_instruction m a = Some a'" and b': "parse_instruction m b = Some b'"
  shows "sim a' b'"
proof -
  obtain ops c c1 k where c: "line_operands a = Some (ops, c)" "mips_encode m ops (ma_pass c = 2) c = Some (c1, k)"
    "(if ma_pass c1 = 1 then map_option skip_line (add_len k c1) else Some (skip_line c1)) = Some a'"
    by (rule parse_instructionD [OF a'])
  obtain ops' d d1 n where d: "line_operands b = Some (ops', d)" "mips_encode m ops' (ma_pass d = 2) d = Some (d1, n)" "n \<ge> 0"
    "(if ma_pass d1 = 1 then map_option skip_line (add_len n d1) else Some (skip_line d1)) = Some b'"
    by (rule parse_instructionD [OF b'])
  have cd: "sim c d" and ops: "ops' = ops" using line_operands_sim [OF s] c(1) d(1) by auto
  have e: "mips_encode m ops True d = Some (d1, n)" using d(2) ops simD(4) [OF cd] by simp
  have "mips_encode m ops False c = Some (c, n)" using encode_size [OF e d(3)] .
  then have k: "c1 = c" "k = n" using c(2) simD(3) [OF cd] by simp_all
  then obtain c2 where c2: "add_len n c = Some c2" "a' = skip_line c2" using c(3) simD(3) [OF cd] by auto
  have b2: "b' = skip_line d1" using d(4) encode_lex [OF e] simD(4) [OF cd] by simp
  have f: "asm_frame d n d1" using mips_encode_ok [of True d m ops] e d(3) by (auto simp: enc_ok_def)
  have "c2 = set_cur ((cur c)\<lparr> sec_len := sec_len (cur c) + n \<rparr>) c" using c2(1) by (auto simp: add_len_def Let_def split: if_splits)
  then have "sim c2 d1" using cd f by (simp add: sim_def asm_frame_def set_cur_def cur_def label_no_def)
  then show ?thesis using c2(2) b2 by auto
qed

lemma define_label_sim:
  assumes "sim a b" "define_label name a = Some a'" "define_label name' b = Some b'"
  shows "sim a' b'" "ma_numlabels a' = ma_numlabels a" "ma_numlabels b' = ma_numlabels b"
proof -
  obtain st where "a' = a\<lparr> ma_st := st \<rparr>" "b' = b"
    using assms simD(3,4) [OF assms(1)] by (auto simp: define_label_def on_st_def bind_eq_Some_conv case_prod_unfold Let_def)
  then show "sim a' b'" "ma_numlabels a' = ma_numlabels a" "ma_numlabels b' = ma_numlabels b"
    using sim_st(1) [OF assms(1), of st "ma_st b"] by simp_all
qed

lemma pass_int_sim:
  assumes s: "sim a b" and i: "tt a = T_INT" and "pass_int a = Some a'" "pass_int b = Some b'"
  shows "sim a' b'"
proof -
  note n = sim_advance [OF s]
  let ?num = "int32 (tok_ival (ma_lex a))"
  have v: "tok_ival (ma_lex b) = tok_ival (ma_lex a)" using lex_eq_text(5) [OF simD(1) [OF s] i] .
  show ?thesis
  proof (cases "tt (advance a) = T_COLON \<and> ?num \<ge> 0")
    case True
    note q = sim_numlabel_count [OF sim_advance [OF n], of ?num]
    obtain x y c d where "define_label x (snd (numlabel_count ?num (advance (advance a)))) = Some c" "a' = numlabel_bump ?num c"
      "define_label y (snd (numlabel_count ?num (advance (advance b)))) = Some d" "b' = numlabel_bump ?num d"
      using assms(3,4) True v simD(7) [OF n] by (auto simp: pass_int_def Let_def case_prod_unfold bind_eq_Some_conv)
    then show ?thesis using define_label_sim [OF q] numlabel_count_no(3) by (auto intro!: sim_bump)
  next
    case False
    then show ?thesis using assms(3,4) v simD(7) [OF n] sim_end_line [OF sim_skip_line [OF s]] by (auto simp: pass_int_def Let_def)
  qed
qed

lemma pass_step_sim:
  assumes s: "sim a b" and ok: "space_ok a" and a': "pass_step a = Some a'" and b': "pass_step b = Some b'"
  shows "sim a' b'"
proof -
  note n = sim_advance [OF s]
  note ty = simD(7) [OF s] simD(7) [OF n]
  have lab: "sim a' b'" if "define_label x (advance (advance a)) = Some a'" "define_label y (advance (advance b)) = Some b'" for x y
    using define_label_sim(1) [OF sim_advance [OF n] that] .
  consider "tt a = T_INT" | "tt a = T_DOT_IDENT" | "tt a = T_IDENT" | "tt a \<notin> {T_INT, T_DOT_IDENT, T_IDENT}" by auto
  then show ?thesis
  proof cases
    case 1
    then show ?thesis using pass_int_sim [OF s 1] a' b' ty by (simp add: pass_step_def)
  next
    case 2
    note x = lex_eq_text(2) [OF simD(1) [OF s] 2]
    show ?thesis
    proof (cases "tt (advance a) = T_COLON")
      case True
      then show ?thesis using a' b' 2 ty lab by (simp add: pass_step_def pass_dot_def Let_def)
    next
      case False
      have "both (handle_directive (tok_str (ma_lex a)) a) (handle_directive (tok_str (ma_lex a)) b)"
        using ok 2 by (intro handle_directive_sim [OF s]) (auto simp: space_ok_def)
      moreover obtain c d where "handle_directive (tok_str (ma_lex a)) a = Some c" "a' = end_line (skip_line c)"
        "handle_directive (tok_str (ma_lex a)) b = Some d" "b' = end_line (skip_line d)"
        using a' b' 2 ty x False by (auto simp: pass_step_def pass_dot_def Let_def bind_eq_Some_conv)
      ultimately show ?thesis by (auto simp: both_def intro!: sim_end_line sim_skip_line)
    qed
  next
    case 3
    note x = lex_eq_text(1) [OF simD(1) [OF s] 3]
    show ?thesis
    proof (cases "tt (advance a) = T_COLON")
      case True
      then show ?thesis using a' b' 3 ty lab by (simp add: pass_step_def pass_ident_def Let_def)
    next
      case False
      then show ?thesis
        using a' b' 3 ty x parse_instruction_sim [OF n] by (auto simp: pass_step_def pass_ident_def Let_def bind_eq_Some_conv)
    qed
  next
    case 4
    then show ?thesis using a' b' n ty sim_end_line [OF sim_skip_line [OF s]] by (cases "tt a") (auto simp: pass_step_def)
  qed
qed

subsection \<open>What a line does to the labels\<close>

text \<open>The label the parser stands at, if any.\<close>

definition line_label :: "mips_asm \<Rightarrow> string option" where
  "line_label a =
     (if tt (advance a) \<noteq> T_COLON then None
      else if tt a = T_IDENT \<or> tt a = T_DOT_IDENT then Some (tok_str (ma_lex a))
      else if tt a = T_INT \<and> int32 (tok_ival (ma_lex a)) \<ge> 0
      then Some (numlabel_name (int32 (tok_ival (ma_lex a))) (label_no a (int32 (tok_ival (ma_lex a)))))
      else None)"

lemma line_label_sim:
  assumes "sim a b"
  shows "line_label b = line_label a"
  using simD(7) [OF assms] simD(7) [OF sim_advance [OF assms]] simD(5) [OF assms] lex_eq_text(1,2,5) [OF simD(1) [OF assms]]
  by (auto simp: line_label_def)

definition same_labels :: "mips_asm \<Rightarrow> mips_asm \<Rightarrow> bool" where
  "same_labels a b \<longleftrightarrow> defined_labels (ma_st b) = defined_labels (ma_st a) \<and> ma_pass b = ma_pass a"

lemma same_labels_refl [simp]: "same_labels a a"
  by (simp add: same_labels_def)

lemma same_labels_trans: "same_labels a b \<Longrightarrow> same_labels b c \<Longrightarrow> same_labels a c"
  by (simp add: same_labels_def)

lemma same_labels_upd [simp]:
  "same_labels a (b\<lparr> ma_lex := l \<rparr>) = same_labels a b" "same_labels a (b\<lparr> ma_numlabels := x \<rparr>) = same_labels a b"
  "same_labels a (b\<lparr> ma_cur_section := k \<rparr>) = same_labels a b" "same_labels a (b\<lparr> ma_debug_file := f \<rparr>) = same_labels a b"
  "same_labels a (b\<lparr> ma_locrows := r \<rparr>) = same_labels a b" "same_labels a (set_cur s b) = same_labels a b"
  "same_labels a (advance b) = same_labels a b" "same_labels a (skip_line b) = same_labels a b"
  "same_labels a (end_line b) = same_labels a b" "same_labels a (numlabel_bump num b) = same_labels a b"
  "same_labels a (mips_add_locrow off n b) = same_labels a b"
  by (simp_all add: same_labels_def set_cur_def advance_def skip_line_def end_line_def numlabel_bump_def mips_add_locrow_def)

lemma same_labels_from [simp]:
  "same_labels (a\<lparr> ma_lex := l \<rparr>) b = same_labels a b" "same_labels (advance a) b = same_labels a b"
  "same_labels (set_cur s a) b = same_labels a b"
  by (simp_all add: same_labels_def advance_def set_cur_def)

lemma put_labels: "put n f a = Some b \<Longrightarrow> same_labels a b"
  by (auto simp: put_def on_cur_def add_len_def Let_def bind_eq_Some_conv split: if_splits)

lemma numlabel_count_labels [simp]: "same_labels a (snd (numlabel_count num a))"
  using numlabel_count_rest [of num a] by auto

lemma intern_tok_labels [simp]: "same_labels a (snd (intern_tok a))"
  by (simp add: intern_tok_def case_prod_unfold Let_def same_labels_def)

lemma parse_operand_labels: "parse_operand a = Some (o1, b) \<Longrightarrow> same_labels a b"
  using numlabel_count_labels
  by (auto simp: parse_operand_def with_lex_def bind_eq_Some_conv parse_ident_def numeric_ref_name_def Let_def case_prod_unfold
      split: token_type.splits option.splits)

lemma parse_operands_labels: "parse_operands n a = Some (os, b) \<Longrightarrow> same_labels a b"
proof (induction n arbitrary: a os)
  case (Suc n)
  then obtain o1 c where c: "parse_operand a = Some (o1, c)" by (auto simp: bind_eq_Some_conv)
  then have "same_labels a c" by (rule parse_operand_labels)
  then show ?case
    using Suc c by (auto simp: bind_eq_Some_conv split: if_splits dest!: Suc.IH elim: same_labels_trans)
qed simp

lemma instruction_labels:
  assumes "parse_instruction m a = Some b"
  shows "same_labels a b"
proof -
  obtain ops c d n where c: "line_operands a = Some (ops, c)" "mips_encode m ops (ma_pass c = 2) c = Some (d, n)" "n \<ge> 0"
    "(if ma_pass d = 1 then map_option skip_line (add_len n d) else Some (skip_line d)) = Some b"
    by (rule parse_instructionD [OF assms])
  have "same_labels a c" using c(1) by (auto simp: line_operands_def split: if_splits dest: parse_operands_labels)
  moreover have "same_labels c d"
    using mips_encode_ok [of "ma_pass c = 2" c m ops] c(2,3) by (auto simp: enc_ok_def same_labels_def asm_frame_def split: if_splits)
  moreover have "same_labels d b" using c(4) by (auto simp: add_len_def Let_def split: if_splits)
  ultimately show ?thesis using same_labels_trans by blast
qed

lemma word_addend_labels: "word_addend a = Some (v, b) \<Longrightarrow> same_labels a b"
  by (auto simp: word_addend_def Let_def split: if_splits)

lemma word_sym_labels:
  assumes "word_sym a = Some b"
  shows "same_labels a b"
proof -
  obtain c v d f where c: "word_addend c = Some (v, d)" "put 4 f d = Some b"
    "defined_labels (ma_st c) = defined_labels (ma_st a)" "ma_pass c = ma_pass a"
    using assms by (auto simp: word_sym_def bind_eq_Some_conv case_prod_unfold Let_def advance_def split: if_splits)
  from same_labels_trans [OF word_addend_labels [OF c(1)] put_labels [OF c(2)]] show ?thesis using c(3,4) by (simp add: same_labels_def)
qed

lemma int_item_labels: "int_item w a = Some (g, b) \<Longrightarrow> same_labels a b"
  by (auto simp: int_item_def Let_def bind_eq_Some_conv split: if_splits dest!: put_labels word_sym_labels)

lemma emit_int_list_labels: "emit_int_list w a = Some b \<Longrightarrow> same_labels a b"
proof (induction w a rule: emit_int_list.induct)
  case (1 w a)
  obtain g c where c: "int_item w a = Some (g, c)" using 1(2) by (auto simp: emit_int_list.simps [of w a] split: option.splits)
  then show ?case
    using 1 int_item_labels [OF c] by (auto simp: emit_int_list.simps [of w a] split: if_splits elim: same_labels_trans)
qed

lemma on_st_labels:
  "on_st f a = Some b \<Longrightarrow> (\<And>st'. f (ma_st a) = Some st' \<Longrightarrow> defined_labels st' = defined_labels (ma_st a)) \<Longrightarrow> same_labels a b"
  by (auto simp: on_st_def bind_eq_Some_conv same_labels_def)

lemma type_loop_labels: "type_loop i l st = Some (l', st') \<Longrightarrow> defined_labels st' = defined_labels st"
proof (induction i l st rule: type_loop.induct)
  case (1 i l st)
  then show ?case
    by (cases "tok_type l = T_NEWLINE \<or> tok_type l = T_EOF")
      (auto simp: type_loop.simps [of i l st] split: option.splits if_splits dest: flag_labels)
qed

lemma dir_globl_labels:
  assumes "dir_globl w a = Some b"
  shows "same_labels a b"
proof (cases "is_name_tok (advance a)")
  case True
  then obtain c where c: "on_st (if w then sym_set_weak (fst (intern_tok (advance a))) else sym_set_global (fst (intern_tok (advance a))))
      (snd (intern_tok (advance a))) = Some c" "b = advance c"
    using assms by (auto simp: dir_globl_def Let_def case_prod_unfold bind_eq_Some_conv)
  have "same_labels (snd (intern_tok (advance a))) c" using c(1) by (rule on_st_labels) (auto split: if_splits dest: flag_labels)
  then show ?thesis using same_labels_trans [OF intern_tok_labels [of "advance a"]] c(2) by simp
qed (use assms in \<open>auto simp: dir_globl_def Let_def\<close>)

lemma dir_type_labels:
  assumes "dir_type a = Some b"
  shows "same_labels a b"
proof (cases "is_name_tok (advance a)")
  case True
  let ?i = "snd (intern_tok (advance a))"
  obtain l st where c: "type_loop (fst (intern_tok (advance a))) (lex_next (lex_next (ma_lex a))) (ma_st ?i) = Some (l, st)"
    "b = ?i\<lparr> ma_lex := l, ma_st := st \<rparr>"
    using assms True by (auto simp: dir_type_def Let_def case_prod_unfold bind_eq_Some_conv)
  show ?thesis using intern_tok_labels [of "advance a"] type_loop_labels [OF c(1)] c(2) by (simp add: same_labels_def advance_def)
qed (use assms in \<open>auto simp: dir_type_def Let_def\<close>)

lemma dir_size_labels:
  assumes "dir_size a = Some b"
  shows "same_labels a b"
proof (cases "is_name_tok (advance a) \<and> tt (advance (snd (intern_tok (advance a)))) = T_COMMA")
  case True
  let ?i = "advance (snd (intern_tok (advance a)))"
  obtain v l c where c: "on_st (sym_set_size (fst (intern_tok (advance a))) (word_of_int (max 0 v))) (?i\<lparr> ma_lex := l \<rparr>) = Some c"
    "b = skip_line c"
    using assms True by (auto simp: dir_size_def Let_def case_prod_unfold bind_eq_Some_conv)
  have "same_labels (?i\<lparr> ma_lex := l \<rparr>) c" using c(1) by (rule on_st_labels) (auto dest: flag_labels)
  then show ?thesis using same_labels_trans [OF intern_tok_labels [of "advance a"]] c(2) by simp
next
  case False
  then show ?thesis
    using assms by (auto simp: intern_tok_labels [of "advance a", unfolded same_labels_from] dir_size_def Let_def case_prod_unfold split: if_splits)
qed

lemma directive_labels:
  "same_labels a (dir_section a)" "same_labels a (dir_file a)" "same_labels a (dir_loc a)"
  "dir_align a = Some b \<Longrightarrow> same_labels a b" "dir_space a = Some b \<Longrightarrow> same_labels a b" "emit_string z a = Some b \<Longrightarrow> same_labels a b"
  subgoal by (simp add: dir_section_def Let_def)
  subgoal by (simp add: dir_file_def Let_def)
  subgoal by (auto simp: dir_loc_def Let_def split: option.split)
  subgoal by (auto simp: dir_align_def do_align_def Let_def split: if_splits dest!: put_labels)
  subgoal by (auto simp: dir_space_def Let_def bind_eq_Some_conv split: if_splits dest!: put_labels)
  subgoal by (auto simp: emit_string_def Let_def bind_eq_Some_conv split: if_splits dest!: put_labels)
  done

definition keeps :: "mips_asm \<Rightarrow> mips_asm option \<Rightarrow> bool" where
  "keeps a r \<longleftrightarrow> (\<forall>b. r = Some b \<longrightarrow> same_labels a b)"

lemma keeps_if: "keeps a x \<Longrightarrow> keeps a y \<Longrightarrow> keeps a (if c then x else y)"
  by simp

lemma handle_directive_keeps: "keeps a (handle_directive dir a)"
  unfolding handle_directive_def
  by (intro keeps_if)
    (auto simp: keeps_def intro: directive_labels dir_size_labels dir_type_labels dir_globl_labels emit_int_list_labels)

text \<open>Pass 2 keeps the labels; pass 1 adds only the one it stands at, with the section and offset it has reached.\<close>

lemma define_label_labels:
  assumes "define_label name a = Some b"
  shows "ma_pass b = ma_pass a"
    "defined_labels (ma_st b) \<subseteq> insert (name, int (ma_cur_section a), word_of_int (sec_len (cur a))) (defined_labels (ma_st a))"
    "ma_pass a = 2 \<Longrightarrow> b = a"
proof -
  show "ma_pass a = 2 \<Longrightarrow> b = a" using assms by (simp add: define_label_def)
  show "ma_pass b = ma_pass a"
    using assms by (auto simp: define_label_def on_st_def case_prod_unfold Let_def bind_eq_Some_conv split: if_splits)
  let ?i = "sym_intern (ma_st a) name"
  show "defined_labels (ma_st b) \<subseteq> insert (name, int (ma_cur_section a), word_of_int (sec_len (cur a))) (defined_labels (ma_st a))"
  proof (cases "ma_pass a = 1")
    case True
    then have "sym_define (fst ?i) (int (ma_cur_section a)) (word_of_int (sec_len (cur a))) (snd ?i) = Some (ma_st b)"
      using assms by (auto simp: define_label_def on_st_def case_prod_unfold Let_def bind_eq_Some_conv cur_def)
    from define_labels [OF this sym_intern_index(1)] show ?thesis by (simp add: sym_intern_index(2))
  qed (use assms in \<open>auto simp: define_label_def\<close>)
qed

definition labels_step :: "mips_asm \<Rightarrow> mips_asm \<Rightarrow> bool" where
  "labels_step a b \<longleftrightarrow>
     ma_pass b = ma_pass a \<and> (ma_pass a = 2 \<longrightarrow> defined_labels (ma_st b) = defined_labels (ma_st a)) \<and>
     (\<forall>n s v. (n, s, v) \<in> defined_labels (ma_st b) \<longrightarrow> (n, s, v) \<in> defined_labels (ma_st a) \<or>
       line_label a = Some n \<and> s = int (ma_cur_section a) \<and> v = word_of_int (sec_len (cur a)))"

lemma same_labels_step: "same_labels a b \<Longrightarrow> labels_step a b"
  by (auto simp: same_labels_def labels_step_def)

lemma define_label_step:
  assumes "define_label name c = Some d" "line_label a = Some name" "same_labels a c" "ma_cur_section c = ma_cur_section a"
    "cur c = cur a" "ma_st b = ma_st d" "ma_pass b = ma_pass d"
  shows "labels_step a b"
  using define_label_labels [OF assms(1)] assms(2-7) by (auto simp: same_labels_def labels_step_def)

lemma advance_cur [simp]: "cur (advance a) = cur a" "ma_cur_section (advance a) = ma_cur_section a" "label_no (advance a) n = label_no a n"
  by (simp_all add: advance_def cur_def label_no_def)

lemma numlabel_count_cur: "cur (snd (numlabel_count n a)) = cur a" "ma_cur_section (snd (numlabel_count n a)) = ma_cur_section a"
  using numlabel_count_rest [of n a] by (auto simp: cur_def)

lemma pass_int_labels:
  assumes "pass_int a = Some b" "tt a = T_INT"
  shows "labels_step a b"
proof (cases "tt (advance a) = T_COLON \<and> int32 (tok_ival (ma_lex a)) \<ge> 0")
  case True
  let ?num = "int32 (tok_ival (ma_lex a))"
  let ?c = "snd (numlabel_count ?num (advance (advance a)))"
  obtain d where d: "define_label (numlabel_name ?num (label_no a ?num)) ?c = Some d" "b = numlabel_bump ?num d"
    using assms(1) True by (auto simp: pass_int_def Let_def case_prod_unfold bind_eq_Some_conv numlabel_count_no(1))
  have "line_label a = Some (numlabel_name ?num (label_no a ?num))" using True assms(2) by (simp add: line_label_def)
  from d(1) this show ?thesis
    by (rule define_label_step)
      (simp_all add: numlabel_count_labels [of "advance (advance a)", unfolded same_labels_from] numlabel_count_cur numlabel_bump_def d(2))
next
  case False
  then show ?thesis using assms by (auto simp: pass_int_def Let_def intro!: same_labels_step)
qed

lemma pass_step_labels:
  assumes "pass_step a = Some b"
  shows "labels_step a b"
proof -
  have lab: "define_label (tok_str (ma_lex a)) (advance (advance a)) = Some b \<Longrightarrow> tt a = T_IDENT \<or> tt a = T_DOT_IDENT \<Longrightarrow>
      tt (advance a) = T_COLON \<Longrightarrow> labels_step a b"
    by (rule define_label_step [where c = "advance (advance a)" and d = b]) (auto simp: line_label_def)
  have dir: "handle_directive (tok_str (ma_lex a)) a = Some c \<Longrightarrow> b = end_line (skip_line c) \<Longrightarrow> labels_step a b" for c
    using handle_directive_keeps [of a "tok_str (ma_lex a)"] by (auto simp: keeps_def intro!: same_labels_step)
  have ins: "parse_instruction (tok_str (ma_lex a)) (advance a) = Some c \<Longrightarrow> b = end_line c \<Longrightarrow> labels_step a b" for c
    using instruction_labels [of "tok_str (ma_lex a)" "advance a" c] by (auto intro!: same_labels_step)
  consider "tt a = T_INT" | "tt a = T_DOT_IDENT" | "tt a = T_IDENT" | "tt a \<notin> {T_INT, T_DOT_IDENT, T_IDENT}" by auto
  then show ?thesis
  proof cases
    case 1
    then show ?thesis using assms pass_int_labels by (simp add: pass_step_def)
  next
    case 2
    then show ?thesis
      using assms lab dir by (auto simp: pass_step_def pass_dot_def Let_def bind_eq_Some_conv split: if_splits)
  next
    case 3
    then show ?thesis
      using assms lab ins by (auto simp: pass_step_def pass_ident_def Let_def bind_eq_Some_conv split: if_splits)
  next
    case 4
    then show ?thesis using assms by (auto simp: pass_step_def split: token_type.splits intro!: same_labels_step)
  qed
qed

subsection \<open>Whole passes\<close>

text \<open>The state after \<open>n\<close> iterations of the loop of \<open>run_pass\<close>.\<close>

fun pass_steps :: "nat \<Rightarrow> mips_asm \<Rightarrow> mips_asm option" where
  "pass_steps 0 a = Some a"
| "pass_steps (Suc n) a = (if tt a = T_EOF then None else do { a' \<leftarrow> pass_step a; pass_steps n a' })"

text \<open>The state in which the loop of \<open>run_pass\<close> starts.\<close>

definition begin_pass :: "nat \<Rightarrow> mips_asm \<Rightarrow> mips_asm" where
  "begin_pass p a =
     (let a = start_pass p a
      in advance (a\<lparr> ma_cur_section := MSEC_TEXT, ma_numlabels := map (\<lambda>(n, k). (n, 0)) (ma_numlabels a) \<rparr>))"

lemma run_pass_begin: "run_pass (start_pass p a) = pass_loop (begin_pass p a)"
  by (simp add: run_pass_def begin_pass_def Let_def)

text \<open>No \<open>.space\<close> the pass meets has a negative count.\<close>

function spaces_ok :: "mips_asm \<Rightarrow> bool" where
  "spaces_ok a =
     (if tt a = T_EOF then True
      else space_ok a \<and> (case pass_step a of None \<Rightarrow> True | Some a' \<Rightarrow> spaces_ok a'))"
  by pat_completeness auto

termination by (relation "measure (\<lambda>a. work (ma_lex a))") (simp_all add: pass_step_later)

declare spaces_ok.simps [simp del]

lemma pass_loop_step: "tt a \<noteq> T_EOF \<Longrightarrow> pass_loop a = pass_step a \<bind> pass_loop"
  by (subst pass_loop.simps) (simp split: option.split)

lemma spaces_ok_step: "spaces_ok a \<Longrightarrow> tt a \<noteq> T_EOF \<Longrightarrow> space_ok a \<and> (\<forall>a'. pass_step a = Some a' \<longrightarrow> spaces_ok a')"
  by (subst (asm) spaces_ok.simps) (auto split: option.splits)

text \<open>The two runs stay in step: every state of the first pass has its partner in the second.\<close>

definition in_step :: "mips_asm \<Rightarrow> mips_asm \<Rightarrow> bool" where
  "in_step a b \<longleftrightarrow> (\<forall>n c. pass_steps n a = Some c \<longrightarrow> (\<exists>d. pass_steps n b = Some d \<and> sim c d))"

lemma passes_in_step:
  assumes "sim a b" "pass_loop a = Some a'" "pass_loop b = Some b'" "spaces_ok a"
  shows "in_step a b \<and> sim a' b'"
  using assms
proof (induction a arbitrary: b rule: pass_loop.induct)
  case (1 a)
  show ?case
  proof (cases "tt a = T_EOF")
    case True
    then have "a' = a" "b' = b" using 1(3,4) simD(7) [OF 1(2)] by (simp_all add: pass_loop.simps)
    moreover have "in_step a b" unfolding in_step_def
    proof (intro allI impI)
      fix n c
      assume "pass_steps n a = Some c"
      then show "\<exists>d. pass_steps n b = Some d \<and> sim c d" using True 1(2) by (cases n) auto
    qed
    ultimately show ?thesis using 1(2) by simp
  next
    case False
    then have F: "tt b \<noteq> T_EOF" using simD(7) [OF 1(2)] by simp
    obtain c where c: "pass_step a = Some c" "pass_loop c = Some a'" using 1(3) pass_loop_step [OF False] by (auto simp: bind_eq_Some_conv)
    obtain d where d: "pass_step b = Some d" "pass_loop d = Some b'" using 1(4) pass_loop_step [OF F] by (auto simp: bind_eq_Some_conv)
    have cd: "sim c d" using pass_step_sim [OF 1(2) _ c(1) d(1)] spaces_ok_step [OF 1(5) False] by simp
    have ih: "in_step c d \<and> sim a' b'" using 1(1) [OF False c(1) cd c(2) d(2)] spaces_ok_step [OF 1(5) False] c(1) by simp
    have "in_step a b" unfolding in_step_def
    proof (intro allI impI)
      fix n e
      assume "pass_steps n a = Some e"
      then show "\<exists>f. pass_steps n b = Some f \<and> sim e f" using ih 1(2) False F c(1) d(1) by (cases n) (auto simp: in_step_def)
    qed
    then show ?thesis using ih by simp
  qed
qed

lemma sim_begin:
  assumes "lx_src (ma_lex b) = lx_src (ma_lex a)" "lx_inc (ma_lex b) = lx_inc (ma_lex a)" "lx_comment_ch (ma_lex b) = lx_comment_ch (ma_lex a)"
    "lx_reloc_pct (ma_lex b) = lx_reloc_pct (ma_lex a)" "lx_dollar_reg (ma_lex b) = lx_dollar_reg (ma_lex a)"
    "lx_base_src (ma_lex b) = lx_base_src (ma_lex a)"
  shows "sim (begin_pass 1 a) (begin_pass 2 b)"
proof -
  let ?l = "set_type T_NEWLINE ((ma_lex a)\<lparr> lx_pos := lx_src (ma_lex a), lx_line := 1 \<rparr>)"
  let ?m = "set_type T_NEWLINE ((ma_lex b)\<lparr> lx_pos := lx_src (ma_lex b), lx_line := 1 \<rparr>)"
  have "?m = ?l\<lparr> lx_tok := lx_tok ?m \<rparr>" using assms by (simp add: set_type_def)
  then have "lex_eq (lex_next ?l) (lex_next ?m)" using lex_next_eq [of ?l "lx_tok ?m"] by simp
  moreover have "map_of (map (\<lambda>(n, k). (n, 0)) xs) n \<in> {None, Some (0 :: int)}" for xs :: "(int \<times> int) list" and n by (induction xs) auto
  then have "(case map_of (map (\<lambda>(n, k). (n, 0)) xs) n of Some k \<Rightarrow> k | None \<Rightarrow> 0) = (0 :: int)" for xs :: "(int \<times> int) list" and n
    by (metis insertE option.case singletonD)
  ultimately show ?thesis
    by (simp add: sim_def begin_pass_def start_pass_def reset_lexer_def clear_lens_def Let_def advance_def label_no_def)
qed

lemma pass_loop_run:
  assumes "pass_loop a = Some b"
  shows "later (ma_lex a) (ma_lex b) \<and> ma_pass b = ma_pass a \<and> tt b = T_EOF"
  using assms
proof (induction a rule: pass_loop.induct)
  case (1 a)
  show ?case
  proof (cases "tt a = T_EOF")
    case True
    then show ?thesis using 1(2) by (simp add: pass_loop.simps)
  next
    case False
    then obtain c where c: "pass_step a = Some c" "pass_loop c = Some b" using 1(2) pass_loop_step [OF False] by (auto simp: bind_eq_Some_conv)
    show ?thesis
      using 1(1) [OF False c] pass_step_later [OF c(1) False] pass_step_labels [OF c(1)] by (auto simp: labels_step_def intro: later_trans)
  qed
qed

lemma pass2_labels:
  assumes "pass_loop a = Some b" "ma_pass a = 2"
  shows "defined_labels (ma_st b) = defined_labels (ma_st a)"
  using assms
proof (induction a rule: pass_loop.induct)
  case (1 a)
  show ?case
  proof (cases "tt a = T_EOF")
    case False
    then obtain c where c: "pass_step a = Some c" "pass_loop c = Some b" using 1(2) pass_loop_step [OF False] by (auto simp: bind_eq_Some_conv)
    show ?thesis using 1(1) [OF False c] pass_step_labels [OF c(1)] 1(3) by (simp add: labels_step_def)
  qed (use 1(2) in \<open>simp add: pass_loop.simps\<close>)
qed

text \<open>Where a run of pass 1 met a label.\<close>

definition meets_label :: "mips_asm \<Rightarrow> string \<Rightarrow> int \<Rightarrow> u32 \<Rightarrow> bool" where
  "meets_label a name s v \<longleftrightarrow>
     (\<exists>n c. pass_steps n a = Some c \<and> line_label c = Some name \<and> s = int (ma_cur_section c) \<and> v = word_of_int (sec_len (cur c)))"

lemma meets_label_step: "pass_step a = Some c \<Longrightarrow> tt a \<noteq> T_EOF \<Longrightarrow> meets_label c name s v \<Longrightarrow> meets_label a name s v"
  unfolding meets_label_def by (metis (no_types, lifting) bind.bind_lunit pass_steps.simps(2))

lemma meets_label_here: "line_label a = Some name \<Longrightarrow> meets_label a name (int (ma_cur_section a)) (word_of_int (sec_len (cur a)))"
  unfolding meets_label_def by (intro exI [of _ 0] exI [of _ a]) simp

lemma pass_labels:
  assumes "pass_loop a = Some b" "(name, s, v) \<in> defined_labels (ma_st b)"
  shows "(name, s, v) \<in> defined_labels (ma_st a) \<or> meets_label a name s v"
  using assms
proof (induction a rule: pass_loop.induct)
  case (1 a)
  show ?case
  proof (cases "tt a = T_EOF")
    case False
    then obtain c where c: "pass_step a = Some c" "pass_loop c = Some b" using 1(2) pass_loop_step [OF False] by (auto simp: bind_eq_Some_conv)
    show ?thesis
      using 1(1) [OF False c 1(3)] pass_step_labels [OF c(1)] meets_label_step [OF c(1) False] meets_label_here [of a name]
      unfolding labels_step_def by blast
  qed (use 1(2,3) in \<open>simp add: pass_loop.simps\<close>)
qed

lemma meets_label_in_step:
  assumes "in_step a b" "meets_label a name s v"
  shows "meets_label b name s v"
proof -
  obtain n c where c: "pass_steps n a = Some c" "line_label c = Some name" "s = int (ma_cur_section c)" "v = word_of_int (sec_len (cur c))"
    using assms(2) by (auto simp: meets_label_def)
  then obtain d where d: "pass_steps n b = Some d" "sim c d" using assms(1) by (auto simp: in_step_def)
  then show ?thesis
    using c simD(2,6) [OF d(2)] line_label_sim [OF d(2)] unfolding meets_label_def by (intro exI [of _ n] exI [of _ d]) simp
qed

lemma assemble_runs:
  assumes "run_pass (start_pass 1 (mips_init src)) = Some a" "mips_assemble (mips_init src) = Some b"
  shows "pass_loop (begin_pass 1 (mips_init src)) = Some a" "pass_loop (begin_pass 2 a) = Some b"
    "sim (begin_pass 1 (mips_init src)) (begin_pass 2 a)"
proof -
  show p: "pass_loop (begin_pass 1 (mips_init src)) = Some a" "pass_loop (begin_pass 2 a) = Some b"
    using assms by (simp_all add: mips_assemble_def run_pass_begin)
  have "same_source (ma_lex (begin_pass 1 (mips_init src))) (ma_lex a)"
  proof -
    have "lx_inc (ma_lex (begin_pass 1 (mips_init src))) = []"
      using lex_next_source [of "set_type T_NEWLINE (ma_lex (mips_init src)\<lparr> lx_pos := src, lx_line := 1 \<rparr>)"]
      by (simp add: begin_pass_def start_pass_def reset_lexer_def clear_lens_def Let_def mips_init_def lex_init_def set_type_def same_source_def)
    then show ?thesis using pass_loop_run [OF p(1)] by (simp add: later_def)
  qed
  moreover have "same_source (ma_lex (mips_init src)) (ma_lex (begin_pass 1 (mips_init src)))"
    using lex_next_source [of "set_type T_NEWLINE (ma_lex (mips_init src)\<lparr> lx_pos := src, lx_line := 1 \<rparr>)"]
    by (simp add: begin_pass_def start_pass_def reset_lexer_def clear_lens_def Let_def mips_init_def lex_init_def set_type_def same_source_def)
  ultimately have "same_source (ma_lex (mips_init src)) (ma_lex a)" by (simp add: same_source_def)
  then show "sim (begin_pass 1 (mips_init src)) (begin_pass 2 a)"
    by (intro sim_begin) (auto simp: same_source_def mips_init_def lex_init_def)
qed

lemma defined_labels_code [code]:
  "defined_labels st = set (map (\<lambda>y. (sy_name y, sy_section y, sy_value y)) (filter sy_defined st))"
  by (auto simp: defined_labels_def)


unbundle bit_operations_syntax

text \<open>A source with an instruction, a macro of two words, a branch to a numeric label and data.\<close>

definition sample_src :: string where
  "sample_src =
     ''li $4, 0x12345678'' @ [CHR 0x0A] @ ''1: b 1b'' @ [CHR 0x0A] @ ''end: .data'' @ [CHR 0x0A] @
     ''.space 3'' @ [CHR 0x0A] @ ''.align 2'' @ [CHR 0x0A] @ ''x: .word x, -1'' @ [CHR 0x0A]"

definition sample_ok :: "mips_asm option \<Rightarrow> mips_asm option \<Rightarrow> bool" where
  "sample_ok r r' \<longleftrightarrow>
     (case (r, r') of
        (Some a, Some b) \<Rightarrow>
          spaces_ok (begin_pass 1 (mips_init sample_src)) \<and> (''x'', 1, 4) \<in> defined_labels (ma_st b) \<and>
          sec_len (ma_sections b MSEC_TEXT) = 12 \<and> sec_len (ma_sections b MSEC_DATA) = 12
      | _ \<Rightarrow> False)"

lemma sample_run: "sample_ok (run_pass (start_pass 1 (mips_init sample_src))) (mips_assemble (mips_init sample_src))"
  by code_simp


lemma sample_runs:
  obtains a b where "run_pass (start_pass 1 (mips_init sample_src)) = Some a" "mips_assemble (mips_init sample_src) = Some b"
    "spaces_ok (begin_pass 1 (mips_init sample_src))" "(''x'', 1, 4) \<in> defined_labels (ma_st b)"
    "sec_len (ma_sections b MSEC_TEXT) = 12"
  using sample_run that by (auto simp: sample_ok_def split: option.splits)






subsection \<open>Two sources that assemble wrongly\<close>

definition space_src :: string where
  "space_src =
     ''.data'' @ [CHR 0x0A] @ ''.word 1'' @ [CHR 0x0A] @ ''.space 4294967294'' @ [CHR 0x0A] @ ''x: .byte 1'' @ [CHR 0x0A]"

definition unknown_src :: string where
  "unknown_src = ''foo $4, 5'' @ [CHR 0x0A]"

text \<open>
  A negative \<open>.space\<close> count puts labels in the wrong place. The count is cast to \<open>int\<close>; pass 1
  subtracts it from the section length and pass 2 emits nothing, so the label after it gets offset 2 in
  pass 1 while pass 2 stands at offset 4.
\<close>

theorem mips_space_diverges:
  "case (run_pass (start_pass 1 (mips_init space_src)), mips_assemble (mips_init space_src)) of
     (Some a, Some b) \<Rightarrow>
       (''x'', 1, 2) \<in> defined_labels (ma_st b) \<and> sec_len (ma_sections a MSEC_DATA) = 3 \<and> sec_len (ma_sections b MSEC_DATA) = 5
   | _ \<Rightarrow> False"
  by code_simp

text \<open>
  An unknown mnemonic with a register and an immediate assembles as \<open>lui\<close>, because that encoder does
  not look at the mnemonic: \<open>foo $4, 5\<close> emits the word of \<open>lui $4, 5\<close>.
\<close>

theorem mips_unknown_is_lui:
  "case mips_assemble (mips_init unknown_src) of
     Some b \<Rightarrow> sec_len (ma_sections b MSEC_TEXT) = 4 \<and> map (sec_data (ma_sections b MSEC_TEXT)) [0, 1, 2, 3] = [5, 0, 4, 0x3c]
   | None \<Rightarrow> False"
  by code_simp

end
