(* ===== verification/Mips_Trace.thy ===== *)
theory Mips_Trace
  imports Prelude
begin

text \<open>
  The trace ring of the MIPS I core (\<^verbatim>\<open>emu/mips32.h\<close>): a fixed array of 64 events, overwritten in
  place, with a running \<open>head\<close>.  It refines the list of all events pushed so far: what can be
  peeked is the last 64 of them, oldest first, as long as fewer than \<open>2\<^sup>3\<^sup>2\<close> were pushed.

  An event's note is the string stored in its 48-byte buffer, up to the terminating NUL.
\<close>

unbundle bit_operations_syntax

definition mips_trace_type :: "string list" where
  "mips_trace_type =
     [''MIPS_TR_NONE'', ''MIPS_TR_ILLEGAL'', ''MIPS_TR_FETCH_FAULT'', ''MIPS_TR_LOAD_FAULT'',
      ''MIPS_TR_STORE_FAULT'', ''MIPS_TR_LOAD_MISALIGN'', ''MIPS_TR_STORE_MISALIGN'',
      ''MIPS_TR_SYSCALL'', ''MIPS_TR_BREAK'', ''MIPS_TR_OVERFLOW'', ''MIPS_TR_TRAP'']"

abbreviation (input) MIPS_TR_NONE :: nat where "MIPS_TR_NONE \<equiv> 0"
abbreviation (input) MIPS_TR_ILLEGAL :: nat where "MIPS_TR_ILLEGAL \<equiv> 1"
abbreviation (input) MIPS_TR_FETCH_FAULT :: nat where "MIPS_TR_FETCH_FAULT \<equiv> 2"
abbreviation (input) MIPS_TR_LOAD_MISALIGN :: nat where "MIPS_TR_LOAD_MISALIGN \<equiv> 5"
abbreviation (input) MIPS_TR_STORE_MISALIGN :: nat where "MIPS_TR_STORE_MISALIGN \<equiv> 6"
abbreviation (input) MIPS_TR_SYSCALL :: nat where "MIPS_TR_SYSCALL \<equiv> 7"
abbreviation (input) MIPS_TR_BREAK :: nat where "MIPS_TR_BREAK \<equiv> 8"
abbreviation (input) MIPS_TR_OVERFLOW :: nat where "MIPS_TR_OVERFLOW \<equiv> 9"

abbreviation (input) MIPS_TRACE_NOTE_SIZE :: nat where "MIPS_TRACE_NOTE_SIZE \<equiv> 48"
abbreviation (input) MIPS_TRACE_CAPACITY :: nat where "MIPS_TRACE_CAPACITY \<equiv> 64"

record mips_trace_event =
  ev_pc :: u32
  ev_addr :: u32
  ev_insn :: u32
  ev_type :: nat
  ev_note :: string

record mips_trace =
  tr_events :: "mips_trace_event list"
  tr_head :: u32
  tr_total :: u32

definition zero_event :: mips_trace_event where
  "zero_event = \<lparr> ev_pc = 0, ev_addr = 0, ev_insn = 0, ev_type = 0, ev_note = [] \<rparr>"

definition mips_trace_init :: mips_trace where
  "mips_trace_init =
     \<lparr> tr_events = replicate MIPS_TRACE_CAPACITY zero_event, tr_head = 0, tr_total = 0 \<rparr>"

definition make_event :: "nat \<Rightarrow> u32 \<Rightarrow> u32 \<Rightarrow> u32 \<Rightarrow> string option \<Rightarrow> mips_trace_event" where
  "make_event type pc insn addr note =
     \<lparr> ev_pc = pc, ev_addr = addr, ev_insn = insn, ev_type = type mod 256,
       ev_note = (case note of Some s \<Rightarrow> take (MIPS_TRACE_NOTE_SIZE - 1) s | None \<Rightarrow> []) \<rparr>"

definition mips_trace_push ::
  "mips_trace \<Rightarrow> nat \<Rightarrow> u32 \<Rightarrow> u32 \<Rightarrow> u32 \<Rightarrow> string option \<Rightarrow> mips_trace" where
  "mips_trace_push t type pc insn addr note =
     \<lparr> tr_events = (tr_events t)[unat (tr_head t AND 63) := make_event type pc insn addr note],
       tr_head = tr_head t + 1, tr_total = tr_total t + 1 \<rparr>"

definition mips_trace_count :: "mips_trace \<Rightarrow> u32" where
  "mips_trace_count t = (if tr_head t < 64 then tr_head t else 64)"

definition mips_trace_overflowed :: "mips_trace \<Rightarrow> bool" where
  "mips_trace_overflowed t \<longleftrightarrow> tr_total t > 64"

definition mips_trace_peek :: "mips_trace \<Rightarrow> u32 \<Rightarrow> mips_trace_event option" where
  "mips_trace_peek t i =
     (if i \<ge> mips_trace_count t then None
      else let start = (if tr_head t \<le> 64 then 0 else tr_head t)
           in Some (tr_events t ! unat ((start + i) AND 63)))"

subsection \<open>Refinement of the event history\<close>

text \<open>The ring holds the history \<open>h\<close>: event number \<open>k\<close> is in slot \<open>k mod 64\<close> while among the last 64.\<close>

definition holds :: "mips_trace \<Rightarrow> mips_trace_event list \<Rightarrow> bool" where
  "holds t h \<longleftrightarrow>
     length (tr_events t) = 64 \<and> tr_head t = of_nat (length h) \<and> tr_total t = of_nat (length h) \<and>
     (\<forall>k<length h. length h \<le> k + 64 \<longrightarrow> tr_events t ! (k mod 64) = h ! k)"

lemma slot_index: "unat ((x :: u32) AND 63) = unat x mod 64"
proof -
  have "x AND 63 = take_bit 6 x" using take_bit_eq_mask [of 6 x] by (simp add: mask_eq_exp_minus_1)
  then show ?thesis by (simp add: unat_mod take_bit_eq_mod)
qed

lemma holds_init: "holds mips_trace_init []"
  by (simp add: holds_def mips_trace_init_def)

lemma mod_64_inj:
  assumes "k < n" "(n :: nat) < k + 64" shows "k mod 64 \<noteq> n mod 64"
proof
  assume "k mod 64 = n mod 64"
  then have "64 dvd n - k" using mod_eq_dvd_iff_nat [of k n 64] assms(1) by simp
  with assms show False using dvd_imp_le [of 64 "n - k"] by simp
qed

lemma holds_push:
  assumes h: "holds t h" and len: "length h < 2 ^ 32"
  shows "holds (mips_trace_push t type pc insn addr note) (h @ [make_event type pc insn addr note])"
proof -
  have slot: "unat (word_of_nat (length h) AND (63 :: u32)) = length h mod 64"
    using len by (simp add: slot_index unat_of_nat take_bit_nat_eq_self)
  have "(tr_events t)[length h mod 64 := e] ! (k mod 64) = (h @ [e]) ! k"
    if "k < length h + 1" "length h + 1 \<le> k + 64" for k e
  proof (cases "k = length h")
    case True
    then show ?thesis using h by (simp add: holds_def)
  next
    case False
    then have "k < length h" "length h mod 64 \<noteq> k mod 64"
      using that mod_64_inj [of k "length h"] by auto
    then show ?thesis using h that by (simp add: holds_def nth_append)
  qed
  then show ?thesis
    using h by (simp add: holds_def mips_trace_push_def slot)
qed

lemma holds_count:
  "holds t h \<Longrightarrow> length h < 2 ^ 32 \<Longrightarrow> unat (mips_trace_count t) = min (length h) 64"
  by (auto simp: holds_def mips_trace_count_def word_less_nat_alt unat_of_nat take_bit_nat_eq_self)

lemma holds_peek:
  assumes h: "holds t h" and len: "length h < 2 ^ 32 - 64"
  shows "mips_trace_peek t i =
    (if unat i < min (length h) 64 then Some (h ! (length h - min (length h) 64 + unat i)) else None)"
proof (cases "unat i < min (length h) 64")
  case False
  then show ?thesis
    using holds_count [OF h] len by (auto simp: mips_trace_peek_def word_le_nat_alt)
next
  case True
  have head: "unat (tr_head t) = length h"
    using h len by (simp add: holds_def unat_of_nat take_bit_nat_eq_self)
  let ?start = "if tr_head t \<le> 64 then 0 else tr_head t"
  have i: "unat i < 64" using True by simp
  have st: "unat ?start = (if length h \<le> 64 then 0 else length h)"
    using head by (simp add: word_le_nat_alt)
  have "unat (?start + i) = unat ?start + unat i"
    by (rule unat_add_lem [THEN iffD1]) (use st i len in auto)
  then have sl: "unat ((?start + i) AND 63) = ((if length h \<le> 64 then 0 else length h) + unat i) mod 64"
    by (simp add: slot_index st)
  let ?k = "length h - min (length h) 64 + unat i"
  have k: "?k < length h" "length h \<le> ?k + 64" using True by auto
  have kk: "((if length h \<le> 64 then 0 else length h) + unat i) mod 64 = ?k mod 64"
  proof (cases "length h \<le> 64")
    case False
    then show ?thesis using le_mod_geq [of 64 "length h + unat i"] by (simp add: min_def)
  qed simp
  have "\<not> mips_trace_count t \<le> i"
    using holds_count [OF h] len True by (auto simp: word_le_nat_alt)
  then have "mips_trace_peek t i = Some (tr_events t ! unat ((?start + i) AND 63))"
    by (simp add: mips_trace_peek_def Let_def)
  also have "\<dots> = Some (h ! ?k)"
    using h k unfolding sl kk holds_def by blast
  finally show ?thesis using True by simp
qed

text \<open>
  C24: Pushing any sequence of events onto a fresh ring and peeking at index \<open>i\<close> gives the
  \<open>i\<close>-th of the last 64 events pushed, oldest first, and nothing beyond them; the count and the
  overflow flag agree.  Fewer than \<open>2\<^sup>3\<^sup>2 - 64\<close> pushes are assumed, since \<open>head\<close> wraps there.
\<close>

theorem mips_trace_ring_is_tail:
  assumes "length evs < 2 ^ 32 - 64"
    and "t = fold (\<lambda>(ty, pc, insn, addr, note) t. mips_trace_push t ty pc insn addr note) evs mips_trace_init"
    and "h = map (\<lambda>(ty, pc, insn, addr, note). make_event ty pc insn addr note) evs"
  shows "unat (mips_trace_count t) = min (length h) 64 \<and>
    (mips_trace_overflowed t \<longleftrightarrow> length h > 64) \<and>
    (\<forall>i. mips_trace_peek t i =
       (if unat i < min (length h) 64 then Some (h ! (length h - min (length h) 64 + unat i)) else None))"
proof -
  have "holds t h" using assms
  proof (induction evs arbitrary: t h rule: rev_induct)
    case Nil
    then show ?case by (simp add: holds_init)
  next
    case (snoc e evs)
    obtain ty pc insn addr nt where e: "e = (ty, pc, insn, addr, nt)" by (cases e)
    let ?t = "fold (\<lambda>(ty, pc, insn, addr, note) t. mips_trace_push t ty pc insn addr note) evs mips_trace_init"
    let ?h = "map (\<lambda>(ty, pc, insn, addr, note). make_event ty pc insn addr note) evs"
    have "holds ?t ?h" using snoc.IH snoc.prems(1) by simp
    from holds_push [OF this, of ty pc insn addr nt] show ?case
      using snoc.prems by (simp add: e)
  qed
  moreover have len: "length h < 2 ^ 32 - 64" using assms by simp
  ultimately show ?thesis
    using holds_count [of t h] holds_peek [of t h]
    by (auto simp: mips_trace_overflowed_def holds_def word_less_nat_alt unat_of_nat take_bit_nat_eq_self)
qed

theorem mips_trace_ring_is_tail_witness:
  "mips_trace_peek (mips_trace_push mips_trace_init 8 4 13 0 (Some ''break'')) 0 =
     Some (make_event 8 4 13 0 (Some ''break''))"
  using mips_trace_ring_is_tail [of "[(8, 4, 13, 0, Some ''break'')]", OF _ refl refl] by simp

end
