(* ===== verification/Mips_Emu.thy ===== *)
theory Mips_Emu
  imports Mips_Trace "HOL-Library.Signed_Division"
begin

text \<open>
  The MIPS I user-mode interpreter (\<^verbatim>\<open>emu/mips32.c\<close>, \<^verbatim>\<open>emu/mips32.h\<close>): reset, traps, the branch and
  load delay slots, COP1, one step and the batched run.

  The register files are functions on register numbers; every number the core uses is a five-bit
  field, except that the double-precision helpers touch \<open>fpr[i + 1]\<close>, which for \<open>i = 31\<close> is past the
  end of the array.  That access is undefined behaviour in C, the outcome \<open>None\<close> of the model.

  The bus callbacks, the system-call handler and the host's floating point are code the core only
  calls: they are the fields of \<open>mips_env\<close>.  A callback receives the whole CPU because the harness's
  context reaches it (\<^verbatim>\<open>emu/sched.c\<close> halts the CPU on a guest-memory fault), and may itself be
  undefined.  Floating-point values are bit patterns; \<open>'m\<close> is the state behind the bus context.
\<close>

unbundle bit_operations_syntax

subsection \<open>State\<close>

record 'm mips_cpu =
  cpu_r :: "nat \<Rightarrow> u32"
  cpu_pc :: u32
  cpu_next_pc :: u32
  cpu_cur_pc :: u32
  cpu_hi :: u32
  cpu_lo :: u32
  cpu_fpr :: "nat \<Rightarrow> u32"
  cpu_fcsr :: u32
  cpu_branch_taken :: bool
  cpu_in_delay :: bool
  cpu_load_reg :: nat
  cpu_load_val :: u32
  cpu_halted :: bool
  cpu_trapped :: bool
  cpu_yielding :: bool
  cpu_trap_type :: nat
  cpu_trap_signal :: nat
  cpu_trap_addr :: u32
  cpu_cycles :: u64
  cpu_trace :: mips_trace
  cpu_mem :: 'm

record mips_fp =
  fp_bin :: "nat \<Rightarrow> bool \<Rightarrow> u64 \<Rightarrow> u64 \<Rightarrow> u64"
  fp_un :: "nat \<Rightarrow> bool \<Rightarrow> u64 \<Rightarrow> u64"
  fp_to_single :: "u64 \<Rightarrow> u32"
  fp_to_double :: "u32 \<Rightarrow> u64"
  fp_to_w_round :: "u64 \<Rightarrow> nat \<Rightarrow> int option"
  fp_unordered :: "u64 \<Rightarrow> u64 \<Rightarrow> bool"
  fp_less :: "u64 \<Rightarrow> u64 \<Rightarrow> bool"
  fp_equal :: "u64 \<Rightarrow> u64 \<Rightarrow> bool"
  fp_of_int32 :: "u32 \<Rightarrow> u32"
  fp_of_int64 :: "u32 \<Rightarrow> u64"

record 'm mips_env =
  env_read8 :: "u32 \<Rightarrow> 'm mips_cpu \<Rightarrow> (u32 \<times> 'm mips_cpu) option"
  env_read16 :: "u32 \<Rightarrow> 'm mips_cpu \<Rightarrow> (u32 \<times> 'm mips_cpu) option"
  env_read32 :: "u32 \<Rightarrow> 'm mips_cpu \<Rightarrow> (u32 \<times> 'm mips_cpu) option"
  env_write8 :: "u32 \<Rightarrow> u32 \<Rightarrow> 'm mips_cpu \<Rightarrow> 'm mips_cpu option"
  env_write16 :: "u32 \<Rightarrow> u32 \<Rightarrow> 'm mips_cpu \<Rightarrow> 'm mips_cpu option"
  env_write32 :: "u32 \<Rightarrow> u32 \<Rightarrow> 'm mips_cpu \<Rightarrow> 'm mips_cpu option"
  env_syscall :: "('m mips_cpu \<Rightarrow> 'm mips_cpu option) option"
  env_fp :: mips_fp

abbreviation (input) SIG_ILL :: nat where "SIG_ILL \<equiv> 4"
abbreviation (input) SIG_TRAP :: nat where "SIG_TRAP \<equiv> 5"
abbreviation (input) SIG_FPE :: nat where "SIG_FPE \<equiv> 8"
abbreviation (input) SIG_BUS :: nat where "SIG_BUS \<equiv> 7"

text \<open>\<open>mips_init\<close> zeroes the structure; the callbacks it installs are the environment.\<close>

definition mips_init :: "'m \<Rightarrow> 'm mips_cpu" where
  "mips_init mem =
     \<lparr> cpu_r = (\<lambda>_. 0), cpu_pc = 0, cpu_next_pc = 0, cpu_cur_pc = 0, cpu_hi = 0, cpu_lo = 0,
       cpu_fpr = (\<lambda>_. 0), cpu_fcsr = 0, cpu_branch_taken = False, cpu_in_delay = False,
       cpu_load_reg = 0, cpu_load_val = 0, cpu_halted = False, cpu_trapped = False,
       cpu_yielding = False, cpu_trap_type = 0, cpu_trap_signal = 0, cpu_trap_addr = 0,
       cpu_cycles = 0, cpu_trace = mips_trace_init, cpu_mem = mem \<rparr>"

definition mips_reset :: "u32 \<Rightarrow> 'm mips_cpu \<Rightarrow> 'm mips_cpu" where
  "mips_reset entry c =
     c\<lparr> cpu_r := (\<lambda>_. 0), cpu_pc := entry, cpu_next_pc := entry + 4, cpu_cur_pc := entry,
        cpu_hi := 0, cpu_lo := 0, cpu_branch_taken := False, cpu_in_delay := False,
        cpu_load_reg := 0, cpu_load_val := 0, cpu_halted := False, cpu_trapped := False,
        cpu_yielding := False, cpu_trap_type := MIPS_TR_NONE, cpu_trap_signal := 0,
        cpu_trap_addr := 0, cpu_cycles := 0, cpu_fpr := (\<lambda>_. 0), cpu_fcsr := 0 \<rparr>"

definition mips_halt :: "'m mips_cpu \<Rightarrow> 'm mips_cpu" where
  "mips_halt c = c\<lparr>cpu_halted := True\<rparr>"

definition mips_trap :: "nat \<Rightarrow> nat \<Rightarrow> u32 \<Rightarrow> u32 \<Rightarrow> string \<Rightarrow> 'm mips_cpu \<Rightarrow> 'm mips_cpu" where
  "mips_trap type signal addr insn msg c =
     c\<lparr> cpu_trapped := True, cpu_trap_type := type, cpu_trap_signal := signal, cpu_trap_addr := addr,
        cpu_trace := mips_trace_push (cpu_trace c) type (cpu_cur_pc c) insn addr (Some msg) \<rparr>"

subsection \<open>Instruction fields\<close>

definition f_op :: "u32 \<Rightarrow> nat" where "f_op inst = unat (drop_bit 26 inst)"

definition f_rs :: "u32 \<Rightarrow> nat" where "f_rs inst = unat (drop_bit 21 inst AND 0x1F)"

definition f_rt :: "u32 \<Rightarrow> nat" where "f_rt inst = unat (drop_bit 16 inst AND 0x1F)"

definition f_rd :: "u32 \<Rightarrow> nat" where "f_rd inst = unat (drop_bit 11 inst AND 0x1F)"

definition f_sa :: "u32 \<Rightarrow> nat" where "f_sa inst = unat (drop_bit 6 inst AND 0x1F)"

definition f_funct :: "u32 \<Rightarrow> nat" where "f_funct inst = unat (inst AND 0x3F)"

definition f_imm_ze :: "u32 \<Rightarrow> u32" where "f_imm_ze inst = inst AND 0xFFFF"

definition f_imm_se :: "u32 \<Rightarrow> u32" where "f_imm_se inst = signed_take_bit 15 (inst AND 0xFFFF)"

definition f_target26 :: "u32 \<Rightarrow> u32" where "f_target26 inst = inst AND 0x3FFFFFF"

text \<open>The register an instruction writes, by number; 0 when it writes none.\<close>

definition delay_slot_dest :: "u32 \<Rightarrow> nat" where
  "delay_slot_dest inst =
     (let op = f_op inst; rt = f_rt inst; funct = f_funct inst in
      if op = 0x00 then
        if funct \<in> {0x00, 0x02, 0x03, 0x04, 0x06, 0x07, 0x09, 0x10, 0x12, 0x20, 0x21, 0x22, 0x23,
                    0x24, 0x25, 0x26, 0x27, 0x2A, 0x2B}
        then f_rd inst else 0
      else if op \<in> {0x08, 0x09, 0x0A, 0x0B, 0x0C, 0x0D, 0x0E, 0x0F, 0x20, 0x21, 0x22, 0x23, 0x24,
                    0x25, 0x26} then rt
      else if op = 0x01 then if (drop_bit 16 inst AND 0x1F) AND 0x1E = 0x10 then 31 else 0
      else if op = 0x03 then 31
      else 0)"

definition set_r :: "nat \<Rightarrow> u32 \<Rightarrow> 'm mips_cpu \<Rightarrow> 'm mips_cpu" where
  "set_r k v c = c\<lparr>cpu_r := (cpu_r c)(k := v)\<rparr>"

definition do_branch :: "u32 \<Rightarrow> 'm mips_cpu \<Rightarrow> 'm mips_cpu" where
  "do_branch target c = c\<lparr>cpu_next_pc := target, cpu_branch_taken := True\<rparr>"

definition rel_branch :: "u32 \<Rightarrow> 'm mips_cpu \<Rightarrow> 'm mips_cpu" where
  "rel_branch inst c = do_branch (cpu_pc c + push_bit 2 (f_imm_se inst)) c"

text \<open>An instruction body either falls through to the end of \<open>mips_step\<close> or returns \<open>-1\<close> at once.\<close>

datatype 'm outcome = Cont "'m mips_cpu" | Stop "'m mips_cpu"

subsection \<open>COP1\<close>

definition set_fpr :: "nat \<Rightarrow> u32 \<Rightarrow> 'm mips_cpu \<Rightarrow> 'm mips_cpu" where
  "set_fpr k v c = c\<lparr>cpu_fpr := (cpu_fpr c)(k := v)\<rparr>"

definition fpr_d :: "'m mips_cpu \<Rightarrow> nat \<Rightarrow> u64 option" where
  "fpr_d c i =
     (if i + 1 < 32 then Some (ucast (cpu_fpr c i) OR push_bit 32 (ucast (cpu_fpr c (i + 1)))) else None)"

definition set_d :: "nat \<Rightarrow> u64 \<Rightarrow> 'm mips_cpu \<Rightarrow> 'm mips_cpu option" where
  "set_d i bits c =
     (if i + 1 < 32 then Some (set_fpr (i + 1) (ucast (drop_bit 32 bits)) (set_fpr i (ucast bits) c))
      else None)"

text \<open>A source operand: the double itself, or the single widened to the bits of a 64-bit value.\<close>

definition fpr_src :: "bool \<Rightarrow> 'm mips_cpu \<Rightarrow> nat \<Rightarrow> u64 option" where
  "fpr_src d c i = (if d then fpr_d c i else Some (ucast (cpu_fpr c i)))"

definition set_fp :: "bool \<Rightarrow> nat \<Rightarrow> u64 \<Rightarrow> 'm mips_cpu \<Rightarrow> 'm mips_cpu option" where
  "set_fp d i bits c = (if d then set_d i bits c else Some (set_fpr i (ucast bits) c))"

definition fpr_wide :: "mips_fp \<Rightarrow> bool \<Rightarrow> 'm mips_cpu \<Rightarrow> nat \<Rightarrow> u64 option" where
  "fpr_wide fp d c i = (if d then fpr_d c i else Some (fp_to_double fp (cpu_fpr c i)))"

definition fp_to_w :: "mips_fp \<Rightarrow> u64 \<Rightarrow> u32 \<Rightarrow> u32" where
  "fp_to_w fp v fcsr =
     (case fp_to_w_round fp v (unat (fcsr AND 3)) of
        Some r \<Rightarrow> if - 2147483648 \<le> r \<and> r \<le> 2147483647 then word_of_int r else 0x7FFFFFFF
      | None \<Rightarrow> 0x7FFFFFFF)"

definition FCSR_C_BIT :: u32 where "FCSR_C_BIT = 0x800000"

definition cop1_arith :: "mips_fp \<Rightarrow> bool \<Rightarrow> u32 \<Rightarrow> 'm mips_cpu \<Rightarrow> 'm outcome option" where
  "cop1_arith fp d inst c =
     (let ft = f_rt inst; fs = f_rd inst; fd = f_sa inst; funct = f_funct inst in
      if funct \<in> {0x00, 0x01, 0x02, 0x03} then
        do { x \<leftarrow> fpr_src d c fs; y \<leftarrow> fpr_src d c ft;
             c' \<leftarrow> set_fp d fd (fp_bin fp funct d x y) c; Some (Cont c') }
      else if funct \<in> {0x04, 0x05, 0x07} then
        do { x \<leftarrow> fpr_src d c fs; c' \<leftarrow> set_fp d fd (fp_un fp funct d x) c; Some (Cont c') }
      else if funct = 0x06 then
        (let c1 = set_fpr fd (cpu_fpr c fs) c in
         if d then
           if fd + 1 < 32 \<and> fs + 1 < 32 then Some (Cont (set_fpr (fd + 1) (cpu_fpr c1 (fs + 1)) c1)) else None
         else Some (Cont c1))
      else if funct = 0x20 then
        (if d then do { x \<leftarrow> fpr_d c fs; Some (Cont (set_fpr fd (fp_to_single fp x) c)) }
         else Some (Cont (set_fpr fd (cpu_fpr c fs) c)))
      else if funct = 0x21 then
        do { x \<leftarrow> fpr_wide fp d c fs; c' \<leftarrow> set_d fd x c; Some (Cont c') }
      else if funct = 0x24 then
        do { x \<leftarrow> fpr_wide fp d c fs; Some (Cont (set_fpr fd (fp_to_w fp x (cpu_fcsr c)) c)) }
      else if funct \<ge> 0x30 then
        do { x \<leftarrow> fpr_wide fp d c fs; y \<leftarrow> fpr_wide fp d c ft;
             let un = fp_unordered fp x y;
             let lt = (\<not> un \<and> fp_less fp x y);
             let eq = (\<not> un \<and> fp_equal fp x y);
             let cc = inst AND 0xF;
             let res = (cc AND 4 \<noteq> 0 \<and> lt \<or> cc AND 2 \<noteq> 0 \<and> eq \<or> cc AND 1 \<noteq> 0 \<and> un);
             Some (Cont (c\<lparr>cpu_fcsr := (if res then cpu_fcsr c OR FCSR_C_BIT
                                        else cpu_fcsr c AND NOT FCSR_C_BIT)\<rparr>)) }
      else Some (Stop (mips_trap MIPS_TR_ILLEGAL SIG_ILL 0 inst ''reserved COP1'' c)))"

definition mips_cop1 :: "mips_fp \<Rightarrow> u32 \<Rightarrow> 'm mips_cpu \<Rightarrow> 'm outcome option" where
  "mips_cop1 fp inst c =
     (let fmt = f_rs inst; ft = f_rt inst; fs = f_rd inst; fd = f_sa inst; funct = f_funct inst;
          reserved = Some (Stop (mips_trap MIPS_TR_ILLEGAL SIG_ILL 0 inst ''reserved COP1'' c)) in
      if fmt = 0x00 then Some (Cont (if ft \<noteq> 0 then set_r ft (cpu_fpr c fs) c else c))
      else if fmt = 0x04 then Some (Cont (set_fpr fs (cpu_r c ft) c))
      else if fmt = 0x02 then
        Some (Cont (if ft \<noteq> 0
                    then set_r ft (if fs = 31 then cpu_fcsr c else if fs = 0 then 0x300 else 0) c
                    else c))
      else if fmt = 0x06 then Some (Cont (if fs = 31 then c\<lparr>cpu_fcsr := cpu_r c ft\<rparr> else c))
      else if fmt = 0x08 then
        Some (Cont (if (drop_bit 16 inst AND 1 = 1) = (cpu_fcsr c AND FCSR_C_BIT \<noteq> 0)
                    then rel_branch inst c else c))
      else if fmt = 0x10 then cop1_arith fp False inst c
      else if fmt = 0x11 then cop1_arith fp True inst c
      else if fmt = 0x14 then
        (if funct = 0x20 then Some (Cont (set_fpr fd (fp_of_int32 fp (cpu_fpr c fs)) c))
         else if funct = 0x21 then
           do { c' \<leftarrow> set_d fd (fp_of_int64 fp (cpu_fpr c fs)) c; Some (Cont c') }
         else reserved)
      else reserved)"

subsection \<open>Integer instructions\<close>

definition wr :: "nat \<Rightarrow> u32 \<Rightarrow> 'm mips_cpu \<Rightarrow> 'm outcome option" where
  "wr k v c = Some (Cont (set_r k v c))"

definition trap_stop :: "nat \<Rightarrow> nat \<Rightarrow> u32 \<Rightarrow> u32 \<Rightarrow> string \<Rightarrow> 'm mips_cpu \<Rightarrow> 'm outcome option" where
  "trap_stop type signal addr inst msg c = Some (Stop (mips_trap type signal addr inst msg c))"

text \<open>The sign-bit tests behind the overflow traps of \<open>add\<close>, \<open>addi\<close> and \<open>sub\<close>.\<close>

definition add_overflows :: "u32 \<Rightarrow> u32 \<Rightarrow> bool" where
  "add_overflows a b \<longleftrightarrow> (let r = a + b in sint ((a XOR r) AND (b XOR r)) < 0)"

definition sub_overflows :: "u32 \<Rightarrow> u32 \<Rightarrow> bool" where
  "sub_overflows a b \<longleftrightarrow> (let r = a - b in sint ((a XOR b) AND (a XOR r)) < 0)"

definition exec_mult :: "u32 \<Rightarrow> u32 \<Rightarrow> 'm mips_cpu \<Rightarrow> 'm mips_cpu" where
  "exec_mult a b c =
     (let p = (scast a :: u64) * scast b in c\<lparr>cpu_lo := ucast p, cpu_hi := ucast (drop_bit 32 p)\<rparr>)"

definition exec_multu :: "u32 \<Rightarrow> u32 \<Rightarrow> 'm mips_cpu \<Rightarrow> 'm mips_cpu" where
  "exec_multu a b c =
     (let p = (ucast a :: u64) * ucast b in c\<lparr>cpu_lo := ucast p, cpu_hi := ucast (drop_bit 32 p)\<rparr>)"

text \<open>C's \<open>/\<close> and \<open>%\<close> truncate; the one quotient that does not fit is singled out by the code.\<close>

definition exec_div :: "u32 \<Rightarrow> u32 \<Rightarrow> 'm mips_cpu \<Rightarrow> 'm mips_cpu" where
  "exec_div a b c =
     (let n = sint a; d = sint b in
      if d = 0 then c\<lparr>cpu_lo := (if n \<ge> 0 then 0xFFFFFFFF else 1), cpu_hi := a\<rparr>
      else if a = 0x80000000 \<and> d = - 1 then c\<lparr>cpu_lo := 0x80000000, cpu_hi := 0\<rparr>
      else c\<lparr>cpu_lo := word_of_int (n sdiv d), cpu_hi := word_of_int (n smod d)\<rparr>)"

definition exec_divu :: "u32 \<Rightarrow> u32 \<Rightarrow> 'm mips_cpu \<Rightarrow> 'm mips_cpu" where
  "exec_divu n d c =
     (if d = 0 then c\<lparr>cpu_lo := 0xFFFFFFFF, cpu_hi := n\<rparr>
      else c\<lparr>cpu_lo := n div d, cpu_hi := n mod d\<rparr>)"

definition exec_break :: "u32 \<Rightarrow> 'm mips_cpu \<Rightarrow> 'm mips_cpu" where
  "exec_break inst c =
     (let code = drop_bit 6 inst AND 0xFFFFF;
          sig = (if code = 6 \<or> code = 7 then SIG_FPE else SIG_TRAP)
      in mips_trap MIPS_TR_BREAK sig code inst ''break'' c)"

definition exec_syscall :: "'m mips_env \<Rightarrow> u32 \<Rightarrow> 'm mips_cpu \<Rightarrow> 'm outcome option" where
  "exec_syscall env inst c =
     (case env_syscall env of
        Some h \<Rightarrow> map_option Cont (h c)
      | None \<Rightarrow> Some (Cont (mips_trap MIPS_TR_SYSCALL SIG_TRAP 0 inst ''syscall with no handler'' c)))"

definition exec_special :: "'m mips_env \<Rightarrow> u32 \<Rightarrow> 'm mips_cpu \<Rightarrow> 'm outcome option" where
  "exec_special env inst c =
     (let a = cpu_r c (f_rs inst); b = cpu_r c (f_rt inst); rd = f_rd inst; sa = f_sa inst;
          funct = f_funct inst; v = unat (a AND 0x1F) in
      if funct = 0x00 then wr rd (push_bit sa b) c
      else if funct = 0x02 then wr rd (drop_bit sa b) c
      else if funct = 0x03 then wr rd (signed_drop_bit sa b) c
      else if funct = 0x04 then wr rd (push_bit v b) c
      else if funct = 0x06 then wr rd (drop_bit v b) c
      else if funct = 0x07 then wr rd (signed_drop_bit v b) c
      else if funct = 0x08 then Some (Cont (do_branch a c))
      else if funct = 0x09 then Some (Cont (do_branch a (set_r rd (cpu_pc c + 4) c)))
      else if funct = 0x0C then exec_syscall env inst c
      else if funct = 0x0D then Some (Cont (exec_break inst c))
      else if funct = 0x10 then wr rd (cpu_hi c) c
      else if funct = 0x11 then Some (Cont (c\<lparr>cpu_hi := a\<rparr>))
      else if funct = 0x12 then wr rd (cpu_lo c) c
      else if funct = 0x13 then Some (Cont (c\<lparr>cpu_lo := a\<rparr>))
      else if funct = 0x18 then Some (Cont (exec_mult a b c))
      else if funct = 0x19 then Some (Cont (exec_multu a b c))
      else if funct = 0x1A then Some (Cont (exec_div a b c))
      else if funct = 0x1B then Some (Cont (exec_divu a b c))
      else if funct = 0x20 then
        (if add_overflows a b then trap_stop MIPS_TR_OVERFLOW SIG_FPE 0 inst ''add overflow'' c
         else wr rd (a + b) c)
      else if funct = 0x21 then wr rd (a + b) c
      else if funct = 0x22 then
        (if sub_overflows a b then trap_stop MIPS_TR_OVERFLOW SIG_FPE 0 inst ''sub overflow'' c
         else wr rd (a - b) c)
      else if funct = 0x23 then wr rd (a - b) c
      else if funct = 0x24 then wr rd (a AND b) c
      else if funct = 0x25 then wr rd (a OR b) c
      else if funct = 0x26 then wr rd (a XOR b) c
      else if funct = 0x27 then wr rd (NOT (a OR b)) c
      else if funct = 0x2A then wr rd (if sint a < sint b then 1 else 0) c
      else if funct = 0x2B then wr rd (if a < b then 1 else 0) c
      else trap_stop MIPS_TR_ILLEGAL SIG_ILL 0 inst ''reserved SPECIAL funct'' c)"

definition exec_regimm :: "u32 \<Rightarrow> 'm mips_cpu \<Rightarrow> 'm mips_cpu" where
  "exec_regimm inst c =
     (let rt = drop_bit 16 inst AND 0x1F;
          is_ge = (rt AND 1 \<noteq> 0);
          link = (rt AND 0x1E = 0x10);
          c1 = (if link then set_r 31 (cpu_pc c + 4) c else c);
          s = sint (cpu_r c1 (f_rs inst));
          take_it = (if is_ge then s \<ge> 0 else s < 0)
      in if take_it then rel_branch inst c1 else c1)"

definition jump_dest :: "u32 \<Rightarrow> 'm mips_cpu \<Rightarrow> u32" where
  "jump_dest inst c = (cpu_pc c AND 0xF0000000) OR push_bit 2 (f_target26 inst)"

definition branch_if :: "bool \<Rightarrow> u32 \<Rightarrow> 'm mips_cpu \<Rightarrow> 'm outcome option" where
  "branch_if p inst c = Some (Cont (if p then rel_branch inst c else c))"

definition exec_imm :: "u32 \<Rightarrow> 'm mips_cpu \<Rightarrow> 'm outcome option" where
  "exec_imm inst c =
     (let op = f_op inst; a = cpu_r c (f_rs inst); rt = f_rt inst; se = f_imm_se inst; ze = f_imm_ze inst in
      if op = 0x08 then
        (if add_overflows a se then trap_stop MIPS_TR_OVERFLOW SIG_FPE 0 inst ''addi overflow'' c
         else wr rt (a + se) c)
      else if op = 0x09 then wr rt (a + se) c
      else if op = 0x0A then wr rt (if sint a < sint se then 1 else 0) c
      else if op = 0x0B then wr rt (if a < se then 1 else 0) c
      else if op = 0x0C then wr rt (a AND ze) c
      else if op = 0x0D then wr rt (a OR ze) c
      else if op = 0x0E then wr rt (a XOR ze) c
      else wr rt (push_bit 16 ze) c)"

subsection \<open>Loads and stores\<close>

definition ea :: "u32 \<Rightarrow> 'm mips_cpu \<Rightarrow> u32" where
  "ea inst c = cpu_r c (f_rs inst) + f_imm_se inst"

text \<open>A load writes the latch, not the register; register 0 issues no bus access at all.\<close>

definition issue_load ::
  "nat \<Rightarrow> (u32 \<Rightarrow> u32) \<Rightarrow> ('m mips_cpu \<Rightarrow> (u32 \<times> 'm mips_cpu) option) \<Rightarrow> 'm mips_cpu \<Rightarrow> 'm outcome option" where
  "issue_load rt ext rd c =
     (if rt \<noteq> 0 then do { (v, c') \<leftarrow> rd (c\<lparr>cpu_load_reg := rt\<rparr>); Some (Cont (c'\<lparr>cpu_load_val := ext v\<rparr>)) }
      else Some (Cont c))"

definition sext8 :: "u32 \<Rightarrow> u32" where "sext8 v = signed_take_bit 7 v"

definition sext16 :: "u32 \<Rightarrow> u32" where "sext16 v = signed_take_bit 15 v"

definition lwl_merge :: "u32 \<Rightarrow> u32 \<Rightarrow> u32 \<Rightarrow> u32" where
  "lwl_merge addr aligned cur =
     (if addr AND 3 = 0 then (cur AND 0x00FFFFFF) OR push_bit 24 aligned
      else if addr AND 3 = 1 then (cur AND 0x0000FFFF) OR push_bit 16 aligned
      else if addr AND 3 = 2 then (cur AND 0x000000FF) OR push_bit 8 aligned
      else aligned)"

definition lwr_merge :: "u32 \<Rightarrow> u32 \<Rightarrow> u32 \<Rightarrow> u32" where
  "lwr_merge addr aligned cur =
     (if addr AND 3 = 0 then aligned
      else if addr AND 3 = 1 then (cur AND 0xFF000000) OR drop_bit 8 aligned
      else if addr AND 3 = 2 then (cur AND 0xFFFF0000) OR drop_bit 16 aligned
      else (cur AND 0xFFFFFF00) OR drop_bit 24 aligned)"

definition swl_merge :: "u32 \<Rightarrow> u32 \<Rightarrow> u32 \<Rightarrow> u32" where
  "swl_merge addr reg mem =
     (if addr AND 3 = 0 then (mem AND 0xFFFFFF00) OR drop_bit 24 reg
      else if addr AND 3 = 1 then (mem AND 0xFFFF0000) OR drop_bit 16 reg
      else if addr AND 3 = 2 then (mem AND 0xFF000000) OR drop_bit 8 reg
      else reg)"

definition swr_merge :: "u32 \<Rightarrow> u32 \<Rightarrow> u32 \<Rightarrow> u32" where
  "swr_merge addr reg mem =
     (if addr AND 3 = 0 then reg
      else if addr AND 3 = 1 then (mem AND 0x000000FF) OR push_bit 8 reg
      else if addr AND 3 = 2 then (mem AND 0x0000FFFF) OR push_bit 16 reg
      else (mem AND 0x00FFFFFF) OR push_bit 24 reg)"

text \<open>
  The merging loads read the destination as the pending load will leave it: \<open>dval\<close> when the latch
  holds that register.  The word is read from the bus even when the destination is register 0.
\<close>

definition exec_lwlr :: "(u32 \<Rightarrow> u32 \<Rightarrow> u32 \<Rightarrow> u32) \<Rightarrow> 'm mips_env \<Rightarrow> u32 \<Rightarrow> nat \<Rightarrow> u32 \<Rightarrow> 'm mips_cpu \<Rightarrow> 'm outcome option" where
  "exec_lwlr merge env inst dreg dval c =
     (let rt = f_rt inst;
          cur = (if dreg = rt then dval else cpu_r c rt);
          addr = ea inst c
      in do { (aligned, c1) \<leftarrow> env_read32 env (addr AND NOT 3) c;
              Some (Cont (if rt \<noteq> 0 then c1\<lparr>cpu_load_reg := rt, cpu_load_val := merge addr aligned cur\<rparr>
                          else c1)) })"

definition exec_load :: "'m mips_env \<Rightarrow> u32 \<Rightarrow> nat \<Rightarrow> u32 \<Rightarrow> 'm mips_cpu \<Rightarrow> 'm outcome option" where
  "exec_load env inst dreg dval c =
     (let op = f_op inst; rt = f_rt inst; addr = ea inst c in
      if op = 0x20 then issue_load rt sext8 (env_read8 env addr) c
      else if op = 0x24 then issue_load rt (\<lambda>v. v AND 0xFF) (env_read8 env addr) c
      else if op = 0x21 then
        (if addr AND 1 \<noteq> 0 then trap_stop MIPS_TR_LOAD_MISALIGN SIG_BUS addr inst ''misaligned lh'' c
         else issue_load rt sext16 (env_read16 env addr) c)
      else if op = 0x25 then
        (if addr AND 1 \<noteq> 0 then trap_stop MIPS_TR_LOAD_MISALIGN SIG_BUS addr inst ''misaligned lhu'' c
         else issue_load rt (\<lambda>v. v AND 0xFFFF) (env_read16 env addr) c)
      else if op = 0x23 then
        (if addr AND 3 \<noteq> 0 then trap_stop MIPS_TR_LOAD_MISALIGN SIG_BUS addr inst ''misaligned lw'' c
         else issue_load rt (\<lambda>v. v) (env_read32 env addr) c)
      else if op = 0x22 then exec_lwlr lwl_merge env inst dreg dval c
      else exec_lwlr lwr_merge env inst dreg dval c)"

definition exec_swlr :: "(u32 \<Rightarrow> u32 \<Rightarrow> u32 \<Rightarrow> u32) \<Rightarrow> 'm mips_env \<Rightarrow> u32 \<Rightarrow> 'm mips_cpu \<Rightarrow> 'm outcome option" where
  "exec_swlr merge env inst c =
     (let reg = cpu_r c (f_rt inst); addr = ea inst c
      in do { (mem, c1) \<leftarrow> env_read32 env (addr AND NOT 3) c;
              map_option Cont (env_write32 env (addr AND NOT 3) (merge addr reg mem) c1) })"

definition exec_store :: "'m mips_env \<Rightarrow> u32 \<Rightarrow> 'm mips_cpu \<Rightarrow> 'm outcome option" where
  "exec_store env inst c =
     (let op = f_op inst; v = cpu_r c (f_rt inst); addr = ea inst c in
      if op = 0x28 then map_option Cont (env_write8 env addr (v AND 0xFF) c)
      else if op = 0x29 then
        (if addr AND 1 \<noteq> 0 then trap_stop MIPS_TR_STORE_MISALIGN SIG_BUS addr inst ''misaligned sh'' c
         else map_option Cont (env_write16 env addr (v AND 0xFFFF) c))
      else if op = 0x2B then
        (if addr AND 3 \<noteq> 0 then trap_stop MIPS_TR_STORE_MISALIGN SIG_BUS addr inst ''misaligned sw'' c
         else map_option Cont (env_write32 env addr v c))
      else if op = 0x2A then exec_swlr swl_merge env inst c
      else exec_swlr swr_merge env inst c)"

definition exec_fp_mem :: "'m mips_env \<Rightarrow> u32 \<Rightarrow> 'm mips_cpu \<Rightarrow> 'm outcome option" where
  "exec_fp_mem env inst c =
     (let op = f_op inst; rt = f_rt inst; addr = ea inst c in
      if op = 0x31 then
        (if addr AND 3 \<noteq> 0 then trap_stop MIPS_TR_LOAD_MISALIGN SIG_BUS addr inst ''misaligned lwc1'' c
         else do { (v, c1) \<leftarrow> env_read32 env addr c; Some (Cont (set_fpr rt v c1)) })
      else
        (if addr AND 3 \<noteq> 0 then trap_stop MIPS_TR_STORE_MISALIGN SIG_BUS addr inst ''misaligned swc1'' c
         else map_option Cont (env_write32 env addr (cpu_fpr c rt) c)))"

subsection \<open>One step and the batched run\<close>

definition exec_insn :: "'m mips_env \<Rightarrow> u32 \<Rightarrow> nat \<Rightarrow> u32 \<Rightarrow> 'm mips_cpu \<Rightarrow> 'm outcome option" where
  "exec_insn env inst dreg dval c =
     (let op = f_op inst; a = cpu_r c (f_rs inst); b = cpu_r c (f_rt inst) in
      if op = 0x00 then exec_special env inst c
      else if op = 0x01 then Some (Cont (exec_regimm inst c))
      else if op = 0x02 then Some (Cont (do_branch (jump_dest inst c) c))
      else if op = 0x03 then
        (let c1 = set_r 31 (cpu_pc c + 4) c in Some (Cont (do_branch (jump_dest inst c1) c1)))
      else if op = 0x04 then branch_if (a = b) inst c
      else if op = 0x05 then branch_if (a \<noteq> b) inst c
      else if op = 0x06 then branch_if (sint a \<le> 0) inst c
      else if op = 0x07 then branch_if (sint a > 0) inst c
      else if op \<in> {0x08, 0x09, 0x0A, 0x0B, 0x0C, 0x0D, 0x0E, 0x0F} then exec_imm inst c
      else if op = 0x11 then mips_cop1 (env_fp env) inst c
      else if op \<in> {0x31, 0x39} then exec_fp_mem env inst c
      else if op \<in> {0x20, 0x21, 0x22, 0x23, 0x24, 0x25, 0x26} then exec_load env inst dreg dval c
      else if op \<in> {0x28, 0x29, 0x2A, 0x2B, 0x2E} then exec_store env inst c
      else trap_stop MIPS_TR_ILLEGAL SIG_ILL 0 inst ''reserved opcode'' c)"

text \<open>What follows the switch: the deferred load lands unless the instruction wrote its register.\<close>

definition finish_step :: "u32 \<Rightarrow> nat \<Rightarrow> u32 \<Rightarrow> 'm mips_cpu \<Rightarrow> 'm mips_cpu" where
  "finish_step inst dreg dval c =
     (let c1 = set_r 0 0 c;
          c2 = (if dreg \<noteq> 0 \<and> delay_slot_dest inst \<noteq> dreg then set_r dreg dval c1 else c1);
          c3 = set_r 0 0 c2
      in c3\<lparr>cpu_cycles := cpu_cycles c3 + 1\<rparr>)"

text \<open>Advance the pc pair and take the pending load out of its latch.\<close>

definition begin_insn :: "'m mips_cpu \<Rightarrow> 'm mips_cpu" where
  "begin_insn c =
     c\<lparr>cpu_pc := cpu_next_pc c, cpu_next_pc := cpu_next_pc c + 4, cpu_branch_taken := False,
       cpu_load_reg := 0, cpu_load_val := 0\<rparr>"

definition mips_step :: "'m mips_env \<Rightarrow> 'm mips_cpu \<Rightarrow> ('m mips_cpu \<times> int) option" where
  "mips_step env c =
     (if cpu_halted c \<or> cpu_trapped c then Some (c, - 1)
      else
        let c0 = c\<lparr>cpu_cur_pc := cpu_pc c, cpu_in_delay := cpu_branch_taken c\<rparr> in
        if cpu_pc c0 AND 3 \<noteq> 0 then
          Some (mips_trap MIPS_TR_FETCH_FAULT SIG_BUS (cpu_pc c0) 0 ''misaligned instruction fetch'' c0, - 1)
        else
          do { (inst, c1) \<leftarrow> env_read32 env (cpu_pc c0) c0;
               out \<leftarrow> exec_insn env inst (cpu_load_reg c1) (cpu_load_val c1) (begin_insn c1);
               Some (case out of
                       Stop c2 \<Rightarrow> (c2, - 1)
                     | Cont c2 \<Rightarrow>
                         (let c3 = finish_step inst (cpu_load_reg c1) (cpu_load_val c1) c2 in
                          (c3, if cpu_halted c3 \<or> cpu_trapped c3 then - 1 else 0))) })"

datatype skj_run_reason = SKJ_RUN_BUDGET | SKJ_RUN_HALT | SKJ_RUN_TRAP | SKJ_RUN_YIELD

definition stop_reason :: "'m mips_cpu \<Rightarrow> skj_run_reason option" where
  "stop_reason c =
     (if cpu_halted c then Some SKJ_RUN_HALT
      else if cpu_trapped c then Some SKJ_RUN_TRAP
      else if cpu_yielding c then Some SKJ_RUN_YIELD
      else None)"

fun run_loop :: "'m mips_env \<Rightarrow> nat \<Rightarrow> int \<Rightarrow> 'm mips_cpu \<Rightarrow> ('m mips_cpu \<times> skj_run_reason \<times> int) option" where
  "run_loop env 0 n c = Some (c, SKJ_RUN_BUDGET, n)"
| "run_loop env (Suc k) n c =
     (case stop_reason c of
        Some why \<Rightarrow> Some (c, why, n)
      | None \<Rightarrow>
          (case mips_step env c of
             None \<Rightarrow> None
           | Some (c', _) \<Rightarrow>
               (case stop_reason c' of
                  Some why \<Rightarrow> Some (c', why, n + 1)
                | None \<Rightarrow> run_loop env k (n + 1) c')))"

text \<open>The batch: the budget minus the instructions done so far is the recursion argument of the loop.\<close>

definition mips_run :: "'m mips_env \<Rightarrow> int \<Rightarrow> 'm mips_cpu \<Rightarrow> ('m mips_cpu \<times> skj_run_reason \<times> int) option" where
  "mips_run env budget c = run_loop env (nat budget) 0 c"

end
