(* ===== verification/Guest_Mem.thy ===== *)
theory Guest_Mem
  imports Prelude
begin

text \<open>
  Sparse guest memory (\<^verbatim>\<open>emu/guest.c\<close>, \<^verbatim>\<open>emu/guest.h\<close>): the two-level page table with its write
  cache, the region table with its one-entry lookup cache, on-demand commit under a limit and a
  shared pool, byte and sized access in either byte order, \<open>gm_mmap\<close> and \<open>gm_munmap\<close>.

  A page pointer is the number of the allocation that produced it, and \<open>gm_heap\<close> maps the live
  pages to their 4096 bytes; reading through a freed pointer, or past the end of a host buffer, is
  undefined behaviour, the outcome \<open>None\<close>.  \<open>wdir\<close> borrows the pages of \<open>dir\<close>, so the aliasing is kept.
  \<open>gm_host_ok n\<close> says whether the host grants the \<open>n\<close>-th \<open>calloc\<close>.
\<close>

unbundle bit_operations_syntax

subsection \<open>State\<close>

abbreviation (input) GM_MAX_REGIONS :: nat where "GM_MAX_REGIONS \<equiv> 256"
abbreviation (input) GM_R :: nat where "GM_R \<equiv> 1"
abbreviation (input) GM_W :: nat where "GM_W \<equiv> 2"
abbreviation (input) GM_X :: nat where "GM_X \<equiv> 4"

definition GM_PAGE_SIZE :: u32 where "GM_PAGE_SIZE = 4096"

definition GM_MMAP_BASE :: u32 where "GM_MMAP_BASE = 0x70000000"

record gm_region =
  rg_base :: u32
  rg_size :: u32
  rg_prot :: nat
  rg_name :: string

record gm_pool =
  pool_used :: u64
  pool_limit :: u64

type_synonym page_dir = "nat \<Rightarrow> (nat \<Rightarrow> nat option) option"

record guest_mem =
  gm_dir :: page_dir
  gm_wdir :: page_dir
  gm_regions :: "nat \<Rightarrow> gm_region"
  gm_nregions :: nat
  gm_last :: "nat option"
  gm_mmap_next :: u32
  gm_committed :: u64
  gm_limit :: u64
  gm_pool_of :: "gm_pool option"
  gm_loading :: bool
  gm_extern :: "u8 list option"
  gm_extern_size :: u32
  gm_vdso :: "u8 list option"
  gm_vdso_vaddr :: u32
  gm_vdso_size :: u32
  gm_faulted :: bool
  gm_fault_addr :: u32
  gm_fault_write :: bool
  gm_fault_why :: string
  gm_fault_guard :: bool
  gm_heap :: "nat \<Rightarrow> (nat \<Rightarrow> u8) option"
  gm_callocs :: nat
  gm_host_ok :: "nat \<Rightarrow> bool"

definition zero_region :: gm_region where
  "zero_region = \<lparr> rg_base = 0, rg_size = 0, rg_prot = 0, rg_name = [] \<rparr>"

definition gm_init :: "u64 \<Rightarrow> (nat \<Rightarrow> bool) \<Rightarrow> guest_mem" where
  "gm_init limit host_ok =
     \<lparr> gm_dir = (\<lambda>_. None), gm_wdir = (\<lambda>_. None), gm_regions = (\<lambda>_. zero_region), gm_nregions = 0,
       gm_last = None, gm_mmap_next = 0, gm_committed = 0, gm_limit = limit, gm_pool_of = None,
       gm_loading = False, gm_extern = None, gm_extern_size = 0, gm_vdso = None, gm_vdso_vaddr = 0,
       gm_vdso_size = 0, gm_faulted = False, gm_fault_addr = 0, gm_fault_write = False,
       gm_fault_why = [], gm_fault_guard = False, gm_heap = (\<lambda>_. None), gm_callocs = 0,
       gm_host_ok = host_ok \<rparr>"

text \<open>The page-table coordinates of an address and its offset in the page.\<close>

definition gm_l1 :: "u32 \<Rightarrow> nat" where "gm_l1 addr = unat (drop_bit 22 addr)"

definition gm_l2 :: "u32 \<Rightarrow> nat" where "gm_l2 addr = unat (drop_bit 12 addr AND 1023)"

definition gm_off :: "u32 \<Rightarrow> nat" where "gm_off addr = unat (addr AND 0xFFF)"

definition page_at :: "page_dir \<Rightarrow> u32 \<Rightarrow> nat option" where
  "page_at d addr = (case d (gm_l1 addr) of None \<Rightarrow> None | Some t \<Rightarrow> t (gm_l2 addr))"

definition page_set :: "u32 \<Rightarrow> nat option \<Rightarrow> page_dir \<Rightarrow> page_dir" where
  "page_set addr p d =
     (case d (gm_l1 addr) of
        None \<Rightarrow> d
      | Some t \<Rightarrow> d(gm_l1 addr := Some (t(gm_l2 addr := p))))"

subsection \<open>Regions and faults\<close>

definition gm_map :: "u32 \<Rightarrow> u32 \<Rightarrow> nat \<Rightarrow> string \<Rightarrow> guest_mem \<Rightarrow> guest_mem \<times> int" where
  "gm_map base sz prot name m =
     (if gm_nregions m \<ge> GM_MAX_REGIONS then (m, - 1)
      else (m\<lparr> gm_regions := (gm_regions m)(gm_nregions m :=
                 \<lparr> rg_base = base, rg_size = sz, rg_prot = prot, rg_name = name \<rparr>),
               gm_nregions := gm_nregions m + 1 \<rparr>, 0))"

definition rg_contains :: "gm_region \<Rightarrow> u32 \<Rightarrow> bool" where
  "rg_contains r addr \<longleftrightarrow> addr \<ge> rg_base r \<and> addr - rg_base r < rg_size r"

fun region_scan :: "(nat \<Rightarrow> gm_region) \<Rightarrow> u32 \<Rightarrow> nat list \<Rightarrow> nat option" where
  "region_scan rs addr [] = None"
| "region_scan rs addr (i # is) = (if rg_contains (rs i) addr then Some i else region_scan rs addr is)"

definition region_of :: "u32 \<Rightarrow> guest_mem \<Rightarrow> nat option \<times> guest_mem" where
  "region_of addr m =
     (case gm_last m of
        Some i \<Rightarrow>
          if rg_contains (gm_regions m i) addr then (Some i, m)
          else (case region_scan (gm_regions m) addr [0..<gm_nregions m] of
                  None \<Rightarrow> (None, m) | Some j \<Rightarrow> (Some j, m\<lparr>gm_last := Some j\<rparr>))
      | None \<Rightarrow>
          (case region_scan (gm_regions m) addr [0..<gm_nregions m] of
             None \<Rightarrow> (None, m) | Some j \<Rightarrow> (Some j, m\<lparr>gm_last := Some j\<rparr>)))"

definition gm_fault :: "u32 \<Rightarrow> bool \<Rightarrow> string \<Rightarrow> guest_mem \<Rightarrow> guest_mem" where
  "gm_fault addr is_write why m =
     (if gm_faulted m then m
      else m\<lparr> gm_faulted := True, gm_fault_addr := addr, gm_fault_write := is_write,
              gm_fault_guard := False, gm_fault_why := why \<rparr>)"

definition gm_set_extern :: "u8 list \<Rightarrow> u32 \<Rightarrow> guest_mem \<Rightarrow> guest_mem" where
  "gm_set_extern base sz m =
     fst (gm_map 0 sz 7 ''ram'' (m\<lparr> gm_extern := Some base, gm_extern_size := sz \<rparr>))"

text \<open>The region test shared by the two paths of \<open>gm_page\<close>: the region, or the fault recorded.\<close>

definition check_region :: "u32 \<Rightarrow> bool \<Rightarrow> guest_mem \<Rightarrow> gm_region option \<times> guest_mem" where
  "check_region addr want_write m =
     (case region_of addr m of
        (None, m1) \<Rightarrow> (None, gm_fault addr want_write ''unmapped'' m1)
      | (Some i, m1) \<Rightarrow>
          let r = gm_regions m1 i in
          if rg_prot r = 0 then
            (None, (gm_fault addr want_write ''stack overflow'' m1)\<lparr> gm_fault_guard := True \<rparr>)
          else if want_write \<and> \<not> odd (rg_prot r div 2) \<and> \<not> gm_loading m1 then
            (None, gm_fault addr True ''read-only'' m1)
          else (Some r, m1))"

subsection \<open>Committing and finding a page\<close>

definition host_calloc :: "guest_mem \<Rightarrow> nat option \<times> guest_mem" where
  "host_calloc m =
     (if gm_host_ok m (gm_callocs m) then Some (gm_callocs m) else None,
      m\<lparr> gm_callocs := gm_callocs m + 1 \<rparr>)"

definition alloc_table :: "guest_mem \<Rightarrow> (nat \<Rightarrow> nat option) option \<times> guest_mem" where
  "alloc_table m = (case host_calloc m of (None, m1) \<Rightarrow> (None, m1) | (Some _, m1) \<Rightarrow> (Some (\<lambda>_. None), m1))"

definition pool_full :: "guest_mem \<Rightarrow> bool" where
  "pool_full m =
     (case gm_pool_of m of
        None \<Rightarrow> False
      | Some p \<Rightarrow> pool_limit p \<noteq> 0 \<and> pool_used p + 4096 > pool_limit p)"

text \<open>The page of \<open>addr\<close>, allocated and entered in \<open>dir\<close> when it is not there yet.\<close>

definition commit_page :: "u32 \<Rightarrow> bool \<Rightarrow> guest_mem \<Rightarrow> nat option \<times> guest_mem" where
  "commit_page addr want_write m =
     (case page_at (gm_dir m) addr of
        Some p \<Rightarrow> (Some p, m)
      | None \<Rightarrow>
          if gm_committed m + 4096 > gm_limit m then (None, gm_fault addr want_write ''memory limit'' m)
          else if pool_full m then (None, gm_fault addr want_write ''memory pool exhausted'' m)
          else
            (case (case gm_dir m (gm_l1 addr) of
                     Some t \<Rightarrow> (Some t, m) | None \<Rightarrow> alloc_table m) of
               (None, m1) \<Rightarrow> (None, gm_fault addr want_write ''out of host memory'' m1)
             | (Some t, m1) \<Rightarrow>
                 let m2 = m1\<lparr> gm_dir := (gm_dir m1)(gm_l1 addr := Some t) \<rparr> in
                 (case host_calloc m2 of
                    (None, m3) \<Rightarrow> (None, gm_fault addr want_write ''out of host memory'' m3)
                  | (Some p, m3) \<Rightarrow>
                      (Some p, m3\<lparr> gm_heap := (gm_heap m3)(p := Some (\<lambda>_. 0)),
                                   gm_dir := page_set addr (Some p) (gm_dir m3),
                                   gm_committed := gm_committed m3 + 4096,
                                   gm_pool_of := map_option (\<lambda>q. q\<lparr>pool_used := pool_used q + 4096\<rparr>)
                                                   (gm_pool_of m3) \<rparr>))))"

definition warm_write :: "u32 \<Rightarrow> nat \<Rightarrow> gm_region \<Rightarrow> guest_mem \<Rightarrow> guest_mem" where
  "warm_write addr p r m =
     (if odd (rg_prot r div 2) then
        let m1 = (case gm_wdir m (gm_l1 addr) of
                    Some _ \<Rightarrow> m
                  | None \<Rightarrow>
                      (case alloc_table m of
                         (t, m') \<Rightarrow> m'\<lparr> gm_wdir := (gm_wdir m')(gm_l1 addr := t) \<rparr>))
        in m1\<lparr> gm_wdir := page_set addr (Some p) (gm_wdir m1) \<rparr>
      else m)"

datatype gptr = Page nat | Extern nat | Vdso nat

definition page_extern :: "u32 \<Rightarrow> bool \<Rightarrow> guest_mem \<Rightarrow> gptr option \<times> guest_mem" where
  "page_extern addr want_write m =
     (if addr \<ge> gm_extern_size m then (None, gm_fault addr want_write ''unmapped'' m)
      else (case check_region addr want_write m of
              (None, m1) \<Rightarrow> (None, m1)
            | (Some _, m1) \<Rightarrow> (Some (Extern (unat (addr AND NOT 0xFFF))), m1)))"

definition in_vdso :: "u32 \<Rightarrow> guest_mem \<Rightarrow> bool" where
  "in_vdso addr m \<longleftrightarrow>
     gm_vdso m \<noteq> None \<and> addr \<ge> gm_vdso_vaddr m \<and> addr - gm_vdso_vaddr m < gm_vdso_size m"

definition page_paged :: "u32 \<Rightarrow> bool \<Rightarrow> guest_mem \<Rightarrow> gptr option \<times> guest_mem" where
  "page_paged addr want_write m =
     (case page_at (if want_write then gm_wdir m else gm_dir m) addr of
        Some p \<Rightarrow> (Some (Page p), m)
      | None \<Rightarrow>
          (case check_region addr want_write m of
             (None, m1) \<Rightarrow> (None, m1)
           | (Some r, m1) \<Rightarrow>
               (case commit_page addr want_write m1 of
                  (None, m2) \<Rightarrow> (None, m2)
                | (Some p, m2) \<Rightarrow> (Some (Page p), warm_write addr p r m2))))"

definition gm_page :: "u32 \<Rightarrow> bool \<Rightarrow> guest_mem \<Rightarrow> gptr option \<times> guest_mem" where
  "gm_page addr want_write m =
     (if gm_extern m \<noteq> None then page_extern addr want_write m
      else if in_vdso addr m then
        (if want_write \<and> \<not> gm_loading m then (None, gm_fault addr True ''read-only'' m)
         else (Some (Vdso (unat ((addr - gm_vdso_vaddr m) AND NOT 0xFFF))), m))
      else page_paged addr want_write m)"

subsection \<open>Access\<close>

text \<open>A byte through a page pointer.\<close>

definition ptr_get :: "guest_mem \<Rightarrow> gptr \<Rightarrow> nat \<Rightarrow> u8 option" where
  "ptr_get m p off =
     (case p of
        Page k \<Rightarrow> map_option (\<lambda>b. b off) (gm_heap m k)
      | Extern o0 \<Rightarrow> (case gm_extern m of None \<Rightarrow> None
                     | Some bs \<Rightarrow> if o0 + off < length bs then Some (bs ! (o0 + off)) else None)
      | Vdso o0 \<Rightarrow> (case gm_vdso m of None \<Rightarrow> None
                   | Some bs \<Rightarrow> if o0 + off < length bs then Some (bs ! (o0 + off)) else None))"

definition ptr_put :: "gptr \<Rightarrow> nat \<Rightarrow> u8 \<Rightarrow> guest_mem \<Rightarrow> guest_mem option" where
  "ptr_put p off v m =
     (case p of
        Page k \<Rightarrow> (case gm_heap m k of None \<Rightarrow> None
                   | Some b \<Rightarrow> Some (m\<lparr> gm_heap := (gm_heap m)(k := Some (b(off := v))) \<rparr>))
      | Extern o0 \<Rightarrow> (case gm_extern m of None \<Rightarrow> None
                     | Some bs \<Rightarrow> if o0 + off < length bs
                                 then Some (m\<lparr> gm_extern := Some (bs[o0 + off := v]) \<rparr>) else None)
      | Vdso o0 \<Rightarrow> (case gm_vdso m of None \<Rightarrow> None
                   | Some bs \<Rightarrow> if o0 + off < length bs
                               then Some (m\<lparr> gm_vdso := Some (bs[o0 + off := v]) \<rparr>) else None))"

definition gm_read8 :: "u32 \<Rightarrow> guest_mem \<Rightarrow> (u8 \<times> guest_mem) option" where
  "gm_read8 addr m =
     (case gm_page addr False m of
        (None, m1) \<Rightarrow> Some (0, m1)
      | (Some p, m1) \<Rightarrow> map_option (\<lambda>v. (v, m1)) (ptr_get m1 p (gm_off addr)))"

definition gm_write8 :: "u32 \<Rightarrow> u8 \<Rightarrow> guest_mem \<Rightarrow> guest_mem option" where
  "gm_write8 addr v m =
     (case gm_page addr True m of
        (None, m1) \<Rightarrow> Some m1
      | (Some p, m1) \<Rightarrow> ptr_put p (gm_off addr) v m1)"

fun ptr_gets :: "guest_mem \<Rightarrow> gptr \<Rightarrow> nat \<Rightarrow> nat \<Rightarrow> u8 list option" where
  "ptr_gets m p off 0 = Some []"
| "ptr_gets m p off (Suc n) =
     do { v \<leftarrow> ptr_get m p off; vs \<leftarrow> ptr_gets m p (off + 1) n; Some (v # vs) }"

fun ptr_puts :: "gptr \<Rightarrow> nat \<Rightarrow> u8 list \<Rightarrow> guest_mem \<Rightarrow> guest_mem option" where
  "ptr_puts p off [] m = Some m"
| "ptr_puts p off (v # vs) m = do { m1 \<leftarrow> ptr_put p off v m; ptr_puts p (off + 1) vs m1 }"

text \<open>The byte loops \<open>gm_read_out\<close> and \<open>gm_write\<close>; the sized accesses run them across a page boundary.\<close>

fun gm_read_out :: "u32 \<Rightarrow> nat \<Rightarrow> guest_mem \<Rightarrow> (u8 list \<times> guest_mem) option" where
  "gm_read_out addr 0 m = Some ([], m)"
| "gm_read_out addr (Suc n) m =
     do { (v, m1) \<leftarrow> gm_read8 addr m; (vs, m2) \<leftarrow> gm_read_out (addr + 1) n m1; Some (v # vs, m2) }"

fun gm_write :: "u32 \<Rightarrow> u8 list \<Rightarrow> guest_mem \<Rightarrow> guest_mem option" where
  "gm_write addr [] m = Some m"
| "gm_write addr (v # vs) m = do { m1 \<leftarrow> gm_write8 addr v m; gm_write (addr + 1) vs m1 }"

definition gm_zero :: "u32 \<Rightarrow> nat \<Rightarrow> guest_mem \<Rightarrow> guest_mem option" where
  "gm_zero addr len m = gm_write addr (replicate len 0) m"

fun copy_from_guest :: "u32 \<Rightarrow> nat \<Rightarrow> guest_mem \<Rightarrow> (u8 list option \<times> guest_mem) option" where
  "copy_from_guest addr 0 m = Some (Some [], m)"
| "copy_from_guest addr (Suc n) m =
     (case gm_page addr False m of
        (None, m1) \<Rightarrow> Some (None, m1)
      | (Some p, m1) \<Rightarrow>
          do { v \<leftarrow> ptr_get m1 p (gm_off addr);
               (r, m2) \<leftarrow> copy_from_guest (addr + 1) n m1;
               Some (map_option (\<lambda>vs. v # vs) r, m2) })"

definition word_of_bytes :: "bool \<Rightarrow> u8 list \<Rightarrow> u32" where
  "word_of_bytes be b =
     (case b of
        [b0] \<Rightarrow> ucast b0
      | [b0, b1] \<Rightarrow> if be then push_bit 8 (ucast b0) OR ucast b1 else ucast b0 OR push_bit 8 (ucast b1)
      | [b0, b1, b2, b3] \<Rightarrow>
          if be then push_bit 24 (ucast b0) OR push_bit 16 (ucast b1) OR push_bit 8 (ucast b2) OR ucast b3
          else ucast b0 OR push_bit 8 (ucast b1) OR push_bit 16 (ucast b2) OR push_bit 24 (ucast b3)
      | _ \<Rightarrow> 0)"

definition bytes_of_word :: "nat \<Rightarrow> bool \<Rightarrow> u32 \<Rightarrow> u8 list" where
  "bytes_of_word sz be val =
     (if sz = 1 then [ucast val]
      else if sz = 2 then
        (if be then [ucast (drop_bit 8 val), ucast val] else [ucast val, ucast (drop_bit 8 val)])
      else
        (if be then [ucast (drop_bit 24 val), ucast (drop_bit 16 val), ucast (drop_bit 8 val), ucast val]
         else [ucast val, ucast (drop_bit 8 val), ucast (drop_bit 16 val), ucast (drop_bit 24 val)]))"

text \<open>\<open>size\<close> is 1, 2 or 4.\<close>

definition gm_load :: "u32 \<Rightarrow> nat \<Rightarrow> bool \<Rightarrow> guest_mem \<Rightarrow> (u32 \<times> guest_mem) option" where
  "gm_load addr sz be m =
     (if gm_off addr + sz \<le> 4096 then
        (case gm_page addr False m of
           (None, m1) \<Rightarrow> Some (0, m1)
         | (Some p, m1) \<Rightarrow> map_option (\<lambda>b. (word_of_bytes be b, m1)) (ptr_gets m1 p (gm_off addr) sz))
      else map_option (\<lambda>(b, m1). (word_of_bytes be b, m1)) (gm_read_out addr sz m))"

definition gm_store :: "u32 \<Rightarrow> nat \<Rightarrow> bool \<Rightarrow> u32 \<Rightarrow> guest_mem \<Rightarrow> guest_mem option" where
  "gm_store addr sz be val m =
     (let b = bytes_of_word sz be val in
      if gm_off addr + sz \<le> 4096 then
        (case gm_page addr True m of
           (None, m1) \<Rightarrow> Some m1
         | (Some p, m1) \<Rightarrow> ptr_puts p (gm_off addr) b m1)
      else gm_write addr b m)"

subsection \<open>Dynamic mappings\<close>

definition round_page :: "u32 \<Rightarrow> u32" where
  "round_page sz = (sz + GM_PAGE_SIZE - 1) AND NOT (GM_PAGE_SIZE - 1)"

definition gm_mmap :: "u32 \<Rightarrow> u32 \<Rightarrow> guest_mem \<Rightarrow> u32 \<times> guest_mem" where
  "gm_mmap size0 flags m =
     (let sz = round_page size0 in
      if sz = 0 then (0, m)
      else
        let m1 = (if gm_mmap_next m = 0 then m\<lparr> gm_mmap_next := GM_MMAP_BASE \<rparr> else m);
            ceiling = (if gm_extern m1 \<noteq> None then ucast (gm_extern_size m1) else 0x100000000 :: u64);
            guard = (flags AND 1 \<noteq> 0);
            next_a = (ucast (gm_mmap_next m1) :: u64);
            base64 = next_a + (if guard then 4096 else 0);
            fin = base64 + ucast sz + 4096
        in if fin > ceiling then (0, m1)
           else if gm_nregions m1 + (if guard then 2 else 1) > GM_MAX_REGIONS then (0, m1)
           else
             let m2 = (if guard then fst (gm_map (ucast next_a) 4096 0 ''guard'' m1) else m1);
                 base = ucast base64;
                 m3 = fst (gm_map base sz 3 ''mapping'' m2)
             in (base, m3\<lparr> gm_mmap_next := ucast fin \<rparr>))"

definition unmap_page :: "u32 \<Rightarrow> guest_mem \<Rightarrow> guest_mem" where
  "unmap_page a m =
     (case page_at (gm_dir m) a of
        None \<Rightarrow> m
      | Some p \<Rightarrow>
          m\<lparr> gm_heap := (gm_heap m)(p := None),
             gm_dir := page_set a None (gm_dir m),
             gm_wdir := page_set a None (gm_wdir m),
             gm_committed := (if gm_committed m \<ge> 4096 then gm_committed m - 4096 else gm_committed m),
             gm_pool_of := map_option (\<lambda>q. if pool_used q \<ge> 4096 then q\<lparr>pool_used := pool_used q - 4096\<rparr> else q)
                             (gm_pool_of m) \<rparr>)"

fun unmap_pages :: "nat \<Rightarrow> u32 \<Rightarrow> guest_mem \<Rightarrow> guest_mem" where
  "unmap_pages 0 a m = m"
| "unmap_pages (Suc k) a m = unmap_pages k (a + GM_PAGE_SIZE) (unmap_page a m)"

text \<open>The first region entry with exactly this base and size.\<close>

fun find_region :: "(nat \<Rightarrow> gm_region) \<Rightarrow> u32 \<Rightarrow> u32 \<Rightarrow> nat list \<Rightarrow> nat option" where
  "find_region rs base sz [] = None"
| "find_region rs base sz (i # is) =
     (if rg_base (rs i) = base \<and> rg_size (rs i) = sz then Some i else find_region rs base sz is)"

definition drop_regions :: "nat \<Rightarrow> nat \<Rightarrow> guest_mem \<Rightarrow> guest_mem" where
  "drop_regions lo n m =
     m\<lparr> gm_regions := (\<lambda>j. if lo \<le> j \<and> j + n < gm_nregions m then gm_regions m (j + n) else gm_regions m j),
        gm_nregions := gm_nregions m - n \<rparr>"

definition gm_munmap :: "u32 \<Rightarrow> u32 \<Rightarrow> guest_mem \<Rightarrow> guest_mem" where
  "gm_munmap base size0 m =
     (let sz = round_page size0 in
      if sz = 0 then m
      else if (ucast base :: u64) + ucast sz > 0x100000000 then m
      else
        let m1 = unmap_pages (unat (drop_bit 12 sz)) base m;
            m2 = (case find_region (gm_regions m1) base sz [0..<gm_nregions m1] of
                    None \<Rightarrow> m1
                  | Some i \<Rightarrow>
                      let r = gm_regions m1 (i - 1);
                          lo = (if i > 0 \<and> rg_prot r = 0 \<and> rg_base r + rg_size r = base then i - 1 else i)
                      in drop_regions lo (i - lo + 1) m1)
        in m2\<lparr> gm_last := None \<rparr>)"

text \<open>\<open>gm_free\<close> releases every page and every table.\<close>

definition gm_free :: "guest_mem \<Rightarrow> guest_mem" where
  "gm_free m =
     m\<lparr> gm_heap := (\<lambda>p. if \<exists>i<1024. \<exists>j<1024. (case gm_dir m i of None \<Rightarrow> False | Some t \<Rightarrow> t j = Some p)
                        then None else gm_heap m p),
        gm_dir := (\<lambda>i. if i < 1024 then None else gm_dir m i),
        gm_wdir := (\<lambda>i. if i < 1024 then None else gm_wdir m i),
        gm_pool_of := map_option (\<lambda>q. q\<lparr>pool_used := (if pool_used q \<ge> gm_committed m
                                                      then pool_used q - gm_committed m else 0)\<rparr>)
                        (gm_pool_of m),
        gm_committed := 0 \<rparr>"

end
