(* ===== verification/Guest_Mem_Correct.thy ===== *)
theory Guest_Mem_Correct
  imports Guest_Mem
begin

text \<open>
  Correctness of the sparse guest memory of \<^verbatim>\<open>Guest_Mem\<close>: the page table never hands out a freed or a
  shared page, so no access is undefined; reads and writes refine a flat array of bytes; a stored
  value is read back; the write cache agrees with the region protections; dynamic mappings are
  disjoint while the cursor does not wrap.
\<close>

unbundle bit_operations_syntax

text \<open>Simplify inside the branches of a case on an option.\<close>

declare option.case_cong_weak [cong del]

subsection \<open>Pages\<close>

definition pg :: "u32 \<Rightarrow> nat" where "pg a = unat a div 4096"

lemma unat_and_mask: "unat ((w :: u32) AND mask n) = unat w mod 2 ^ n"
proof -
  have "unat (w AND mask n) = take_bit n (unat w)" by (simp add: unsigned_take_bit_eq flip: take_bit_eq_mask)
  then show ?thesis by (simp add: take_bit_eq_mod)
qed

lemma gm_l1_pg: "gm_l1 a = pg a div 1024"
  by (simp add: gm_l1_def pg_def drop_bit_eq_div unat_div div_mult2_eq [symmetric])

lemma gm_l2_pg: "gm_l2 a = pg a mod 1024"
  using unat_and_mask [of "drop_bit 12 a" 10]
  by (simp add: gm_l2_def pg_def drop_bit_eq_div unat_div mask_eq_exp_minus_1)

lemma gm_off_mod: "gm_off a = unat a mod 4096"
  using unat_and_mask [of a 12] by (simp add: gm_off_def mask_eq_exp_minus_1)

lemma same_slot: "gm_l1 a = gm_l1 b \<and> gm_l2 a = gm_l2 b \<longleftrightarrow> pg a = pg b"
  by (metis div_mod_decomp gm_l1_pg gm_l2_pg)

lemma page_off_inj: "pg a = pg b \<Longrightarrow> gm_off a = gm_off b \<Longrightarrow> a = b"
  by (metis div_mod_decomp gm_off_mod pg_def word_unat_eq_iff)

lemma page_at_cong: "pg a = pg b \<Longrightarrow> page_at d a = page_at d b"
  using same_slot [of a b] by (simp add: page_at_def split: option.splits)

lemma page_at_set:
  "page_at (page_set a p d) b =
     (if pg a = pg b \<and> d (gm_l1 a) \<noteq> None then p else page_at d b)"
  using same_slot [of a b] by (auto simp: page_at_def page_set_def split: option.splits)

lemma page_at_newtable:
  "d (gm_l1 a) = None \<Longrightarrow> page_at (d(gm_l1 a := Some (\<lambda>_. None))) b = page_at d b"
  by (auto simp: page_at_def)

lemma page_at_table: "page_at d a = Some p \<Longrightarrow> d (gm_l1 a) \<noteq> None"
  by (auto simp: page_at_def split: option.splits)


subsection \<open>Well-formed memories and their contents\<close>

text \<open>
  A paged guest: the vDSO, if any, covers whole pages; the directory's pages are live, allocated
  so far and never shared by two page numbers; the write cache only repeats the directory.
\<close>

definition vdso_ok :: "guest_mem \<Rightarrow> bool" where
  "vdso_ok m \<longleftrightarrow>
     (case gm_vdso m of
        None \<Rightarrow> True
      | Some bs \<Rightarrow> unat (gm_vdso_vaddr m) mod 4096 = 0 \<and> unat (gm_vdso_size m) mod 4096 = 0 \<and>
                  unat (gm_vdso_vaddr m) + unat (gm_vdso_size m) \<le> 2 ^ 32 \<and>
                  length bs = unat (gm_vdso_size m))"

definition gm_wf :: "guest_mem \<Rightarrow> bool" where
  "gm_wf m \<longleftrightarrow>
     gm_extern m = None \<and> vdso_ok m \<and>
     (\<forall>a p. page_at (gm_dir m) a = Some p \<longrightarrow> gm_heap m p \<noteq> None \<and> p < gm_callocs m) \<and>
     (\<forall>a b p. page_at (gm_dir m) a = Some p \<longrightarrow> pg a \<noteq> pg b \<longrightarrow> page_at (gm_dir m) b \<noteq> Some p) \<and>
     (\<forall>a p. page_at (gm_wdir m) a = Some p \<longrightarrow> page_at (gm_dir m) a = Some p) \<and>
     gm_nregions m \<le> 256 \<and> (\<forall>i. gm_last m = Some i \<longrightarrow> i < gm_nregions m)"

definition content :: "guest_mem \<Rightarrow> u32 \<Rightarrow> u8" where
  "content m a =
     (if in_vdso a m then the (gm_vdso m) ! unat (a - gm_vdso_vaddr m)
      else (case page_at (gm_dir m) a of
              None \<Rightarrow> 0
            | Some p \<Rightarrow> (case gm_heap m p of None \<Rightarrow> 0 | Some b \<Rightarrow> b (gm_off a))))"

lemmas gm_wfD =
  gm_wf_def [THEN iffD1, THEN conjunct1]
  gm_wf_def [THEN iffD1, THEN conjunct2, THEN conjunct1]
  gm_wf_def [THEN iffD1, THEN conjunct2, THEN conjunct2, THEN conjunct1, rule_format]
  gm_wf_def [THEN iffD1, THEN conjunct2, THEN conjunct2, THEN conjunct2, THEN conjunct1, rule_format]
  gm_wf_def [THEN iffD1, THEN conjunct2, THEN conjunct2, THEN conjunct2, THEN conjunct2, THEN conjunct1, rule_format]
  gm_wf_def [THEN iffD1, THEN conjunct2, THEN conjunct2, THEN conjunct2, THEN conjunct2, THEN conjunct2, THEN conjunct1]
  gm_wf_def [THEN iffD1, THEN conjunct2, THEN conjunct2, THEN conjunct2, THEN conjunct2, THEN conjunct2, THEN conjunct2, rule_format]

text \<open>
  Accounting: \<open>committed\<close> counts the pages that are there, and never exceeds the limit.  Protection:
  regions are whole pages and disjoint; a page is only there inside a region that is not a guard,
  and only in the write cache inside a writable one.
\<close>

definition pages :: "guest_mem \<Rightarrow> nat set" where
  "pages m = {pg a | a. page_at (gm_dir m) a \<noteq> None}"

definition gm_acct :: "guest_mem \<Rightarrow> bool" where
  "gm_acct m \<longleftrightarrow> unat (gm_committed m) = 4096 * card (pages m) \<and> gm_committed m \<le> gm_limit m"

definition whole_pages :: "gm_region \<Rightarrow> bool" where
  "whole_pages r \<longleftrightarrow> unat (rg_base r) mod 4096 = 0 \<and> unat (rg_size r) mod 4096 = 0 \<and>
     unat (rg_base r) + unat (rg_size r) \<le> 2 ^ 32"

definition region_with :: "guest_mem \<Rightarrow> (nat \<Rightarrow> bool) \<Rightarrow> u32 \<Rightarrow> bool" where
  "region_with m P a \<longleftrightarrow> (\<exists>i<gm_nregions m. rg_contains (gm_regions m i) a \<and> P (rg_prot (gm_regions m i)))"

definition gm_sealed :: "guest_mem \<Rightarrow> bool" where
  "gm_sealed m \<longleftrightarrow>
     (\<forall>i<gm_nregions m. whole_pages (gm_regions m i)) \<and>
     (\<forall>i<gm_nregions m. \<forall>j<gm_nregions m. i \<noteq> j \<longrightarrow>
        (\<forall>a. rg_contains (gm_regions m i) a \<longrightarrow> \<not> rg_contains (gm_regions m j) a)) \<and>
     (\<forall>a. page_at (gm_dir m) a \<noteq> None \<longrightarrow> region_with m (\<lambda>p. p \<noteq> 0) a) \<and>
     (\<forall>a. page_at (gm_wdir m) a \<noteq> None \<longrightarrow> region_with m (\<lambda>p. odd (p div 2)) a)"

lemmas gm_sealedD =
  gm_sealed_def [THEN iffD1, THEN conjunct1, rule_format]
  gm_sealed_def [THEN iffD1, THEN conjunct2, THEN conjunct1, rule_format]
  gm_sealed_def [THEN iffD1, THEN conjunct2, THEN conjunct2, THEN conjunct1, rule_format]
  gm_sealed_def [THEN iffD1, THEN conjunct2, THEN conjunct2, THEN conjunct2, rule_format]

lemma finite_pages: "finite (pages m)" "card (pages m) \<le> 1048576"
proof -
  have sub: "pages m \<subseteq> {..<1048576}"
  proof
    fix n assume "n \<in> pages m"
    then obtain a :: u32 where "n = unat a div 4096" by (auto simp: pages_def pg_def)
    moreover have "unat a < 4294967296" using unsigned_less [of a, where 'a = nat] by simp
    ultimately show "n \<in> {..<1048576}" by (simp add: div_less_iff_less_mult)
  qed
  then show "finite (pages m)" using finite_subset by blast
  show "card (pages m) \<le> 1048576" using card_mono [OF _ sub] by simp
qed

lemma acct_cong:
  assumes "\<And>b. page_at (gm_dir m') b = page_at (gm_dir m) b" "gm_committed m' = gm_committed m"
    "gm_limit m' = gm_limit m"
  shows "gm_acct m' = gm_acct m"
  using assms by (simp add: gm_acct_def pages_def)

lemma sealed_cong:
  assumes "\<And>b. page_at (gm_dir m') b = None \<longleftrightarrow> page_at (gm_dir m) b = None"
    "\<And>b. page_at (gm_wdir m') b = None \<longleftrightarrow> page_at (gm_wdir m) b = None"
    "gm_regions m' = gm_regions m" "gm_nregions m' = gm_nregions m"
  shows "gm_sealed m' = gm_sealed m"
  using assms by (simp add: gm_sealed_def region_with_def)

text \<open>What finding a page may change: caches, accounting, faults, and fresh zero pages.\<close>

definition grows :: "guest_mem \<Rightarrow> guest_mem \<Rightarrow> bool" where
  "grows m m' \<longleftrightarrow>
     gm_wf m' \<and> content m' = content m \<and> gm_vdso m' = gm_vdso m \<and>
     gm_vdso_vaddr m' = gm_vdso_vaddr m \<and> gm_vdso_size m' = gm_vdso_size m \<and>
     (\<forall>a p. page_at (gm_dir m) a = Some p \<longrightarrow> page_at (gm_dir m') a = Some p) \<and>
     gm_regions m' = gm_regions m \<and> gm_nregions m' = gm_nregions m \<and>
     gm_loading m' = gm_loading m \<and> gm_limit m' = gm_limit m \<and> gm_mmap_next m' = gm_mmap_next m \<and>
     (gm_faulted m \<longrightarrow> gm_faulted m') \<and> (gm_acct m \<longrightarrow> gm_acct m') \<and> (gm_sealed m \<longrightarrow> gm_sealed m')"

lemma grows_refl: "gm_wf m \<Longrightarrow> grows m m"
  by (simp add: grows_def)

lemma grows_trans: "grows m m1 \<Longrightarrow> grows m1 m2 \<Longrightarrow> grows m m2"
  by (simp add: grows_def)

lemma grows_wf: "grows m m' \<Longrightarrow> gm_wf m'"
  by (simp add: grows_def)

text \<open>An update that leaves the tables and the pages alone.\<close>

definition same_pages :: "guest_mem \<Rightarrow> guest_mem \<Rightarrow> bool" where
  "same_pages m m' \<longleftrightarrow>
     gm_extern m' = gm_extern m \<and> gm_vdso m' = gm_vdso m \<and> gm_vdso_vaddr m' = gm_vdso_vaddr m \<and>
     gm_vdso_size m' = gm_vdso_size m \<and> gm_dir m' = gm_dir m \<and> gm_wdir m' = gm_wdir m \<and>
     gm_heap m' = gm_heap m \<and> gm_callocs m \<le> gm_callocs m' \<and> gm_regions m' = gm_regions m \<and>
     gm_nregions m' = gm_nregions m \<and> gm_loading m' = gm_loading m \<and> gm_limit m' = gm_limit m \<and>
     gm_mmap_next m' = gm_mmap_next m \<and> gm_committed m' = gm_committed m"

lemma content_cong:
  assumes "gm_vdso m' = gm_vdso m" "gm_vdso_vaddr m' = gm_vdso_vaddr m" "gm_vdso_size m' = gm_vdso_size m"
    "\<And>b. page_at (gm_dir m') b = page_at (gm_dir m) b" "gm_heap m' = gm_heap m"
  shows "content m' = content m"
proof
  fix b
  have "in_vdso b m' = in_vdso b m" using assms by (simp add: in_vdso_def)
  then show "content m' b = content m b" by (simp add: content_def assms)
qed

lemma same_pages_content: "same_pages m m' \<Longrightarrow> content m' = content m"
  by (rule content_cong) (simp_all add: same_pages_def)

lemma same_pages_wf:
  assumes "same_pages m m'" "gm_wf m" "\<And>i. gm_last m' = Some i \<Longrightarrow> i < gm_nregions m"
  shows "gm_wf m'"
proof -
  have "vdso_ok m'" using assms(1) gm_wfD(2) [OF assms(2)] by (simp add: same_pages_def vdso_ok_def)
  moreover have "p < gm_callocs m'" if "page_at (gm_dir m) a = Some p" for a p
    using gm_wfD(3) [OF assms(2) that] assms(1) by (simp add: same_pages_def)
  ultimately show ?thesis
    using assms unfolding gm_wf_def same_pages_def by metis
qed

lemma same_pages_grows:
  assumes "same_pages m m'" "gm_wf m" "\<And>i. gm_last m' = Some i \<Longrightarrow> i < gm_nregions m"
    "gm_faulted m \<Longrightarrow> gm_faulted m'"
  shows "grows m m'"
  using same_pages_wf [OF assms(1-3)] same_pages_content [OF assms(1)] assms(1,4)
    acct_cong [of m' m] sealed_cong [of m' m]
  by (simp add: grows_def same_pages_def)

lemma fault_same: "same_pages m (gm_fault a w why m)"
  by (simp add: same_pages_def gm_fault_def)

lemma fault_last: "gm_last (gm_fault a w why m) = gm_last m"
  by (simp add: gm_fault_def)

lemma fault_faulted: "gm_faulted (gm_fault a w why m)"
  by (simp add: gm_fault_def)

lemma fault_grows: "gm_wf m \<Longrightarrow> grows m (gm_fault a w why m) \<and> gm_faulted (gm_fault a w why m)"
  using same_pages_grows [OF fault_same, of m a w why] by (simp add: fault_last fault_faulted gm_wfD(7))

lemma guard_grows: "grows m m' \<Longrightarrow> grows m (m'\<lparr> gm_fault_guard := g \<rparr>)"
  by (rule grows_trans, assumption, rule same_pages_grows)
    (auto simp: same_pages_def dest: grows_wf gm_wfD(7))

lemma region_scan_SomeD: "region_scan rs a is = Some i \<Longrightarrow> i \<in> set is \<and> rg_contains (rs i) a"
  by (induction "is") (auto split: if_splits)

lemma region_scan_NoneD: "region_scan rs a is = None \<Longrightarrow> i \<in> set is \<Longrightarrow> \<not> rg_contains (rs i) a"
  by (induction "is") (auto split: if_splits)

text \<open>The lookup cache is transparent up to which of several overlapping regions is found.\<close>

lemma region_of_cases:
  assumes "region_of a m = (r, m1)" and wf: "gm_wf m"
  obtains (found) i where "r = Some i" "i < gm_nregions m" "rg_contains (gm_regions m i) a"
      "m1 = m\<lparr> gm_last := Some i \<rparr>"
    | (none) "r = None" "m1 = m" "\<And>i. i < gm_nregions m \<Longrightarrow> \<not> rg_contains (gm_regions m i) a"
proof (cases "\<exists>i. gm_last m = Some i \<and> rg_contains (gm_regions m i) a")
  case True
  then obtain i where i: "gm_last m = Some i" "rg_contains (gm_regions m i) a" by blast
  have "m\<lparr> gm_last := Some i \<rparr> = m" using i(1) by simp
  with i assms(1) gm_wfD(7) [OF wf i(1)] show thesis
    by (intro found [of i]) (auto simp: region_of_def)
next
  case False
  then have "(r, m1) = (case region_scan (gm_regions m) a [0..<gm_nregions m] of
      None \<Rightarrow> (None, m) | Some j \<Rightarrow> (Some j, m\<lparr>gm_last := Some j\<rparr>))"
    using assms(1) by (auto simp: region_of_def split: option.splits if_splits)
  then show thesis
    using region_scan_SomeD [of "gm_regions m" a "[0..<gm_nregions m]"]
      region_scan_NoneD [of "gm_regions m" a "[0..<gm_nregions m]"]
    by (auto split: option.splits intro: found none)
qed

lemma last_grows: "gm_wf m \<Longrightarrow> i < gm_nregions m \<Longrightarrow> grows m (m\<lparr> gm_last := Some i \<rparr>)"
  by (rule same_pages_grows) (simp_all add: same_pages_def)

text \<open>Whether a region lets an access through.\<close>

definition permits :: "guest_mem \<Rightarrow> gm_region \<Rightarrow> bool \<Rightarrow> bool" where
  "permits m r w \<longleftrightarrow> rg_prot r \<noteq> 0 \<and> (w \<longrightarrow> odd (rg_prot r div 2) \<or> gm_loading m)"

lemma check_region_cases:
  assumes "check_region a w m = (r, m1)" and wf: "gm_wf m"
  obtains (pass) i where "r = Some (gm_regions m i)" "i < gm_nregions m" "rg_contains (gm_regions m i) a"
      "permits m (gm_regions m i) w" "m1 = m\<lparr> gm_last := Some i \<rparr>"
    | (stop) "r = None" "grows m m1" "gm_faulted m1"
      "gm_dir m1 = gm_dir m" "gm_wdir m1 = gm_wdir m" "gm_heap m1 = gm_heap m"
proof -
  obtain i m2 where reg: "region_of a m = (i, m2)" by (cases "region_of a m")
  from reg wf show thesis
  proof (cases rule: region_of_cases)
    case none
    then have "r = None" "m1 = gm_fault a w ''unmapped'' m"
      using assms(1) reg by (auto simp: check_region_def)
    then show thesis using fault_grows [OF wf] by (intro stop) (auto simp: gm_fault_def)
  next
    case (found j)
    note gr = last_grows [OF wf found(2)]
    consider (guard) "rg_prot (gm_regions m j) = 0"
      | (ro) "rg_prot (gm_regions m j) \<noteq> 0" "\<not> permits m (gm_regions m j) w"
      | (ok) "permits m (gm_regions m j) w" by blast
    then show thesis
    proof cases
      case guard
      then have r: "r = None"
        "m1 = (gm_fault a w ''stack overflow'' m2)\<lparr> gm_fault_guard := True \<rparr>"
        using assms(1) reg found by (auto simp: check_region_def)
      have "grows m m1"
        using grows_trans [OF gr conjunct1 [OF fault_grows]] gr found(4) r(2)
        by (auto intro: guard_grows simp: grows_wf)
      then show thesis
        using r found(4) by (intro stop) (auto simp: gm_fault_def)
    next
      case ro
      then have r: "r = None" "m1 = gm_fault a True ''read-only'' m2"
        using assms(1) reg found by (auto simp: check_region_def permits_def)
      have "grows m m1"
        using grows_trans [OF gr conjunct1 [OF fault_grows]] gr found(4) r(2) by (auto simp: grows_wf)
      then show thesis using r found(4) by (intro stop) (auto simp: gm_fault_def)
    next
      case ok
      then have "r = Some (gm_regions m j)" "m1 = m2"
        using assms(1) reg found by (auto simp: check_region_def permits_def)
      then show thesis using pass [of j] ok found by simp
    qed
  qed
qed


subsection \<open>Finding a page\<close>

text \<open>What a step adds is fresh, zero and entered once.\<close>

lemma rg_contains_nat:
  "whole_pages r \<Longrightarrow> rg_contains r a \<longleftrightarrow>
     unat (rg_base r) \<le> unat a \<and> unat a < unat (rg_base r) + unat (rg_size r)"
  by (auto simp: rg_contains_def word_le_nat_alt word_less_nat_alt unat_sub)

lemma aligned_range:
  assumes "v mod 4096 = 0" "s mod 4096 = 0" "a div 4096 = b div (4096 :: nat)" "v \<le> a" "a < v + s"
  shows "v \<le> b" "b < v + s"
proof -
  obtain k where v: "v = 4096 * k" using assms(1) by auto
  obtain l where s: "s = 4096 * l" using assms(2) by auto
  have "k \<le> a div 4096" "a div 4096 < k + l" using assms(4,5) unfolding v s
    by (simp_all add: less_eq_div_iff_mult_less_eq div_less_iff_less_mult algebra_simps)
  then have "k \<le> b div 4096" "b div 4096 < k + l" using assms(3) by simp_all
  then show "v \<le> b" "b < v + s" unfolding v s
    by (simp_all add: less_eq_div_iff_mult_less_eq div_less_iff_less_mult algebra_simps)
qed

lemma rg_page:
  assumes "whole_pages r" "pg a = pg b" "rg_contains r a" shows "rg_contains r b"
  using aligned_range [of "unat (rg_base r)" "unat (rg_size r)" "unat a" "unat b"] assms
  by (simp add: rg_contains_nat) (simp add: whole_pages_def pg_def)

lemma add_table_grows:
  assumes wf: "gm_wf m" and d: "\<And>b. page_at d b = page_at (gm_dir m) b"
    and n: "gm_callocs m \<le> n"
  shows "grows m (m\<lparr> gm_callocs := n, gm_dir := d \<rparr>)"
proof -
  let ?m = "m\<lparr> gm_callocs := n, gm_dir := d \<rparr>"
  have c: "content ?m = content m"
    by (rule content_cong) (simp_all add: d)
  have "vdso_ok ?m" using gm_wfD(2) [OF wf] by (simp add: vdso_ok_def)
  moreover have "p < n" if "page_at (gm_dir m) a = Some p" for a p
    using gm_wfD(3) [OF wf that] n by simp
  ultimately have "gm_wf ?m"
    unfolding gm_wf_def using gm_wfD(1,6,7) [OF wf] gm_wfD(3-5) [OF wf] by (auto simp: d)
  moreover have "gm_acct ?m = gm_acct m" by (rule acct_cong) (simp_all add: d)
  moreover have "gm_sealed ?m = gm_sealed m" by (rule sealed_cong) (simp_all add: d)
  ultimately show ?thesis by (simp add: grows_def c d)
qed

lemma add_page_grows:
  assumes wf: "gm_wf m" and a: "page_at (gm_dir m) a = None" and t: "gm_dir m (gm_l1 a) \<noteq> None"
    and p: "p = gm_callocs m"
    and m': "m' = m\<lparr> gm_callocs := p + 1, gm_heap := (gm_heap m)(p := Some (\<lambda>_. 0)),
        gm_dir := page_set a (Some p) (gm_dir m), gm_committed := gm_committed m + 4096, gm_pool_of := y \<rparr>"
    and room: "\<not> gm_committed m + 4096 > gm_limit m"
    and reg: "region_with m (\<lambda>p. p \<noteq> 0) a"
  shows "grows m m' \<and> page_at (gm_dir m') a = Some p"
proof -
  have d: "page_at (gm_dir m') b = (if pg a = pg b then Some p else page_at (gm_dir m) b)" for b
    using t by (simp add: m' page_at_set)
  have old: "q < p" if "page_at (gm_dir m) b = Some q" for b q
    using gm_wfD(3) [OF wf that] p by simp
  have none: "page_at (gm_dir m) b = None" if "pg a = pg b" for b
    using page_at_cong [OF that] a by simp
  have c: "content m' = content m"
  proof
    fix b
    have v: "in_vdso b m' = in_vdso b m" by (simp add: in_vdso_def m')
    show "content m' b = content m b"
    proof (cases "pg a = pg b")
      case True
      then show ?thesis using none [OF True] by (simp add: content_def v d) (simp add: m')
    next
      case False
      have "page_at (gm_dir m) b \<noteq> Some p" using old by blast
      then have "(case page_at (gm_dir m) b of None \<Rightarrow> 0 | Some q \<Rightarrow> case gm_heap m' q of None \<Rightarrow> 0 | Some f \<Rightarrow> f (gm_off b))
          = (case page_at (gm_dir m) b of None \<Rightarrow> 0 | Some q \<Rightarrow> case gm_heap m q of None \<Rightarrow> 0 | Some f \<Rightarrow> f (gm_off b))"
        by (cases "page_at (gm_dir m) b") (auto simp: m')
      then show ?thesis using False by (simp add: content_def v d) (simp add: m')
    qed
  qed
  have "gm_wf m'" unfolding gm_wf_def
  proof (intro conjI allI impI)
    show "gm_extern m' = None" using gm_wfD(1) [OF wf] by (simp add: m')
    show "vdso_ok m'" using gm_wfD(2) [OF wf] by (simp add: m' vdso_ok_def)
    show "gm_nregions m' \<le> 256" using gm_wfD(6) [OF wf] by (simp add: m')
    show "i < gm_nregions m'" if "gm_last m' = Some i" for i
      using gm_wfD(7) [OF wf] that by (simp add: m')
    show "gm_heap m' q \<noteq> None" if "page_at (gm_dir m') b = Some q" for b q
      using that gm_wfD(3) [OF wf, of b q] unfolding d by (auto simp: m' split: if_splits)
    show "q < gm_callocs m'" if "page_at (gm_dir m') b = Some q" for b q
      using that old [of b q] unfolding d by (auto simp: m' split: if_splits)
    show "page_at (gm_dir m') b' \<noteq> Some q" if "page_at (gm_dir m') b = Some q" "pg b \<noteq> pg b'" for b b' q
      using that old [of b q] old [of b' q] gm_wfD(4) [OF wf, of b q b'] unfolding d
      by (auto split: if_splits)
    show "page_at (gm_dir m') b = Some q" if "page_at (gm_wdir m') b = Some q" for b q
      using gm_wfD(5) [OF wf, of b q] that none [of b] by (simp add: d) (auto simp: m')
  qed
  moreover have "page_at (gm_dir m') b = Some q" if "page_at (gm_dir m) b = Some q" for b q
    using that none [of b] by (auto simp: d)
  moreover have "gm_acct m'" if "gm_acct m"
  proof -
    have "pages m' = insert (pg a) (pages m)" "pg a \<notin> pages m"
      using none by (auto simp: pages_def d)
    then have "card (pages m') = card (pages m) + 1" using finite_pages(1) [of m] by simp
    moreover have "unat (gm_committed m + 4096) = unat (gm_committed m) + 4096"
      using that finite_pages(2) [of m] unat_add_lem [of "gm_committed m" "4096 :: u64"] by (simp add: gm_acct_def)
    ultimately show ?thesis using that room by (simp add: gm_acct_def m')
  qed
  moreover have "gm_sealed m'" if sl: "gm_sealed m"
  proof -
    have rw: "region_with m' P b = region_with m P b" for P b by (simp add: region_with_def m')
    obtain i where i: "i < gm_nregions m" "rg_contains (gm_regions m i) a" "rg_prot (gm_regions m i) \<noteq> 0"
      using reg by (auto simp: region_with_def)
    have "region_with m (\<lambda>p. p \<noteq> 0) b" if "pg a = pg b" for b
      using i rg_page [OF gm_sealedD(1) [OF sl i(1)] that i(2)] by (auto simp: region_with_def)
    then have "region_with m' (\<lambda>p. p \<noteq> 0) b" if "page_at (gm_dir m') b \<noteq> None" for b
      using that gm_sealedD(3) [OF sl, of b] by (auto simp: d rw split: if_splits)
    moreover have "region_with m' (\<lambda>p. odd (p div 2)) b" if "page_at (gm_wdir m') b \<noteq> None" for b
      using that gm_sealedD(4) [OF sl, of b] by (simp add: rw) (simp add: m')
    ultimately show ?thesis
      using gm_sealedD(1,2) [OF sl] by (simp add: gm_sealed_def) (simp add: m')
  qed
  ultimately have "grows m m'"
    unfolding grows_def using c by (simp add: m')
  then show ?thesis by (simp add: d)
qed


lemma host_calloc_cases:
  assumes "host_calloc m = (r, m1)"
  obtains "r = Some (gm_callocs m)" "m1 = m\<lparr> gm_callocs := gm_callocs m + 1 \<rparr>"
    | "r = None" "m1 = m\<lparr> gm_callocs := gm_callocs m + 1 \<rparr>"
  using assms by (auto simp: host_calloc_def split: if_splits)

text \<open>The leaf table of \<open>a\<close>, old or fresh.\<close>

lemma table_cases:
  assumes "(case gm_dir m (gm_l1 a) of Some t \<Rightarrow> (Some t, m) | None \<Rightarrow> alloc_table m) = (r, m1)"
  obtains (table) t n where "r = Some t" "m1 = m\<lparr> gm_callocs := n \<rparr>" "gm_callocs m \<le> n"
      "\<And>b. page_at ((gm_dir m)(gm_l1 a := Some t)) b = page_at (gm_dir m) b"
    | (stop) "r = None" "m1 = m\<lparr> gm_callocs := gm_callocs m + 1 \<rparr>"
proof (cases "gm_dir m (gm_l1 a)")
  case (Some t)
  then have "(gm_dir m)(gm_l1 a := Some t) = gm_dir m" by auto
  with Some assms show thesis by (intro table [of t "gm_callocs m"]) auto
next
  case None
  then show thesis using assms
    by (auto simp: alloc_table_def host_calloc_def page_at_newtable split: if_splits option.splits
        intro: stop table [of _ "gm_callocs m + 1"])
qed

lemma callocs_grows: "gm_wf m \<Longrightarrow> gm_callocs m \<le> n \<Longrightarrow> grows m (m\<lparr> gm_callocs := n \<rparr>)"
  by (rule same_pages_grows) (simp_all add: same_pages_def gm_wfD(7))

lemma fault_after: "grows m m1 \<Longrightarrow> grows m (gm_fault a w why m1) \<and> gm_faulted (gm_fault a w why m1)"
  using fault_grows [OF grows_wf] grows_trans by blast

lemma commit_page_cases:
  assumes "commit_page a w m = (r, m1)" and wf: "gm_wf m" and reg: "region_with m (\<lambda>p. p \<noteq> 0) a"
  obtains (page) p where "r = Some p" "grows m m1" "page_at (gm_dir m1) a = Some p"
      "gm_faulted m1 = gm_faulted m" "gm_wdir m1 = gm_wdir m"
    | (stop) "r = None" "grows m m1" "gm_faulted m1"
proof (cases "page_at (gm_dir m) a")
  case (Some p)
  then show thesis using assms page [of p] by (simp add: commit_page_def grows_refl)
next
  case None
  consider (full) "gm_committed m + 4096 > gm_limit m \<or> pool_full m"
    | (room) "\<not> gm_committed m + 4096 > gm_limit m" "\<not> pool_full m" by blast
  then show thesis
  proof cases
    case full
    then obtain why where "r = None" "m1 = gm_fault a w why m"
      using assms None by (auto simp: commit_page_def split: if_splits)
    then show thesis using fault_grows [OF wf] stop by auto
  next
    case room
    obtain t m2 where tm: "(case gm_dir m (gm_l1 a) of Some t \<Rightarrow> (Some t, m) | None \<Rightarrow> alloc_table m) = (t, m2)"
      by (cases "case gm_dir m (gm_l1 a) of Some t \<Rightarrow> (Some t, m) | None \<Rightarrow> alloc_table m")
    from tm show thesis
    proof (cases rule: table_cases)
      case stop
      then have "r = None" "m1 = gm_fault a w ''out of host memory'' m2"
        using assms(1) None room tm by (simp_all add: commit_page_def)
      with fault_after [OF callocs_grows [OF wf], of "gm_callocs m + 1"] stop(2) show thesis
        by (intro that(2)) simp_all
    next
      case (table t' n)
      define m3 where "m3 = m\<lparr> gm_callocs := n, gm_dir := (gm_dir m)(gm_l1 a := Some t') \<rparr>"
      have g3: "grows m m3" unfolding m3_def by (rule add_table_grows [OF wf table(4,3)])
      have none: "page_at (gm_dir m3) a = None" using table(4) None by (simp add: m3_def)
      have tab: "gm_dir m3 (gm_l1 a) \<noteq> None" by (simp add: m3_def)
      have eq: "m2\<lparr> gm_dir := (gm_dir m2)(gm_l1 a := Some t') \<rparr> = m3" by (simp add: m3_def table(2))
      obtain q m4 where hc: "host_calloc m3 = (q, m4)" by (cases "host_calloc m3")
      from hc show thesis
      proof (cases rule: host_calloc_cases)
        case 2
        then have "r = None" "m1 = gm_fault a w ''out of host memory'' m4"
          using assms(1) None room tm hc table(1) eq by (simp_all add: commit_page_def)
        with fault_after [OF grows_trans [OF g3 callocs_grows [OF grows_wf [OF g3]]], of "gm_callocs m3 + 1"] 2
        show thesis by (intro that(2)) simp_all
      next
        case 1
        let ?p = "gm_callocs m3"
        have r: "r = Some ?p" "m1 = m4\<lparr> gm_heap := (gm_heap m4)(?p := Some (\<lambda>_. 0)),
            gm_dir := page_set a (Some ?p) (gm_dir m4), gm_committed := gm_committed m4 + 4096,
            gm_pool_of := map_option (\<lambda>q. q\<lparr>pool_used := pool_used q + 4096\<rparr>) (gm_pool_of m4) \<rparr>"
          using assms(1) None room tm hc table(1) eq 1 by (auto simp: commit_page_def)
        have "grows m3 m1 \<and> page_at (gm_dir m1) a = Some ?p"
          by (rule add_page_grows [OF grows_wf [OF g3] none tab refl])
            (use room(1) reg in \<open>simp_all add: r(2) 1(2) m3_def region_with_def\<close>)
        then show thesis
          using that(1) [OF r(1)] grows_trans [OF g3] by (simp add: r(2) 1(2) m3_def)
      qed
    qed
  qed
qed


lemma wdir_grows:
  assumes wf: "gm_wf m" and d: "\<And>b p. page_at d b = Some p \<Longrightarrow> page_at (gm_dir m) b = Some p"
    and n: "gm_callocs m \<le> n"
    and w: "\<And>b. gm_sealed m \<Longrightarrow> page_at d b \<noteq> None \<Longrightarrow> region_with m (\<lambda>p. odd (p div 2)) b"
  shows "grows m (m\<lparr> gm_callocs := n, gm_wdir := d \<rparr>)"
proof -
  let ?m = "m\<lparr> gm_callocs := n, gm_wdir := d \<rparr>"
  have "vdso_ok ?m" using gm_wfD(2) [OF wf] by (simp add: vdso_ok_def)
  moreover have "p < n" if "page_at (gm_dir m) a = Some p" for a p
    using gm_wfD(3) [OF wf that] n by simp
  ultimately have "gm_wf ?m"
    unfolding gm_wf_def using gm_wfD(1,6,7) [OF wf] gm_wfD(3,4) [OF wf] d by auto
  moreover have "content ?m = content m" by (rule content_cong) simp_all
  moreover have "gm_acct ?m = gm_acct m" by (rule acct_cong) simp_all
  moreover have "gm_sealed ?m" if "gm_sealed m"
    using w [OF that] gm_sealedD(1,2,3) [OF that] by (simp add: gm_sealed_def region_with_def)
  ultimately show ?thesis by (simp add: grows_def)
qed

lemma warm_write_grows:
  assumes wf: "gm_wf m" and p: "page_at (gm_dir m) a = Some p"
    and i: "i < gm_nregions m" "rg_contains (gm_regions m i) a" "r = gm_regions m i"
  shows "grows m (warm_write a p r m) \<and> gm_faulted (warm_write a p r m) = gm_faulted m"
proof (cases "odd (rg_prot r div 2)")
  case False
  then show ?thesis using wf by (simp add: warm_write_def grows_refl)
next
  case w: True
  obtain n d where m1: "warm_write a p r m = m\<lparr> gm_callocs := n, gm_wdir := page_set a (Some p) d \<rparr>"
    "gm_callocs m \<le> n" "\<And>b. page_at d b = page_at (gm_wdir m) b"
  proof (cases "gm_wdir m (gm_l1 a)")
    case (Some t)
    then show thesis using w by (intro that [where n = "gm_callocs m" and d = "gm_wdir m"]) (simp_all add: warm_write_def)
  next
    case None
    then show thesis using w
      by (intro that [where n = "gm_callocs m + 1" and d = "(gm_wdir m)(gm_l1 a := fst (alloc_table m))"])
        (auto simp: warm_write_def alloc_table_def host_calloc_def page_at_def split: option.splits)
  qed
  have "page_at (gm_dir m) b = Some q" if "page_at (page_set a (Some p) d) b = Some q" for b q
    using that gm_wfD(5) [OF wf] p page_at_cong [of a b "gm_dir m"]
    by (auto simp: page_at_set m1(3) split: if_splits)
  moreover have "region_with m (\<lambda>p. odd (p div 2)) b"
    if sl: "gm_sealed m" and b: "page_at (page_set a (Some p) d) b \<noteq> None" for b
  proof (cases "pg a = pg b")
    case True
    then show ?thesis using i w rg_page [OF gm_sealedD(1) [OF sl i(1)] True i(2)] by (auto simp: region_with_def)
  next
    case False
    then show ?thesis using b gm_sealedD(4) [OF sl, of b] by (simp add: page_at_set m1(3))
  qed
  ultimately have "grows m (m\<lparr> gm_callocs := n, gm_wdir := page_set a (Some p) d \<rparr>)"
    by (intro wdir_grows [OF wf _ m1(2)])
  then show ?thesis by (simp add: m1(1))
qed

text \<open>
  What \<open>gm_page\<close> promises: it never loses a byte; on failure the fault flag is set, on success it is
  as before and the pointer reaches every byte of the page.
\<close>

definition points_to :: "guest_mem \<Rightarrow> gptr \<Rightarrow> u32 \<Rightarrow> bool" where
  "points_to m p a \<longleftrightarrow>
     (if in_vdso a m then p = Vdso (unat ((a - gm_vdso_vaddr m) AND NOT 0xFFF))
      else \<exists>k. p = Page k \<and> page_at (gm_dir m) a = Some k)"

lemma page_paged_cases:
  assumes "page_paged a w m = (r, m1)" and wf: "gm_wf m"
  obtains (page) k where "r = Some (Page k)" "grows m m1" "page_at (gm_dir m1) a = Some k"
      "gm_faulted m1 = gm_faulted m"
    | (stop) "r = None" "grows m m1" "gm_faulted m1"
proof (cases "page_at (if w then gm_wdir m else gm_dir m) a")
  case (Some k)
  then have "page_at (gm_dir m) a = Some k" using gm_wfD(5) [OF wf, of a k] by (auto split: if_splits)
  then show thesis using assms(1) Some grows_refl [OF wf] by (intro page [of k]) (auto simp: page_paged_def)
next
  case None
  obtain q m2 where cr: "check_region a w m = (q, m2)" by (cases "check_region a w m")
  from cr wf show thesis
  proof (cases rule: check_region_cases)
    case stop
    then show thesis using that(2) assms(1) None cr by (simp add: page_paged_def)
  next
    case (pass i)
    have g2: "grows m m2" using last_grows [OF wf pass(2)] pass(5) by simp
    have f2: "gm_faulted m2 = gm_faulted m" by (simp add: pass(5))
    obtain s m3 where cp: "commit_page a w m2 = (s, m3)" by (cases "commit_page a w m2")
    have "region_with m2 (\<lambda>p. p \<noteq> 0) a"
      using pass by (auto simp: region_with_def permits_def)
    with cp grows_wf [OF g2] show thesis
    proof (cases rule: commit_page_cases)
      case stop
      then show thesis using that(2) grows_trans [OF g2] assms(1) None cr pass(1) cp
        by (simp add: page_paged_def)
    next
      case (page k)
      have "m1 = warm_write a k (gm_regions m i) m3" "r = Some (Page k)"
        using assms(1) None cr pass(1) cp page(1) by (auto simp: page_paged_def)
      moreover have "i < gm_nregions m3" "rg_contains (gm_regions m3 i) a" "gm_regions m i = gm_regions m3 i"
        using page(2) pass by (simp_all add: grows_def)
      note warm = warm_write_grows [OF grows_wf [OF page(2)] page(3) this]
      ultimately show thesis using warm
          page g2 f2 grows_trans by (intro that(1) [of k]) (auto simp: grows_def)
    qed
  qed
qed

lemma unat_u32: "unat (w :: u32) < 4294967296"
  using unsigned_less [of w, where 'a = nat] by simp

lemma and_not_mask_shift: "(w :: 'a :: len word) AND NOT (mask n) = push_bit n (drop_bit n w)"
  by (rule bit_word_eqI) (auto simp: bit_simps)

lemma unat_and_not_mask: "unat ((w :: u32) AND NOT 0xFFF) = unat w div 4096 * 4096"
proof -
  have "w AND NOT 0xFFF = push_bit 12 (drop_bit 12 w)"
    using and_not_mask_shift [of w 12] by (simp add: mask_eq_exp_minus_1)
  moreover have "unat w div 4096 * 4096 < 2 ^ 32"
    using unat_u32 [of w] div_times_less_eq_dividend [of "unat w" 4096] by simp
  ultimately show ?thesis
    using unat_mult_lem [of "w div 4096" "4096 :: u32"]
    by (simp add: push_bit_eq_mult drop_bit_eq_div unat_div)
qed

lemma in_vdso_nat:
  assumes "gm_vdso m = Some bs" "vdso_ok m"
  shows "in_vdso a m \<longleftrightarrow> unat (gm_vdso_vaddr m) \<le> unat a \<and> unat a < unat (gm_vdso_vaddr m) + unat (gm_vdso_size m)"
    "in_vdso a m \<Longrightarrow> unat (a - gm_vdso_vaddr m) = unat a - unat (gm_vdso_vaddr m)"
  using assms by (auto simp: in_vdso_def word_le_nat_alt word_less_nat_alt unat_sub)


lemma vdso_page:
  assumes "gm_vdso m = Some bs" "vdso_ok m" "pg a = pg b" "in_vdso a m"
  shows "in_vdso b m"
    "unat ((a - gm_vdso_vaddr m) AND NOT 0xFFF) + gm_off b = unat (b - gm_vdso_vaddr m)"
    "unat (b - gm_vdso_vaddr m) < length bs"
proof -
  let ?v = "unat (gm_vdso_vaddr m)" and ?s = "unat (gm_vdso_size m)"
  have al: "?v mod 4096 = 0" "?s mod 4096 = 0" "length bs = ?s"
    using assms(1,2) by (auto simp: vdso_ok_def)
  obtain k where v: "?v = 4096 * k" using al(1) by auto
  obtain l where s: "?s = 4096 * l" using al(2) by auto
  have p: "unat a div 4096 = unat b div 4096" using assms(3) by (simp add: pg_def)
  have a: "?v \<le> unat a" "unat a < ?v + ?s" using assms(4) in_vdso_nat(1) [OF assms(1,2), of a] by auto
  have "k \<le> unat a div 4096" "unat a div 4096 < k + l" using a unfolding v s
    by (simp_all add: less_eq_div_iff_mult_less_eq div_less_iff_less_mult algebra_simps)
  then have "k \<le> unat b div 4096" "unat b div 4096 < k + l" using p by simp_all
  then have b: "?v \<le> unat b" "unat b < ?v + ?s" unfolding v s
    by (simp_all add: less_eq_div_iff_mult_less_eq div_less_iff_less_mult algebra_simps)
  then show ib: "in_vdso b m" using in_vdso_nat(1) [OF assms(1,2), of b] by simp
  have "unat a - 4096 * k = 4096 * (unat a div 4096 - k) + unat a mod 4096"
    using a(1) mult_div_mod_eq [of 4096 "unat a"] unfolding v by (simp add: diff_mult_distrib2)
  then have da: "(unat a - 4096 * k) div 4096 = unat b div 4096 - k"
    using p by simp
  have db: "unat b - 4096 * k = 4096 * (unat b div 4096 - k) + unat b mod 4096"
    using b(1) mult_div_mod_eq [of 4096 "unat b"] unfolding v by (simp add: diff_mult_distrib2)
  show "unat ((a - gm_vdso_vaddr m) AND NOT 0xFFF) + gm_off b = unat (b - gm_vdso_vaddr m)"
    using in_vdso_nat(2) [OF assms(1,2,4)] in_vdso_nat(2) [OF assms(1,2) ib] da db
    by (simp add: unat_and_not_mask [simplified] gm_off_mod v mult.commute)
  show "unat (b - gm_vdso_vaddr m) < length bs"
    using in_vdso_nat(2) [OF assms(1,2) ib] b al(3) by simp
qed

lemma gm_page_cases:
  assumes "gm_page a w m = (r, m1)" and wf: "gm_wf m"
  obtains (page) p where "r = Some p" "grows m m1" "points_to m1 p a" "gm_faulted m1 = gm_faulted m"
    | (stop) "r = None" "grows m m1" "gm_faulted m1"
proof (cases "in_vdso a m")
  case True
  show thesis
  proof (cases "w \<and> \<not> gm_loading m")
    case t: True
    then show thesis using assms gm_wfD(1) [OF wf] True fault_grows [OF wf] stop by (auto simp: gm_page_def)
  next
    case False
    then show thesis using assms gm_wfD(1) [OF wf] True
      by (intro page) (auto simp: gm_page_def points_to_def grows_refl)
  qed
next
  case False
  then have "page_paged a w m = (r, m1)" using assms gm_wfD(1) [OF wf] by (simp add: gm_page_def)
  from this wf show thesis
  proof (cases rule: page_paged_cases)
    case (page k)
    have "\<not> in_vdso a m1" using False page(2) by (simp add: in_vdso_def grows_def)
    then show thesis using page by (intro that(1)) (auto simp: points_to_def)
  qed (rule stop)
qed

lemma points_to_get:
  assumes wf: "gm_wf m" and p: "points_to m p a" and b: "pg a = pg b"
  shows "ptr_get m p (gm_off b) = Some (content m b)"
proof (cases "in_vdso a m")
  case True
  then obtain bs where bs: "gm_vdso m = Some bs" by (auto simp: in_vdso_def)
  show ?thesis
    using p True vdso_page [OF bs gm_wfD(2) [OF wf] b True]
    by (simp add: points_to_def ptr_get_def bs content_def)
next
  case False
  then obtain k where k: "p = Page k" "page_at (gm_dir m) a = Some k" using p by (auto simp: points_to_def)
  then have kb: "page_at (gm_dir m) b = Some k" using page_at_cong [OF b] by simp
  have "\<not> in_vdso b m"
    using False vdso_page(1) [OF _ gm_wfD(2) [OF wf] b [symmetric]] by (auto simp: in_vdso_def)
  moreover obtain f where "gm_heap m k = Some f" using gm_wfD(3) [OF wf kb] by auto
  ultimately show ?thesis by (simp add: ptr_get_def k content_def kb)
qed

lemma points_to_put:
  assumes wf: "gm_wf m" and p: "points_to m p a" and b: "pg a = pg b"
  obtains m' where "ptr_put p (gm_off b) v m = Some m'" "gm_wf m'" "content m' = (content m)(b := v)"
    "points_to m' p a" "\<exists>h d. m' = m\<lparr> gm_heap := h, gm_vdso := d \<rparr>" "gm_vdso m' = None \<longleftrightarrow> gm_vdso m = None"
proof (cases "in_vdso a m")
  case True
  then obtain bs where bs: "gm_vdso m = Some bs" by (auto simp: in_vdso_def)
  note vp = vdso_page [OF bs gm_wfD(2) [OF wf] b True]
  define m' where "m' = m\<lparr> gm_vdso := Some (bs[unat (b - gm_vdso_vaddr m) := v]) \<rparr>"
  have iv: "in_vdso c m' = in_vdso c m" for c by (simp add: in_vdso_def m'_def bs)
  have "ptr_put p (gm_off b) v m = Some m'"
    using p True vp by (simp add: points_to_def ptr_put_def bs m'_def)
  moreover have "gm_wf m'"
    using wf gm_wfD(2) [OF wf] by (simp add: gm_wf_def m'_def vdso_ok_def bs)
  moreover have "content m' = (content m)(b := v)"
  proof
    fix c
    show "content m' c = ((content m)(b := v)) c"
    proof (cases "in_vdso c m")
      case c: True
      have "unat (c - gm_vdso_vaddr m) = unat (b - gm_vdso_vaddr m) \<longleftrightarrow> c = b"
        by (simp add: word_unat_eq_iff [symmetric])
      then show ?thesis using c vp vdso_page(3) [OF bs gm_wfD(2) [OF wf] refl c]
        by (auto simp: content_def iv) (auto simp: m'_def bs nth_list_update)
    next
      case False
      then show ?thesis using vp by (auto simp: content_def iv) (auto simp: m'_def)
    qed
  qed
  moreover have "points_to m' p a" using p True by (simp add: points_to_def iv) (simp add: m'_def)
  moreover have "\<exists>h d. m' = m\<lparr> gm_heap := h, gm_vdso := d \<rparr>"
    by (rule exI [of _ "gm_heap m"], rule exI [of _ "gm_vdso m'"]) (simp add: m'_def)
  moreover have "gm_vdso m' = None \<longleftrightarrow> gm_vdso m = None" by (simp add: m'_def bs)
  ultimately show thesis by (rule that)
next
  case False
  then obtain k where k: "p = Page k" "page_at (gm_dir m) a = Some k" using p by (auto simp: points_to_def)
  then have kb: "page_at (gm_dir m) b = Some k" using page_at_cong [OF b] by simp
  have nb: "\<not> in_vdso b m"
    using False vdso_page(1) [OF _ gm_wfD(2) [OF wf] b [symmetric]] by (auto simp: in_vdso_def)
  obtain f where f: "gm_heap m k = Some f" using gm_wfD(3) [OF wf kb] by auto
  define m' where "m' = m\<lparr> gm_heap := (gm_heap m)(k := Some (f(gm_off b := v))) \<rparr>"
  have iv: "in_vdso c m' = in_vdso c m" for c by (simp add: in_vdso_def m'_def)
  have "ptr_put p (gm_off b) v m = Some m'" by (simp add: k ptr_put_def f m'_def)
  moreover have "gm_wf m'"
    using wf by (simp add: gm_wf_def m'_def vdso_ok_def)
  moreover have "content m' = (content m)(b := v)"
  proof
    fix c
    show "content m' c = ((content m)(b := v)) c"
    proof (cases "in_vdso c m \<or> page_at (gm_dir m) c \<noteq> Some k")
      case True
      then show ?thesis using nb kb by (auto simp: content_def iv) (auto simp: m'_def split: option.splits)
    next
      case c: False
      then have "pg c = pg b" using gm_wfD(4) [OF wf kb, of c] by fastforce
      then have "gm_off c = gm_off b \<longleftrightarrow> c = b" using page_off_inj by auto
      then show ?thesis using c by (auto simp: content_def iv f) (auto simp: m'_def)
    qed
  qed
  moreover have "points_to m' p a" using p by (simp add: points_to_def iv) (simp add: m'_def)
  moreover have "\<exists>h d. m' = m\<lparr> gm_heap := h, gm_vdso := d \<rparr>"
    by (rule exI [of _ "gm_heap m'"], rule exI [of _ "gm_vdso m"]) (simp add: m'_def)
  moreover have "gm_vdso m' = None \<longleftrightarrow> gm_vdso m = None" by (simp add: m'_def)
  ultimately show thesis by (rule that)
qed

unbundle bit_operations_syntax

subsection \<open>Access\<close>

text \<open>An address whose page is there: reading it changes nothing.\<close>

definition present :: "guest_mem \<Rightarrow> u32 \<Rightarrow> bool" where
  "present m a \<longleftrightarrow> in_vdso a m \<or> page_at (gm_dir m) a \<noteq> None"

text \<open>Every access keeps the memory well-formed, its regions, and the pages that are there.\<close>

definition evolves :: "guest_mem \<Rightarrow> guest_mem \<Rightarrow> bool" where
  "evolves m m' \<longleftrightarrow>
     gm_wf m' \<and> (\<forall>a. present m a \<longrightarrow> present m' a) \<and> gm_regions m' = gm_regions m \<and>
     gm_nregions m' = gm_nregions m \<and> gm_loading m' = gm_loading m \<and> gm_limit m' = gm_limit m \<and>
     gm_mmap_next m' = gm_mmap_next m \<and> (gm_faulted m \<longrightarrow> gm_faulted m') \<and>
     (gm_acct m \<longrightarrow> gm_acct m') \<and> (gm_sealed m \<longrightarrow> gm_sealed m')"

lemma evolves_refl: "gm_wf m \<Longrightarrow> evolves m m"
  by (simp add: evolves_def)

lemma evolves_trans: "evolves m m1 \<Longrightarrow> evolves m1 m2 \<Longrightarrow> evolves m m2"
  by (simp add: evolves_def)

lemma evolves_wf: "evolves m m' \<Longrightarrow> gm_wf m'"
  by (simp add: evolves_def)

lemma evolves_present: "evolves m m' \<Longrightarrow> present m a \<Longrightarrow> present m' a"
  by (simp add: evolves_def)

lemma grows_evolves: "grows m m' \<Longrightarrow> evolves m m'"
  by (auto simp: grows_def evolves_def present_def in_vdso_def)

lemma points_to_present:
  assumes p: "points_to m p a" and b: "pg a = pg b" and wf: "gm_wf m"
  shows "present m b"
proof (cases "in_vdso a m")
  case True
  then obtain bs where "gm_vdso m = Some bs" by (auto simp: in_vdso_def)
  from vdso_page(1) [OF this gm_wfD(2) [OF wf] b True] show ?thesis by (simp add: present_def)
next
  case False
  then obtain k where "page_at (gm_dir m) a = Some k" using p by (auto simp: points_to_def)
  then show ?thesis using page_at_cong [OF b, of "gm_dir m"] by (simp add: present_def)
qed

lemma present_page:
  assumes "gm_wf m" "present m a"
  obtains p where "gm_page a False m = (Some p, m)" "points_to m p a"
proof (cases "in_vdso a m")
  case True
  then show thesis using gm_wfD(1) [OF assms(1)] by (intro that) (auto simp: gm_page_def points_to_def)
next
  case False
  then obtain k where "page_at (gm_dir m) a = Some k" using assms(2) by (auto simp: present_def)
  then show thesis using gm_wfD(1) [OF assms(1)] False
    by (intro that) (auto simp: gm_page_def points_to_def page_paged_def)
qed

lemma page_step:
  assumes "gm_off a + i < 4096"
  shows "pg (a + of_nat i) = pg a" "gm_off (a + of_nat i) = gm_off a + i"
proof -
  have split: "unat a = 4096 * pg a + gm_off a" by (simp add: pg_def gm_off_mod)
  have "pg a < 1048576" using unat_u32 [of a] unfolding pg_def by (simp add: div_less_iff_less_mult)
  then have "unat a + i < 2 ^ 32" using assms split by simp
  moreover have i: "unat (of_nat i :: u32) = i" using assms by (simp add: unat_of_nat take_bit_nat_eq_self)
  ultimately have "unat (a + of_nat i) = unat a + i" using unat_add_lem [of a "of_nat i"] by simp
  then have "unat (a + of_nat i) = 4096 * pg a + (gm_off a + i)" using split by simp
  moreover have "pg (a + of_nat i) = unat (a + of_nat i) div 4096"
    "gm_off (a + of_nat i) = unat (a + of_nat i) mod 4096" by (simp_all add: pg_def gm_off_mod)
  ultimately show "pg (a + of_nat i) = pg a" "gm_off (a + of_nat i) = gm_off a + i"
    using assms by simp_all
qed

lemma read8_cases:
  assumes wf: "gm_wf m"
  obtains (ok) m1 where "gm_read8 a m = Some (content m a, m1)" "grows m m1" "present m1 a"
      "gm_faulted m1 = gm_faulted m"
    | (stop) m1 where "gm_read8 a m = Some (0, m1)" "grows m m1" "gm_faulted m1"
proof -
  obtain r m1 where gp: "gm_page a False m = (r, m1)" by (cases "gm_page a False m")
  from gp wf show thesis
  proof (cases rule: gm_page_cases)
    case (page p)
    have "ptr_get m1 p (gm_off a) = Some (content m1 a)"
      by (rule points_to_get [OF grows_wf [OF page(2)] page(3) refl])
    then show thesis using gp page points_to_present [OF page(3) refl grows_wf [OF page(2)]]
      by (intro ok [of m1]) (auto simp: gm_read8_def grows_def)
  next
    case stop
    then show thesis using gp that(2) by (simp add: gm_read8_def)
  qed
qed

lemma put_evolves:
  assumes "gm_wf m" "gm_wf m'" "\<exists>h d. m' = m\<lparr> gm_heap := h, gm_vdso := d \<rparr>" "gm_vdso m' = None \<longleftrightarrow> gm_vdso m = None"
  shows "evolves m m' \<and> gm_faulted m' = gm_faulted m"
proof -
  obtain h d where m': "m' = m\<lparr> gm_heap := h, gm_vdso := d \<rparr>" using assms(3) by blast
  have "in_vdso a m' = in_vdso a m" for a using assms(4) by (simp add: in_vdso_def m')
  then have "present m' a = present m a" for a by (simp add: present_def m')
  moreover have "gm_acct m' = gm_acct m" by (rule acct_cong) (simp_all add: m')
  moreover have "gm_sealed m' = gm_sealed m" by (rule sealed_cong) (simp_all add: m')
  ultimately show ?thesis using assms(2) by (simp add: evolves_def) (simp add: m')
qed

lemma write8_cases:
  assumes wf: "gm_wf m"
  obtains (ok) m1 where "gm_write8 a v m = Some m1" "evolves m m1" "content m1 = (content m)(a := v)"
      "present m1 a" "gm_faulted m1 = gm_faulted m"
    | (stop) m1 where "gm_write8 a v m = Some m1" "evolves m m1" "content m1 = content m" "gm_faulted m1"
proof -
  obtain r m1 where gp: "gm_page a True m = (r, m1)" by (cases "gm_page a True m")
  from gp wf show thesis
  proof (cases rule: gm_page_cases)
    case (page p)
    note w1 = grows_wf [OF page(2)]
    from w1 page(3) refl obtain m2 where m2: "ptr_put p (gm_off a) v m1 = Some m2" "gm_wf m2"
      "content m2 = (content m1)(a := v)" "points_to m2 p a"
      "\<exists>h d. m2 = m1\<lparr> gm_heap := h, gm_vdso := d \<rparr>" "gm_vdso m2 = None \<longleftrightarrow> gm_vdso m1 = None"
      by (rule points_to_put)
    have "evolves m1 m2 \<and> gm_faulted m2 = gm_faulted m1"
      by (rule put_evolves [OF w1 m2(2,5,6)])
    then have "evolves m m2" "gm_faulted m2 = gm_faulted m"
      using evolves_trans [OF grows_evolves [OF page(2)]] page(4) by blast+
    moreover have "content m2 = (content m)(a := v)" using m2(3) page(2) by (simp add: grows_def)
    moreover have "gm_write8 a v m = Some m2" using gp page(1) m2(1) by (simp add: gm_write8_def)
    moreover have "present m2 a" by (rule points_to_present [OF m2(4) refl m2(2)])
    ultimately show thesis by (intro ok)
  next
    case stop
    have "content m1 = content m" using stop(2) by (simp add: grows_def)
    then show thesis using gp stop that(2) grows_evolves [OF stop(2)] by (simp add: gm_write8_def)
  qed
qed

unbundle bit_operations_syntax

subsection \<open>Sized access and the flat byte array\<close>

text \<open>The reference: a run of bytes stored in, or read from, a flat array, wrapping at \<open>2\<^sup>3\<^sup>2\<close>.\<close>

fun put_bytes :: "u32 \<Rightarrow> u8 list \<Rightarrow> (u32 \<Rightarrow> u8) \<Rightarrow> (u32 \<Rightarrow> u8)" where
  "put_bytes a [] c = c"
| "put_bytes a (v # vs) c = put_bytes (a + 1) vs (c(a := v))"

fun get_bytes :: "u32 \<Rightarrow> nat \<Rightarrow> (u32 \<Rightarrow> u8) \<Rightarrow> u8 list" where
  "get_bytes a 0 c = []"
| "get_bytes a (Suc n) c = c a # get_bytes (a + 1) n c"

definition present_run :: "guest_mem \<Rightarrow> u32 \<Rightarrow> nat \<Rightarrow> bool" where
  "present_run m a n \<longleftrightarrow> (\<forall>i<n. present m (a + of_nat i))"

lemma present_run_Suc: "present_run m a (Suc n) \<longleftrightarrow> present m a \<and> present_run m (a + 1) n"
proof -
  have "(\<forall>i<Suc n. present m (a + of_nat i)) \<longleftrightarrow> present m a \<and> (\<forall>i<n. present m (a + of_nat (Suc i)))"
    by (auto simp: less_Suc_eq_0_disj simp del: of_nat_Suc)
  then show ?thesis by (simp add: present_run_def add.assoc)
qed

lemma present_run_mono: "present_run m a n \<Longrightarrow> evolves m m' \<Longrightarrow> present_run m' a n"
  by (auto simp: present_run_def intro: evolves_present)

lemma ptr_gets_run:
  assumes wf: "gm_wf m" and p: "points_to m p a"
  shows "pg b = pg a \<Longrightarrow> gm_off b + n \<le> 4096 \<Longrightarrow> ptr_gets m p (gm_off b) n = Some (get_bytes b n (content m))"
proof (induction n arbitrary: b)
  case (Suc n)
  have g: "ptr_get m p (gm_off b) = Some (content m b)"
    by (rule points_to_get [OF wf p]) (simp add: Suc.prems(1))
  show ?case
  proof (cases n)
    case 0
    then show ?thesis by (simp add: g)
  next
    case (Suc k)
    have st: "pg (b + 1) = pg b" "gm_off (b + 1) = gm_off b + 1"
      using page_step [of b 1] Suc Suc.prems(2) by simp_all
    have "ptr_gets m p (gm_off (b + 1)) n = Some (get_bytes (b + 1) n (content m))"
      using st Suc.prems by (intro Suc.IH) simp_all
    then show ?thesis by (simp add: g st)
  qed
qed simp

lemma ptr_puts_run:
  "gm_wf m \<Longrightarrow> points_to m p a \<Longrightarrow> pg b = pg a \<Longrightarrow> gm_off b + length vs \<le> 4096 \<Longrightarrow>
   \<exists>m'. ptr_puts p (gm_off b) vs m = Some m' \<and> evolves m m' \<and> points_to m' p a \<and>
     content m' = put_bytes b vs (content m) \<and> gm_faulted m' = gm_faulted m"
proof (induction vs arbitrary: b m)
  case Nil
  then show ?case using evolves_refl [of m] by simp
next
  case (Cons v vs)
  have ab: "pg a = pg b" using Cons.prems by simp
  from Cons.prems(1,2) ab obtain m1 where m1: "ptr_put p (gm_off b) v m = Some m1" "gm_wf m1"
      "content m1 = (content m)(b := v)" "points_to m1 p a"
      "\<exists>h d. m1 = m\<lparr> gm_heap := h, gm_vdso := d \<rparr>" "gm_vdso m1 = None \<longleftrightarrow> gm_vdso m = None"
    by (rule points_to_put)
  have ev: "evolves m m1 \<and> gm_faulted m1 = gm_faulted m"
    by (rule put_evolves [OF Cons.prems(1) m1(2,5,6)])
  show ?case
  proof (cases vs)
    case Nil
    then show ?thesis using m1(1,3,4) ev by (simp add: fun_upd_def)
  next
    case (Cons v' vs')
    have st: "pg (b + 1) = pg b" "gm_off (b + 1) = gm_off b + 1"
      using page_step [of b 1] Cons Cons.prems by simp_all
    then obtain m2 where "ptr_puts p (gm_off (b + 1)) vs m1 = Some m2" "evolves m1 m2" "points_to m2 p a"
      "content m2 = put_bytes (b + 1) vs (content m1)" "gm_faulted m2 = gm_faulted m1"
      using Cons.IH [OF m1(2,4), of "b + 1"] Cons.prems(3,4) by auto
    then show ?thesis
      using m1(1,3) ev evolves_trans [of m m1 m2] st by (simp add: fun_upd_def)
  qed
qed

lemma read_out_present:
  "gm_wf m \<Longrightarrow> present_run m a n \<Longrightarrow> gm_read_out a n m = Some (get_bytes a n (content m), m)"
proof (induction n arbitrary: a)
  case (Suc n)
  have p: "present m a" and r: "present_run m (a + 1) n" using Suc.prems(2) by (simp_all add: present_run_Suc)
  from Suc.prems(1) p obtain q where q: "gm_page a False m = (Some q, m)" "points_to m q a" by (rule present_page)
  have "gm_read8 a m = Some (content m a, m)"
    using q(1) points_to_get [OF Suc.prems(1) q(2) refl] by (simp add: gm_read8_def)
  then show ?case using Suc.IH [OF Suc.prems(1) r] by simp
qed simp

lemma write_run:
  "gm_wf m \<Longrightarrow> \<exists>m'. gm_write a vs m = Some m' \<and> evolves m m' \<and>
     (gm_faulted m' \<or> content m' = put_bytes a vs (content m) \<and> present_run m' a (length vs))"
proof (induction vs arbitrary: a m)
  case Nil
  then show ?case using evolves_refl [of m] by (simp add: present_run_def)
next
  case (Cons v vs)
  from Cons.prems show ?case
  proof (cases rule: write8_cases [where a = a and v = v])
    case (ok m1)
    obtain m2 where m2: "gm_write (a + 1) vs m1 = Some m2" "evolves m1 m2"
      "gm_faulted m2 \<or> content m2 = put_bytes (a + 1) vs (content m1) \<and> present_run m2 (a + 1) (length vs)"
      using Cons.IH [OF evolves_wf [OF ok(2)], of "a + 1"] by blast
    have "present m2 a" by (rule evolves_present [OF m2(2) ok(4)])
    moreover have "evolves m m2" by (rule evolves_trans [OF ok(2) m2(2)])
    ultimately show ?thesis using ok(1,3) m2(1,3) by (auto simp: present_run_Suc fun_upd_def)
  next
    case (stop m1)
    obtain m2 where m2: "gm_write (a + 1) vs m1 = Some m2" "evolves m1 m2"
      using Cons.IH [OF evolves_wf [OF stop(2)], of "a + 1"] by blast
    then show ?thesis
      using stop evolves_trans [OF stop(2) m2(2)] by (auto simp: evolves_def)
  qed
qed

unbundle bit_operations_syntax

lemma length_bytes_of_word: "sz \<in> {1, 2, 4} \<Longrightarrow> length (bytes_of_word sz be v) = sz"
  by (auto simp: bytes_of_word_def)

lemma load_present:
  assumes wf: "gm_wf m" and pr: "present_run m a sz" and sz: "0 < sz"
  shows "gm_load a sz be m = Some (word_of_bytes be (get_bytes a sz (content m)), m)"
proof (cases "gm_off a + sz \<le> 4096")
  case True
  have "present m a" using pr sz by (auto simp: present_run_def dest: spec [of _ 0])
  with wf obtain p where p: "gm_page a False m = (Some p, m)" "points_to m p a" by (rule present_page)
  show ?thesis using True p ptr_gets_run [OF wf p(2) refl True] by (simp add: gm_load_def)
next
  case False
  then show ?thesis using read_out_present [OF wf pr] by (simp add: gm_load_def)
qed

lemma store_run:
  assumes wf: "gm_wf m" and sz: "sz \<in> {1, 2, 4}"
  shows "\<exists>m'. gm_store a sz be v m = Some m' \<and> evolves m m' \<and>
     (gm_faulted m' \<or> content m' = put_bytes a (bytes_of_word sz be v) (content m) \<and> present_run m' a sz)"
proof (cases "gm_off a + sz \<le> 4096")
  case True
  let ?b = "bytes_of_word sz be v"
  obtain r m1 where gp: "gm_page a True m = (r, m1)" by (cases "gm_page a True m")
  from gp wf show ?thesis
  proof (cases rule: gm_page_cases)
    case (page p)
    have "gm_off a + length ?b \<le> 4096" using True sz by (simp add: length_bytes_of_word)
    from ptr_puts_run [OF grows_wf [OF page(2)] page(3) refl this] obtain m2 where
      m2: "ptr_puts p (gm_off a) ?b m1 = Some m2" "evolves m1 m2" "points_to m2 p a"
        "content m2 = put_bytes a ?b (content m1)" by blast
    have "present m2 (a + of_nat i)" if "i < sz" for i
    proof (rule points_to_present [OF m2(3) _ evolves_wf [OF m2(2)]])
      show "pg a = pg (a + of_nat i)" using page_step(1) [of a i] that True by simp
    qed
    then have "present_run m2 a sz" by (simp add: present_run_def)
    moreover have "evolves m m2" by (rule evolves_trans [OF grows_evolves [OF page(2)] m2(2)])
    moreover have "content m2 = put_bytes a ?b (content m)" using m2(4) page(2) by (simp add: grows_def)
    moreover have "gm_store a sz be v m = Some m2" using True gp page(1) m2(1) by (simp add: gm_store_def)
    ultimately show ?thesis by blast
  next
    case stop
    then show ?thesis using True gp grows_evolves [OF stop(2)] by (simp add: gm_store_def)
  qed
next
  case False
  then show ?thesis
    using write_run [OF wf, of a "bytes_of_word sz be v"] sz by (simp add: gm_store_def length_bytes_of_word)
qed

lemma put_bytes_at:
  "length vs \<le> 2 ^ 32 \<Longrightarrow>
   put_bytes a vs c b = (if unat (b - a) < length vs then vs ! unat (b - a) else c b)"
proof (induction vs arbitrary: a c)
  case (Cons v vs)
  show ?case
  proof (cases "b = a")
    case True
    have "unat (a - (a + 1)) = 2 ^ 32 - 1" by (simp add: unsigned_minus_1_eq_mask mask_eq_exp_minus_1)
    then show ?thesis using Cons True by simp
  next
    case False
    have "unat (b - a) = Suc (unat (b - (a + 1)))"
      using False unatSuc [of "b - (a + 1)"] by (simp add: algebra_simps)
    then show ?thesis using Cons False by simp
  qed
qed simp

lemma get_bytes_nth: "get_bytes a n c = map (\<lambda>i. c (a + of_nat i)) [0..<n]"
proof (induction n arbitrary: a)
  case (Suc n)
  have "[0..<Suc n] = 0 # map Suc [0..<n]" by (simp add: map_Suc_upt upt_conv_Cons del: upt_Suc)
  then show ?case using Suc.IH [of "a + 1"] by (simp add: add.assoc comp_def del: upt_Suc)
qed simp

lemma get_put_bytes: "length vs \<le> 2 ^ 32 - 1 \<Longrightarrow> get_bytes a (length vs) (put_bytes a vs c) = vs"
  by (rule nth_equalityI)
    (auto simp: get_bytes_nth put_bytes_at unat_of_nat take_bit_nat_eq_self)

lemma word_bytes_inverse:
  assumes "sz \<in> {1, 2, 4}"
  shows "word_of_bytes be (bytes_of_word sz be v) = take_bit (8 * sz) v"
proof -
  have "word_of_bytes be (bytes_of_word 1 be v) = take_bit 8 v"
    by (rule bit_word_eqI) (auto simp: word_of_bytes_def bytes_of_word_def bit_simps)
  moreover have "word_of_bytes be (bytes_of_word 2 be v) = take_bit 16 v"
    by (rule bit_word_eqI) (auto simp: word_of_bytes_def bytes_of_word_def bit_simps)
  moreover have "word_of_bytes be (bytes_of_word 4 be v) = take_bit 32 v"
  proof (rule bit_word_eqI)
    fix n assume "n < LENGTH(32)"
    then consider "n < 8" | "8 \<le> n" "n < 16" | "16 \<le> n" "n < 24" | "24 \<le> n" "n < 32" by fastforce
    then show "bit (word_of_bytes be (bytes_of_word 4 be v)) n = bit (take_bit 32 v) n"
      by cases (auto simp: word_of_bytes_def bytes_of_word_def bit_simps)
  qed
  ultimately show ?thesis using assms by auto
qed

unbundle bit_operations_syntax

subsection \<open>Unmapping\<close>

lemma unmap_page_fields:
  assumes "page_at (gm_dir m) a = Some p"
  shows "page_at (gm_dir (unmap_page a m)) b = (if pg a = pg b then None else page_at (gm_dir m) b)"
    "gm_heap (unmap_page a m) = (gm_heap m)(p := None)"
    "gm_wf m \<Longrightarrow> page_at (gm_wdir (unmap_page a m)) b = (if pg a = pg b then None else page_at (gm_wdir m) b)"
    "gm_regions (unmap_page a m) = gm_regions m" "gm_nregions (unmap_page a m) = gm_nregions m"
    "gm_last (unmap_page a m) = gm_last m" "gm_extern (unmap_page a m) = gm_extern m"
    "gm_vdso (unmap_page a m) = gm_vdso m" "gm_vdso_vaddr (unmap_page a m) = gm_vdso_vaddr m"
    "gm_vdso_size (unmap_page a m) = gm_vdso_size m" "gm_callocs (unmap_page a m) = gm_callocs m"
    "gm_limit (unmap_page a m) = gm_limit m" "gm_mmap_next (unmap_page a m) = gm_mmap_next m"
    "gm_committed (unmap_page a m) =
       (if gm_committed m \<ge> 4096 then gm_committed m - 4096 else gm_committed m)"
    "gm_faulted (unmap_page a m) = gm_faulted m" "gm_loading (unmap_page a m) = gm_loading m"
proof -
  show "page_at (gm_dir (unmap_page a m)) b = (if pg a = pg b then None else page_at (gm_dir m) b)"
    using assms page_at_table [OF assms] by (simp add: unmap_page_def page_at_set)
  show "page_at (gm_wdir (unmap_page a m)) b = (if pg a = pg b then None else page_at (gm_wdir m) b)" if "gm_wf m"
  proof (cases "gm_wdir m (gm_l1 a)")
    case None
    then have "page_at (gm_wdir m) b = None" if "pg a = pg b"
      using page_at_cong [OF that, of "gm_wdir m"] by (simp add: page_at_def)
    then show ?thesis using None assms by (simp add: unmap_page_def page_at_set)
  next
    case (Some t)
    then show ?thesis using assms by (simp add: unmap_page_def page_at_set)
  qed
qed (use assms in \<open>simp_all add: unmap_page_def\<close>)

text \<open>Unmapping frees pages and nothing else: what remains is unchanged and still well-formed.\<close>

definition shrinks :: "nat set \<Rightarrow> guest_mem \<Rightarrow> guest_mem \<Rightarrow> bool" where
  "shrinks ps m m' \<longleftrightarrow>
     gm_wf m' \<and> (gm_acct m \<longrightarrow> gm_acct m') \<and> (gm_sealed m \<longrightarrow> gm_sealed m') \<and>
     (\<forall>b. page_at (gm_dir m') b = (if pg b \<in> ps then None else page_at (gm_dir m) b)) \<and>
     (\<forall>b. content m' b = (if pg b \<in> ps \<and> \<not> in_vdso b m then 0 else content m b)) \<and>
     (\<forall>b. in_vdso b m' = in_vdso b m) \<and>
     gm_regions m' = gm_regions m \<and> gm_nregions m' = gm_nregions m \<and> gm_mmap_next m' = gm_mmap_next m \<and>
     gm_loading m' = gm_loading m \<and> gm_faulted m' = gm_faulted m \<and> gm_limit m' = gm_limit m"

lemma shrinks_trans: "shrinks ps m m1 \<Longrightarrow> shrinks qs m1 m2 \<Longrightarrow> shrinks (ps \<union> qs) m m2"
  by (auto simp: shrinks_def)

lemma unmap_page_shrinks:
  assumes wf: "gm_wf m"
  shows "shrinks {pg a} m (unmap_page a m)"
proof (cases "page_at (gm_dir m) a")
  case None
  then have none: "page_at (gm_dir m) b = None" if "pg b = pg a" for b
    using page_at_cong [OF that] by simp
  then have "content m b = 0" if "pg b = pg a" "\<not> in_vdso b m" for b using that by (simp add: content_def)
  moreover have "unmap_page a m = m" using None by (simp add: unmap_page_def)
  ultimately show ?thesis using wf none by (simp add: shrinks_def)
next
  case (Some p)
  note f = unmap_page_fields [OF Some] and fw = unmap_page_fields(3) [OF Some wf]
  let ?m = "unmap_page a m"
  have other: "page_at (gm_dir m) b \<noteq> Some p" if "pg a \<noteq> pg b" for b
    using gm_wfD(4) [OF wf Some that] .
  have iv: "in_vdso b ?m = in_vdso b m" for b by (simp add: in_vdso_def f)
  have c: "content ?m b = (if pg b \<in> {pg a} \<and> \<not> in_vdso b m then 0 else content m b)" for b
  proof (cases "in_vdso b m")
    case True
    then show ?thesis by (simp add: content_def iv f)
  next
    case False
    then show ?thesis using other [of b]
      by (cases "page_at (gm_dir m) b") (auto simp: content_def iv f(1,2))
  qed
  have wf': "gm_wf ?m" unfolding gm_wf_def
  proof (intro conjI allI impI)
    show "gm_extern ?m = None" using gm_wfD(1) [OF wf] by (simp add: f)
    show "vdso_ok ?m" using gm_wfD(2) [OF wf] by (simp add: vdso_ok_def f)
    show "gm_nregions ?m \<le> 256" using gm_wfD(6) [OF wf] by (simp add: f)
    show "i < gm_nregions ?m" if "gm_last ?m = Some i" for i
      using gm_wfD(7) [OF wf] that by (simp add: f)
    show "gm_heap ?m q \<noteq> None" if "page_at (gm_dir ?m) b = Some q" for b q
      using that gm_wfD(3) [OF wf, of b q] other [of b] by (auto simp: f(1,2) split: if_splits)
    show "q < gm_callocs ?m" if "page_at (gm_dir ?m) b = Some q" for b q
      using that gm_wfD(3) [OF wf, of b q] by (auto simp: f split: if_splits)
    show "page_at (gm_dir ?m) b' \<noteq> Some q" if "page_at (gm_dir ?m) b = Some q" "pg b \<noteq> pg b'" for b b' q
      using that gm_wfD(4) [OF wf, of b q b'] by (auto simp: f split: if_splits)
    show "page_at (gm_dir ?m) b = Some q" if "page_at (gm_wdir ?m) b = Some q" for b q
      using that gm_wfD(5) [OF wf, of b q] by (auto simp: f(1) fw split: if_splits)
  qed
  have ac: "gm_acct ?m" if ac: "gm_acct m"
  proof -
    have "pages ?m = {pg b | b. pg b \<noteq> pg a \<and> page_at (gm_dir m) b \<noteq> None}"
      unfolding pages_def f(1) by metis
    then have "pages ?m = pages m - {pg a}" by (auto simp: pages_def)
    moreover have pin: "pg a \<in> pages m" using Some by (auto simp: pages_def)
    ultimately have "card (pages ?m) = card (pages m) - 1" using finite_pages(1) [of m] by simp
    moreover have "card (pages m) \<noteq> 0" using pin finite_pages(1) [of m] by auto
    then have "gm_committed m \<ge> 4096" using ac by (simp add: gm_acct_def word_le_nat_alt)
    moreover from this have "unat (gm_committed m - 4096) = unat (gm_committed m) - 4096"
      by (simp add: unat_sub word_le_nat_alt)
    moreover have "gm_committed m - 4096 \<le> gm_limit m"
      using calculation ac unfolding gm_acct_def word_le_nat_alt by linarith
    ultimately show ?thesis using ac by (simp add: gm_acct_def f diff_mult_distrib2)
  qed
  have "gm_sealed ?m" if sl: "gm_sealed m"
    unfolding gm_sealed_def
    using gm_sealedD(1,2) [OF sl] gm_sealedD(3,4) [OF sl] by (simp add: f fw region_with_def)
  then show ?thesis using wf' ac c iv by (auto simp: shrinks_def f)
qed


lemma shrinks_refl: "gm_wf m \<Longrightarrow> shrinks {} m m"
  by (simp add: shrinks_def)

text \<open>\<open>n\<close> pages upwards from an address, inside the address space.\<close>

lemma next_page:
  assumes "unat a + 4096 < 2 ^ 32"
  shows "unat (a + GM_PAGE_SIZE) = unat a + 4096" "pg (a + GM_PAGE_SIZE) = pg a + 1"
proof -
  show u: "unat (a + GM_PAGE_SIZE) = unat a + 4096"
    using unat_add_lem [of a "GM_PAGE_SIZE"] assms by (simp add: GM_PAGE_SIZE_def)
  show "pg (a + GM_PAGE_SIZE) = pg a + 1" by (simp add: pg_def u)
qed

lemma unmap_pages_shrinks:
  "gm_wf m \<Longrightarrow> unat a + 4096 * n \<le> 2 ^ 32 \<Longrightarrow> shrinks {pg a..<pg a + n} m (unmap_pages n a m)"
proof (induction n arbitrary: a m)
  case 0
  then show ?case by (simp add: shrinks_refl)
next
  case (Suc n)
  have s1: "shrinks {pg a} m (unmap_page a m)" by (rule unmap_page_shrinks [OF Suc.prems(1)])
  then have w1: "gm_wf (unmap_page a m)" by (simp add: shrinks_def)
  show ?case
  proof (cases n)
    case 0
    then show ?thesis using s1 by simp
  next
    case (Suc k)
    have nx: "unat (a + GM_PAGE_SIZE) = unat a + 4096" "pg (a + GM_PAGE_SIZE) = pg a + 1"
      using next_page [of a] Suc Suc.prems(2) by simp_all
    have "shrinks {pg a + 1..<pg a + 1 + n} (unmap_page a m) (unmap_pages n (a + GM_PAGE_SIZE) (unmap_page a m))"
      using Suc.IH [OF w1, of "a + GM_PAGE_SIZE"] Suc.prems(2) by (simp add: nx)
    then have "shrinks ({pg a} \<union> {pg a + 1..<pg a + 1 + n}) m (unmap_pages (Suc n) a m)"
      using shrinks_trans [OF s1] by simp
    moreover have "{pg a} \<union> {pg a + 1..<pg a + 1 + n} = {pg a..<pg a + Suc n}" by auto
    ultimately show ?thesis by simp
  qed
qed

lemma find_region_SomeD:
  "find_region rs base sz is = Some i \<Longrightarrow> i \<in> set is \<and> rg_base (rs i) = base \<and> rg_size (rs i) = sz"
  by (induction "is") (auto split: if_splits)

lemma find_region_NoneD:
  "find_region rs base sz is = None \<Longrightarrow> i \<in> set is \<Longrightarrow> rg_base (rs i) \<noteq> base \<or> rg_size (rs i) \<noteq> sz"
  by (induction "is") (auto split: if_splits)

text \<open>The surviving entries keep their order; \<open>old_index\<close> is where an entry came from.\<close>

definition old_index :: "nat \<Rightarrow> nat \<Rightarrow> nat \<Rightarrow> nat" where
  "old_index lo n j = (if lo \<le> j then j + n else j)"

lemma drop_regions_nth:
  assumes "j < gm_nregions (drop_regions lo n m)" "lo + n \<le> gm_nregions m"
  shows "gm_regions (drop_regions lo n m) j = gm_regions m (old_index lo n j)"
    "old_index lo n j < gm_nregions m" "old_index lo n j \<notin> {lo..<lo + n}"
  using assms by (auto simp: drop_regions_def old_index_def)

lemma old_index_surj:
  assumes "i < gm_nregions m" "i \<notin> {lo..<lo + n}" "lo + n \<le> gm_nregions m"
  obtains j where "j < gm_nregions (drop_regions lo n m)" "old_index lo n j = i"
proof (cases "i < lo")
  case True
  then show thesis using assms by (intro that [of i]) (auto simp: drop_regions_def old_index_def)
next
  case False
  then show thesis using assms by (intro that [of "i - n"]) (auto simp: drop_regions_def old_index_def)
qed

lemma old_index_inj: "old_index lo n i = old_index lo n j \<Longrightarrow> i = j"
  by (auto simp: old_index_def split: if_splits)

text \<open>Dropping entries whose pages are gone, with the lookup cache reset.\<close>

lemma drop_sealed:
  assumes sl: "gm_sealed m" and le: "lo + n \<le> gm_nregions m"
    and gone: "\<And>i a. i \<in> {lo..<lo + n} \<Longrightarrow> rg_contains (gm_regions m i) a \<Longrightarrow>
      rg_prot (gm_regions m i) = 0 \<or> page_at (gm_dir m) a = None"
    and wf: "gm_wf m"
  shows "gm_sealed ((drop_regions lo n m)\<lparr> gm_last := None \<rparr>)"
proof -
  let ?m = "(drop_regions lo n m)\<lparr> gm_last := None \<rparr>"
  have keep: "region_with ?m P a"
    if rw: "region_with m P a" and pa: "page_at (gm_dir m) a \<noteq> None" and P: "\<And>p. P p \<Longrightarrow> p \<noteq> 0" for P a
  proof -
    obtain i where i: "i < gm_nregions m" "rg_contains (gm_regions m i) a" "P (rg_prot (gm_regions m i))"
      using rw by (auto simp: region_with_def)
    then have "i \<notin> {lo..<lo + n}" using gone [of i a] pa P [of "rg_prot (gm_regions m i)"] by auto
    from old_index_surj [OF i(1) this le] obtain j where
      "j < gm_nregions (drop_regions lo n m)" "old_index lo n j = i" .
    then show ?thesis using i drop_regions_nth(1) [OF _ le] by (auto simp: region_with_def)
  qed
  have "region_with ?m (\<lambda>p. p \<noteq> 0) a" if "page_at (gm_dir m) a \<noteq> None" for a
    using keep gm_sealedD(3) [OF sl that] that by blast
  moreover have "region_with ?m (\<lambda>p. odd (p div 2)) a" if w: "page_at (gm_wdir m) a \<noteq> None" for a
  proof -
    have "page_at (gm_dir m) a \<noteq> None" using w gm_wfD(5) [OF wf] by fastforce
    moreover have "p \<noteq> 0" if "odd (p div 2)" for p :: nat using that by (cases "p = 0") auto
    ultimately show ?thesis using keep [OF gm_sealedD(4) [OF sl w]] by blast
  qed
  moreover have "whole_pages (gm_regions ?m i)" if "i < gm_nregions ?m" for i
    using that drop_regions_nth [of i lo n m] le gm_sealedD(1) [OF sl] by simp
  moreover have "\<not> rg_contains (gm_regions ?m j) a"
    if "i < gm_nregions ?m" "j < gm_nregions ?m" "i \<noteq> j" "rg_contains (gm_regions ?m i) a" for i j a
    using that drop_regions_nth [of i lo n m] drop_regions_nth [of j lo n m] le
      gm_sealedD(2) [OF sl, of "old_index lo n i" "old_index lo n j" a] old_index_inj by auto
  moreover have "gm_dir ?m = gm_dir m" "gm_wdir ?m = gm_wdir m" by (simp_all add: drop_regions_def)
  ultimately show ?thesis unfolding gm_sealed_def by simp
qed


lemma unat_u64_of_u32: "unat (ucast (w :: u32) :: u64) = unat w"
  using unat_u32 [of w] by (simp add: unsigned_ucast_eq take_bit_nat_eq_self)

lemma ucast_u64_u32 [simp]: "ucast (ucast (w :: u32) :: u64) = w"
  by (rule bit_word_eqI) (simp add: bit_simps)

lemma ucast_down_add: "(ucast ((x :: u64) + y) :: u32) = ucast x + ucast y"
  by (simp add: word_unat_eq_iff unsigned_ucast_eq unat_word_ariths take_bit_eq_mod mod_simps mod_mod_cancel)

lemma round_page_nat:
  "unat (round_page sz) = (unat sz + 4095) mod 2 ^ 32 div 4096 * 4096"
proof -
  have "round_page sz = (sz + 4095) AND NOT 0xFFF" by (simp add: round_page_def GM_PAGE_SIZE_def add.commute)
  then have "unat (round_page sz) = unat (sz + 4095) div 4096 * 4096" using unat_and_not_mask by simp
  moreover have "unat (sz + 4095) = (unat sz + 4095) mod 2 ^ 32" by (simp add: unat_word_ariths)
  ultimately show ?thesis by simp
qed

lemma round_page_aligned: "unat (round_page sz) mod 4096 = 0"
  by (simp add: round_page_nat)

lemma drop_wf:
  assumes "gm_wf m"
  shows "gm_wf ((drop_regions lo n m)\<lparr> gm_last := None \<rparr>)"
    "content ((drop_regions lo n m)\<lparr> gm_last := None \<rparr>) = content m"
    "gm_acct ((drop_regions lo n m)\<lparr> gm_last := None \<rparr>) = gm_acct m"
proof -
  let ?m = "(drop_regions lo n m)\<lparr> gm_last := None \<rparr>"
  have v: "vdso_ok ?m" using gm_wfD(2) [OF assms] by (simp add: vdso_ok_def drop_regions_def)
  show "gm_wf ?m" unfolding gm_wf_def
  proof (intro conjI allI impI)
    show "gm_nregions ?m \<le> 256" using gm_wfD(6) [OF assms] by (simp add: drop_regions_def)
  qed (use gm_wfD(1) [OF assms] gm_wfD(3-5) [OF assms] v in \<open>simp_all add: drop_regions_def\<close>)
  show "content ?m = content m" by (rule content_cong) (simp_all add: drop_regions_def)
  show "gm_acct ?m = gm_acct m" by (rule acct_cong) (simp_all add: drop_regions_def)
qed

text \<open>The pages freed by \<open>gm_munmap\<close>, and that every invariant survives it.\<close>

lemma pg_in_range:
  assumes "unat base mod 4096 = 0" "unat base + unat sz \<le> 2 ^ 32" "unat (sz :: u32) mod 4096 = 0"
  shows "pg a \<in> {pg base..<pg base + unat (drop_bit 12 sz)} \<longleftrightarrow>
    unat base \<le> unat a \<and> unat a < unat base + unat sz"
proof -
  obtain k where k: "unat base = 4096 * k" using assms(1) by auto
  obtain l where l: "unat sz = 4096 * l" using assms(3) by auto
  have "unat (drop_bit 12 sz) = l" by (simp add: drop_bit_eq_div unat_div l)
  then show ?thesis unfolding pg_def k l
    by (simp add: less_eq_div_iff_mult_less_eq div_less_iff_less_mult algebra_simps)
qed

lemma munmap_pages:
  assumes wf: "gm_wf m" and b: "unat base + unat sz \<le> 2 ^ 32" and s: "unat (sz :: u32) mod 4096 = 0"
  shows "shrinks {pg base..<pg base + unat (drop_bit 12 sz)} m (unmap_pages (unat (drop_bit 12 sz)) base m)"
proof (rule unmap_pages_shrinks [OF wf])
  have "4096 * unat (drop_bit 12 sz) = unat sz"
    using s mult_div_mod_eq [of 4096 "unat sz"] by (simp add: drop_bit_eq_div unat_div)
  then show "unat base + 4096 * unat (drop_bit 12 sz) \<le> 2 ^ 32" using b by simp
qed

lemma sum_u64: "unat ((ucast (x :: u32) :: u64) + ucast (y :: u32)) = unat x + unat y"
  using unat_add_lem [of "ucast x :: u64" "ucast y"] unat_u32 [of x] unat_u32 [of y]
  by (simp add: unat_u64_of_u32)

text \<open>Which region entries go: the one with this base and size, and a guard just below it.\<close>

lemma munmap_regions:
  assumes wf: "gm_wf m" and sl: "gm_sealed m"
    and rg: "unat base + unat (round_page size0) \<le> 2 ^ 32" and sz0: "round_page size0 \<noteq> 0"
  defines "m1 \<equiv> unmap_pages (unat (drop_bit 12 (round_page size0))) base m"
  obtains lo n where "gm_munmap base size0 m = (drop_regions lo n m1)\<lparr> gm_last := None \<rparr>"
    "lo + n \<le> gm_nregions m1"
    "\<And>i a. i \<in> {lo..<lo + n} \<Longrightarrow> rg_contains (gm_regions m1 i) a \<Longrightarrow>
      rg_prot (gm_regions m1 i) = 0 \<or> page_at (gm_dir m1) a = None"
proof -
  let ?sz = "round_page size0"
  have al: "unat ?sz mod 4096 = 0" by (rule round_page_aligned)
  have sh: "shrinks {pg base..<pg base + unat (drop_bit 12 ?sz)} m m1"
    unfolding m1_def by (rule munmap_pages [OF wf rg al])
  then have s1: "gm_sealed m1" using sl by (simp add: shrinks_def)
  have nowrap: "\<not> (ucast base :: u64) + ucast ?sz > 0x100000000"
    using sum_u64 [of base ?sz] rg by (simp add: word_less_nat_alt)
  show thesis
  proof (cases "find_region (gm_regions m1) base ?sz [0..<gm_nregions m1]")
    case None
    have "drop_regions 0 0 m1 = m1" by (simp add: drop_regions_def cong: if_cong)
    then show thesis using None sz0 nowrap
      by (intro that [of 0 0]) (simp_all add: gm_munmap_def m1_def [symmetric])
  next
    case (Some i)
    have i: "i < gm_nregions m1" "rg_base (gm_regions m1 i) = base" "rg_size (gm_regions m1 i) = ?sz"
      using find_region_SomeD [OF Some] by auto
    have b: "unat base mod 4096 = 0" using gm_sealedD(1) [OF s1 i(1)] i(2) by (simp add: whole_pages_def)
    define lo where "lo = (if i > 0 \<and> rg_prot (gm_regions m1 (i - 1)) = 0 \<and>
        rg_base (gm_regions m1 (i - 1)) + rg_size (gm_regions m1 (i - 1)) = base then i - 1 else i)"
    have free: "page_at (gm_dir m1) a = None" if "rg_contains (gm_regions m1 i) a" for a
      using that rg_contains_nat [OF gm_sealedD(1) [OF s1 i(1)]] i sh pg_in_range [OF b rg al, of a]
      by (simp add: shrinks_def)
    have drop: "j = i \<or> rg_prot (gm_regions m1 j) = 0" if "j \<in> {lo..<lo + (i - lo + 1)}" for j
    proof (cases "j = i")
      case False
      then have "lo = i - 1" "i > 0" "j = i - 1" using that by (auto simp: lo_def split: if_splits)
      then show ?thesis by (auto simp: lo_def split: if_splits)
    qed simp
    show thesis
    proof (rule that [of lo "i - lo + 1"])
      show "gm_munmap base size0 m = (drop_regions lo (i - lo + 1) m1)\<lparr> gm_last := None \<rparr>"
        using Some sz0 nowrap by (simp add: gm_munmap_def m1_def [symmetric] lo_def Let_def)
      have "lo \<le> i" by (simp add: lo_def)
      then show "lo + (i - lo + 1) \<le> gm_nregions m1" using i(1) by simp
      show "rg_prot (gm_regions m1 j) = 0 \<or> page_at (gm_dir m1) a = None"
        if "j \<in> {lo..<lo + (i - lo + 1)}" "rg_contains (gm_regions m1 j) a" for j a
        using drop [OF that(1)] free [of a] that(2) by auto
    qed
  qed
qed

lemma munmap_trivial:
  "round_page size0 = 0 \<or> unat base + unat (round_page size0) > 2 ^ 32 \<Longrightarrow> gm_munmap base size0 m = m"
  using sum_u64 [of base "round_page size0"] by (auto simp: gm_munmap_def word_less_nat_alt Let_def)

lemma munmap_keeps:
  assumes wf: "gm_wf m" and sl: "gm_sealed m"
  shows "gm_wf (gm_munmap base size0 m)" "gm_sealed (gm_munmap base size0 m)"
    "gm_acct m \<Longrightarrow> gm_acct (gm_munmap base size0 m)"
    "\<forall>i<gm_nregions (gm_munmap base size0 m). \<exists>j<gm_nregions m. gm_regions (gm_munmap base size0 m) i = gm_regions m j"
    "gm_mmap_next (gm_munmap base size0 m) = gm_mmap_next m"
    "content (gm_munmap base size0 m) a = content m a \<or> content (gm_munmap base size0 m) a = 0"
proof -
  let ?sz = "round_page size0" and ?m' = "gm_munmap base size0 m"
  have "gm_wf ?m' \<and> gm_sealed ?m' \<and> (gm_acct m \<longrightarrow> gm_acct ?m') \<and>
    (\<forall>i<gm_nregions ?m'. \<exists>j<gm_nregions m. gm_regions ?m' i = gm_regions m j) \<and>
    gm_mmap_next ?m' = gm_mmap_next m \<and> (content ?m' a = content m a \<or> content ?m' a = 0)"
  proof (cases "?sz = 0 \<or> unat base + unat ?sz > 2 ^ 32")
    case True
    then show ?thesis using assms munmap_trivial [of size0 base m] by auto
  next
    case False
    then have rg: "unat base + unat ?sz \<le> 2 ^ 32" and sz0: "?sz \<noteq> 0" by auto
    define m1 where "m1 = unmap_pages (unat (drop_bit 12 ?sz)) base m"
    have sh: "shrinks {pg base..<pg base + unat (drop_bit 12 ?sz)} m m1"
      unfolding m1_def by (rule munmap_pages [OF wf rg round_page_aligned])
    have w1: "gm_wf m1" and s1: "gm_sealed m1" using sh sl by (simp_all add: shrinks_def)
    obtain lo n where m2: "?m' = (drop_regions lo n m1)\<lparr> gm_last := None \<rparr>" "lo + n \<le> gm_nregions m1"
      "\<And>i a. i \<in> {lo..<lo + n} \<Longrightarrow> rg_contains (gm_regions m1 i) a \<Longrightarrow>
        rg_prot (gm_regions m1 i) = 0 \<or> page_at (gm_dir m1) a = None"
      using munmap_regions [OF wf sl rg sz0] unfolding m1_def by blast
    have "gm_sealed ?m'" unfolding m2(1) by (rule drop_sealed [OF s1 m2(2,3) w1])
    moreover have "\<exists>j<gm_nregions m. gm_regions ?m' i = gm_regions m j" if "i < gm_nregions ?m'" for i
      using that drop_regions_nth [of i lo n m1] m2(2) sh unfolding m2(1) by (auto simp: shrinks_def)
    moreover have "gm_mmap_next ?m' = gm_mmap_next m"
      using sh unfolding m2(1) by (simp add: shrinks_def drop_regions_def)
    ultimately show ?thesis
      using drop_wf [OF w1, of lo n] sh unfolding m2(1) by (auto simp: shrinks_def)
  qed
  then show "gm_wf ?m'" "gm_sealed ?m'" "gm_acct m \<Longrightarrow> gm_acct ?m'"
    "\<forall>i<gm_nregions ?m'. \<exists>j<gm_nregions m. gm_regions ?m' i = gm_regions m j"
    "gm_mmap_next ?m' = gm_mmap_next m" "content ?m' a = content m a \<or> content ?m' a = 0" by blast+
qed

subsection \<open>Mapping\<close>

text \<open>The address the next dynamic mapping starts from, and that everything mapped lies below it.\<close>

definition mmap_cursor :: "guest_mem \<Rightarrow> u32" where
  "mmap_cursor m = (if gm_mmap_next m = 0 then GM_MMAP_BASE else gm_mmap_next m)"

definition below_cursor :: "guest_mem \<Rightarrow> bool" where
  "below_cursor m \<longleftrightarrow> unat (mmap_cursor m) mod 4096 = 0 \<and>
     (\<forall>i<gm_nregions m. unat (rg_base (gm_regions m i)) + unat (rg_size (gm_regions m i)) \<le> unat (mmap_cursor m))"

lemma gm_map_fields:
  assumes "gm_nregions m < 256"
  shows "fst (gm_map base sz prot name m) =
    m\<lparr> gm_regions := (gm_regions m)(gm_nregions m := \<lparr> rg_base = base, rg_size = sz, rg_prot = prot, rg_name = name \<rparr>),
       gm_nregions := gm_nregions m + 1 \<rparr>"
  using assms by (simp add: gm_map_def)

lemma gm_map_wf:
  assumes wf: "gm_wf m"
  shows "gm_wf (fst (gm_map base sz prot name m))"
    "content (fst (gm_map base sz prot name m)) = content m"
    "gm_acct (fst (gm_map base sz prot name m)) = gm_acct m"
proof -
  let ?m = "fst (gm_map base sz prot name m)"
  have d: "gm_dir ?m = gm_dir m" "gm_wdir ?m = gm_wdir m" "gm_heap ?m = gm_heap m" "gm_callocs ?m = gm_callocs m"
    "gm_extern ?m = gm_extern m" "gm_vdso ?m = gm_vdso m" "gm_vdso_vaddr ?m = gm_vdso_vaddr m"
    "gm_vdso_size ?m = gm_vdso_size m" "gm_last ?m = gm_last m" "gm_committed ?m = gm_committed m"
    "gm_limit ?m = gm_limit m" by (simp_all add: gm_map_def)
  have n: "gm_nregions m \<le> gm_nregions ?m" "gm_nregions ?m \<le> 256"
    using gm_wfD(6) [OF wf] by (simp_all add: gm_map_def)
  show "gm_wf ?m" unfolding gm_wf_def
  proof (intro conjI allI impI)
    show "vdso_ok ?m" using gm_wfD(2) [OF wf] by (simp add: vdso_ok_def d)
    show "i < gm_nregions ?m" if "gm_last ?m = Some i" for i
      using gm_wfD(7) [OF wf, of i] that n(1) by (simp add: d)
  qed (use gm_wfD(1) [OF wf] gm_wfD(3-5) [OF wf] n(2) in \<open>simp_all add: d\<close>)
  show "content ?m = content m" by (rule content_cong) (simp_all add: d)
  show "gm_acct ?m = gm_acct m" by (rule acct_cong) (simp_all add: d)
qed

lemma gm_map_sealed:
  assumes sl: "gm_sealed m" and n: "gm_nregions m < 256"
    and r: "whole_pages \<lparr> rg_base = base, rg_size = sz, rg_prot = prot, rg_name = name \<rparr>"
    and apart: "\<And>i a. i < gm_nregions m \<Longrightarrow> rg_contains (gm_regions m i) a \<Longrightarrow>
      \<not> rg_contains \<lparr> rg_base = base, rg_size = sz, rg_prot = prot, rg_name = name \<rparr> a"
  shows "gm_sealed (fst (gm_map base sz prot name m))"
proof -
  note f = gm_map_fields [OF n, of base sz prot name]
  let ?m = "fst (gm_map base sz prot name m)"
  have "region_with ?m P a" if rw: "region_with m P a" for P a
  proof -
    obtain i where "i < gm_nregions m" "rg_contains (gm_regions m i) a" "P (rg_prot (gm_regions m i))"
      using rw by (auto simp: region_with_def)
    then show ?thesis unfolding region_with_def f by (intro exI [of _ i]) simp
  qed
  then show ?thesis
    unfolding gm_sealed_def using gm_sealedD(3,4) [OF sl] gm_sealedD(1) [OF sl] gm_sealedD(2) [OF sl] r apart
    by (auto simp: f less_Suc_eq)
qed

text \<open>A successful \<open>gm_mmap\<close> on a paged guest, in natural numbers.\<close>

lemma mmap_result:
  assumes wf: "gm_wf m" and r: "gm_mmap size0 flags m = (b, m')"
    and b: "b \<noteq> 0 \<or> m' \<noteq> m \<and> m' \<noteq> m\<lparr> gm_mmap_next := mmap_cursor m \<rparr>"
  defines "g \<equiv> if flags AND 1 \<noteq> 0 then 4096 else (0 :: nat)" and "sz \<equiv> round_page size0"
    and "m1 \<equiv> m\<lparr> gm_mmap_next := mmap_cursor m \<rparr>"
  defines "m2 \<equiv> if flags AND 1 \<noteq> 0 then fst (gm_map (mmap_cursor m) 4096 0 ''guard'' m1) else m1"
  shows "sz \<noteq> 0" "unat b = unat (mmap_cursor m) + g" "unat b + unat sz + 4096 \<le> 2 ^ 32"
    "m' = (fst (gm_map b sz 3 ''mapping'' m2))\<lparr> gm_mmap_next := b + sz + 4096 \<rparr>"
    "gm_nregions m + (if flags AND 1 \<noteq> 0 then 2 else 1) \<le> 256" "b \<noteq> 0"
proof -
  let ?n = "ucast (mmap_cursor m) :: u64" and ?g = "if flags AND 1 \<noteq> 0 then 4096 else (0 :: u64)"
  let ?fin = "?n + ?g + ucast sz + 4096"
  have m1: "(if gm_mmap_next m = 0 then m\<lparr> gm_mmap_next := GM_MMAP_BASE \<rparr> else m) = m1"
    by (simp add: m1_def mmap_cursor_def)
  have ext: "gm_extern m1 = None" using gm_wfD(1) [OF wf] by (simp add: m1_def)
  have *: "(b, m') = (if sz = 0 then (0, m) else if ?fin > 0x100000000 then (0, m1)
     else if gm_nregions m1 + (if flags AND 1 \<noteq> 0 then 2 else 1) > 256 then (0, m1)
     else (ucast (?n + ?g), (fst (gm_map (ucast (?n + ?g)) sz 3 ''mapping'' m2))\<lparr> gm_mmap_next := ucast ?fin \<rparr>))"
    using r unfolding gm_mmap_def Let_def m1 sz_def [symmetric] m2_def
    by (auto simp: m1_def gm_wfD(1) [OF wf] split: if_splits)
  have b': "b \<noteq> 0 \<or> m' \<noteq> m \<and> m' \<noteq> m1" using b by (simp add: m1_def)
  show s0: "sz \<noteq> 0" using * b' by auto
  have fin: "\<not> ?fin > 0x100000000" using * b' s0 by (auto split: if_splits)
  have n1: "\<not> gm_nregions m1 + (if flags AND 1 \<noteq> 0 then 2 else 1) > 256"
    using * b' s0 fin by (auto split: if_splits)
  have res: "b = ucast (?n + ?g)" "m' = (fst (gm_map b sz 3 ''mapping'' m2))\<lparr> gm_mmap_next := ucast ?fin \<rparr>"
    using * s0 fin n1 by auto
  show "gm_nregions m + (if flags AND 1 \<noteq> 0 then 2 else 1) \<le> 256" using n1 by (simp add: m1_def)
  have un: "unat ?n = unat (mmap_cursor m)" "unat (ucast sz :: u64) = unat sz" by (simp_all add: unat_u64_of_u32)
  have lt: "unat (mmap_cursor m) < 4294967296" "unat sz < 4294967296" using unat_u32 by simp_all
  have ug: "unat ?g = g" by (simp add: g_def)
  have s1: "unat (?n + ?g) = unat (mmap_cursor m) + g"
    using unat_add_lem [of ?n ?g] un lt by (cases "flags AND 1 = 0") (simp_all add: g_def)
  have s2: "unat (?n + ?g + ucast sz) = unat (mmap_cursor m) + g + unat sz"
    using unat_add_lem [of "?n + ?g" "ucast sz"] un lt s1 by (simp add: g_def split: if_splits)
  have s3: "unat ?fin = unat (mmap_cursor m) + g + unat sz + 4096"
    using unat_add_lem [of "?n + ?g + ucast sz" "4096"] s2 lt by (simp add: g_def split: if_splits)
  have bound: "unat (mmap_cursor m) + g + unat sz + 4096 \<le> 2 ^ 32"
    using fin s3 by (simp add: word_less_nat_alt)
  have "unat sz \<noteq> 0" using s0 by (simp add: unat_eq_0)
  then have "unat (mmap_cursor m) + g < 2 ^ 32" using bound by simp
  then show ub: "unat b = unat (mmap_cursor m) + g"
    unfolding res(1) using s1 by (simp add: unsigned_ucast_eq take_bit_nat_eq_self)
  then show "unat b + unat sz + 4096 \<le> 2 ^ 32" using bound by simp
  have "unat (mmap_cursor m) \<noteq> 0" by (simp add: mmap_cursor_def GM_MMAP_BASE_def unat_eq_0)
  then show "b \<noteq> 0" using ub by auto
  have "(ucast ?fin :: u32) = ucast (?n + ?g) + ucast (ucast sz :: u64) + 4096"
    unfolding ucast_down_add by simp
  then show "m' = (fst (gm_map b sz 3 ''mapping'' m2))\<lparr> gm_mmap_next := b + sz + 4096 \<rparr>"
    using res by simp
qed

text \<open>
  Disjointness of the dynamic mappings: below the cursor nothing conflicts, and the cursor moves
  past what was mapped unless it reaches \<open>2\<^sup>3\<^sup>2\<close> exactly.
\<close>

definition rg_end :: "gm_region \<Rightarrow> nat" where
  "rg_end r = unat (rg_base r) + unat (rg_size r)"

lemma map_above:
  assumes sl: "gm_sealed m" and n: "gm_nregions m < 256"
    and top: "\<And>i. i < gm_nregions m \<Longrightarrow> rg_end (gm_regions m i) \<le> unat b"
    and al: "unat b mod 4096 = 0" "unat sz mod 4096 = 0" "unat b + unat sz \<le> 2 ^ 32"
  shows "gm_sealed (fst (gm_map b sz prot name m))"
    "i < gm_nregions (fst (gm_map b sz prot name m)) \<Longrightarrow>
     rg_end (gm_regions (fst (gm_map b sz prot name m)) i) \<le> unat b + unat sz"
proof -
  let ?r = "\<lparr> rg_base = b, rg_size = sz, rg_prot = prot, rg_name = name \<rparr>"
  have w: "whole_pages ?r" using al by (simp add: whole_pages_def)
  show "gm_sealed (fst (gm_map b sz prot name m))"
  proof (rule gm_map_sealed [OF sl n w])
    show "\<not> rg_contains ?r a" if "i < gm_nregions m" "rg_contains (gm_regions m i) a" for i a
      using top [OF that(1)] rg_contains_nat [OF w, of a]
        rg_contains_nat [OF gm_sealedD(1) [OF sl that(1)], of a] that(2) by (simp add: rg_end_def)
  qed
  show "rg_end (gm_regions (fst (gm_map b sz prot name m)) i) \<le> unat b + unat sz"
    if "i < gm_nregions (fst (gm_map b sz prot name m))"
    using that top [of i] by (auto simp: gm_map_fields [OF n] less_Suc_eq rg_end_def)
qed

lemma cursor_upd:
  "gm_wf (m\<lparr> gm_mmap_next := x \<rparr>) = gm_wf m" "gm_sealed (m\<lparr> gm_mmap_next := x \<rparr>) = gm_sealed m"
  "content (m\<lparr> gm_mmap_next := x \<rparr>) = content m" "gm_acct (m\<lparr> gm_mmap_next := x \<rparr>) = gm_acct m"
  by (simp add: gm_wf_def vdso_ok_def, rule sealed_cong, simp_all, rule content_cong, simp_all, rule acct_cong, simp_all)

lemma mmap_fresh:
  assumes wf: "gm_wf m" and sl: "gm_sealed m" and bc: "below_cursor m"
    and r: "gm_mmap size0 flags m = (b, m')" and b: "b \<noteq> 0"
  shows "gm_wf m'" "gm_sealed m'" "content m' = content m" "gm_acct m' = gm_acct m"
    "unat (mmap_cursor m) \<le> unat b" "unat b mod 4096 = 0" "unat b + unat (round_page size0) + 4096 \<le> 2 ^ 32"
    "gm_mmap_next m' = b + round_page size0 + 4096"
    "rg_contains (gm_regions m' (gm_nregions m' - 1)) a \<longleftrightarrow>
       unat b \<le> unat a \<and> unat a < unat b + unat (round_page size0)"
    "gm_nregions m' \<noteq> 0" "rg_prot (gm_regions m' (gm_nregions m' - 1)) = 3"
    "i < gm_nregions m' \<Longrightarrow> rg_end (gm_regions m' i) \<le> unat b + unat (round_page size0)"
    "flags AND 1 \<noteq> 0 \<Longrightarrow> unat b = unat (mmap_cursor m) + 4096 \<and>
       rg_base (gm_regions m' (gm_nregions m' - 2)) = mmap_cursor m \<and>
       rg_size (gm_regions m' (gm_nregions m' - 2)) = 4096 \<and> rg_prot (gm_regions m' (gm_nregions m' - 2)) = 0 \<and>
       gm_nregions m' \<ge> 2"
proof -
  let ?sz = "round_page size0" and ?m1 = "m\<lparr> gm_mmap_next := mmap_cursor m \<rparr>"
  define m2 where "m2 = (if flags AND 1 \<noteq> 0 then fst (gm_map (mmap_cursor m) 4096 0 ''guard'' ?m1) else ?m1)"
  note res = mmap_result [OF wf r disjI1 [OF b], folded m2_def]
  have c0: "unat (mmap_cursor m) + 4096 \<le> 2 ^ 32" using res(2,3) by linarith
  have al: "unat (mmap_cursor m) mod 4096 = 0" using bc by (simp add: below_cursor_def)
  have top1: "rg_end (gm_regions ?m1 i) \<le> unat (mmap_cursor m)" if "i < gm_nregions ?m1" for i
    using that bc by (simp add: below_cursor_def rg_end_def)
  have w1: "gm_wf ?m1" "gm_sealed ?m1" using wf sl by (simp_all add: cursor_upd)
  have m2: "gm_wf m2 \<and> gm_sealed m2 \<and> content m2 = content m \<and> gm_acct m2 = gm_acct m \<and> gm_nregions m2 < 256 \<and>
      (\<forall>i<gm_nregions m2. rg_end (gm_regions m2 i) \<le> unat b)"
  proof (cases "flags AND 1 \<noteq> 0")
    case True
    then have n: "gm_nregions ?m1 < 256" using res(5) by simp
    have up: "unat (mmap_cursor m) + unat (4096 :: u32) \<le> 2 ^ 32" using c0 by simp
    show ?thesis
      using True map_above [OF w1(2) n top1 al _ up] gm_map_wf [OF w1(1)] res(2,5) gm_map_fields [OF n]
      by (simp add: m2_def cursor_upd)
  next
    case False
    then show ?thesis using w1 res(2,5) top1 by (simp add: m2_def cursor_upd)
  qed
  have bal: "unat b mod 4096 = 0" using res(2) al by (simp split: if_splits)
  have up: "unat b + unat ?sz \<le> 2 ^ 32" using res(3) by simp
  let ?m3 = "fst (gm_map b ?sz 3 ''mapping'' m2)"
  have n2: "gm_nregions m2 < 256" using m2 by simp
  have ab: "gm_sealed ?m3"
    "\<And>i. i < gm_nregions ?m3 \<Longrightarrow> rg_end (gm_regions ?m3 i) \<le> unat b + unat ?sz"
    using map_above [OF _ n2 _ bal round_page_aligned up] m2 by blast+
  note m' = res(4)
  show "gm_wf m'" "gm_sealed m'" "content m' = content m" "gm_acct m' = gm_acct m"
    using m2 ab(1) gm_map_wf [of m2 b ?sz 3 "''mapping''"] by (simp_all add: m' cursor_upd)
  show "unat (mmap_cursor m) \<le> unat b" using res(2) by simp
  show "unat b mod 4096 = 0" by (rule bal)
  show "unat b + unat ?sz + 4096 \<le> 2 ^ 32" by (rule res(3))
  show "gm_mmap_next m' = b + ?sz + 4096" by (simp add: m')
  have wp: "whole_pages \<lparr> rg_base = b, rg_size = ?sz, rg_prot = 3, rg_name = ''mapping'' \<rparr>"
    using bal up by (simp add: whole_pages_def round_page_aligned)
  show "rg_contains (gm_regions m' (gm_nregions m' - 1)) a \<longleftrightarrow> unat b \<le> unat a \<and> unat a < unat b + unat ?sz"
    using rg_contains_nat [OF wp, of a] by (simp add: m' gm_map_fields [OF n2])
  show "gm_nregions m' \<noteq> 0" "rg_prot (gm_regions m' (gm_nregions m' - 1)) = 3"
    by (simp_all add: m' gm_map_fields [OF n2])
  show "rg_end (gm_regions m' i) \<le> unat b + unat ?sz" if "i < gm_nregions m'"
    using ab(2) [of i] that by (simp add: m')
  show "unat b = unat (mmap_cursor m) + 4096 \<and>
       rg_base (gm_regions m' (gm_nregions m' - 2)) = mmap_cursor m \<and>
       rg_size (gm_regions m' (gm_nregions m' - 2)) = 4096 \<and> rg_prot (gm_regions m' (gm_nregions m' - 2)) = 0 \<and>
       gm_nregions m' \<ge> 2" if g: "flags AND 1 \<noteq> 0"
  proof -
    have n: "gm_nregions ?m1 < 256" using res(5) g by simp
    have "gm_nregions m2 = Suc (gm_nregions m)"
      "gm_regions m2 (gm_nregions m) = \<lparr> rg_base = mmap_cursor m, rg_size = 4096, rg_prot = 0, rg_name = ''guard'' \<rparr>"
      using g by (simp_all add: m2_def gm_map_fields [OF n])
    then show ?thesis using g res(2) by (simp add: m' gm_map_fields [OF n2])
  qed
qed

unbundle bit_operations_syntax

subsection \<open>Reachable memories\<close>

lemma read_run:
  "gm_wf m \<Longrightarrow> \<exists>vs m'. gm_read_out a n m = Some (vs, m') \<and> grows m m' \<and>
     (gm_faulted m' \<or> vs = get_bytes a n (content m) \<and> present_run m' a n)"
proof (induction n arbitrary: a m)
  case 0
  then show ?case using grows_refl [of m] by (simp add: present_run_def)
next
  case (Suc n)
  from Suc.prems show ?case
  proof (cases rule: read8_cases [where a = a])
    case (ok m1)
    obtain vs m2 where m2: "gm_read_out (a + 1) n m1 = Some (vs, m2)" "grows m1 m2"
      "gm_faulted m2 \<or> vs = get_bytes (a + 1) n (content m1) \<and> present_run m2 (a + 1) n"
      using Suc.IH [OF grows_wf [OF ok(2)], of "a + 1"] by blast
    have "present m2 a" by (rule evolves_present [OF grows_evolves [OF m2(2)] ok(3)])
    moreover have "grows m m2" by (rule grows_trans [OF ok(2) m2(2)])
    moreover have "content m1 = content m" using ok(2) by (simp add: grows_def)
    ultimately show ?thesis using ok(1) m2(1,3) by (auto simp: present_run_Suc)
  next
    case (stop m1)
    obtain vs m2 where m2: "gm_read_out (a + 1) n m1 = Some (vs, m2)" "grows m1 m2"
      using Suc.IH [OF grows_wf [OF stop(2)], of "a + 1"] by blast
    then show ?thesis using stop grows_trans [OF stop(2) m2(2)] by (auto simp: grows_def)
  qed
qed

lemma load_run:
  assumes wf: "gm_wf m" and sz: "sz \<in> {1, 2, 4}"
  shows "\<exists>v m'. gm_load a sz be m = Some (v, m') \<and> grows m m' \<and>
     (gm_faulted m' \<or> v = word_of_bytes be (get_bytes a sz (content m)) \<and> present_run m' a sz)"
proof (cases "gm_off a + sz \<le> 4096")
  case True
  obtain r m1 where gp: "gm_page a False m = (r, m1)" by (cases "gm_page a False m")
  from gp wf show ?thesis
  proof (cases rule: gm_page_cases)
    case (page p)
    have w1: "gm_wf m1" and c: "content m1 = content m" using page(2) by (simp_all add: grows_def)
    have "present m1 (a + of_nat i)" if "i < sz" for i
    proof (rule points_to_present [OF page(3) _ w1])
      show "pg a = pg (a + of_nat i)" using page_step(1) [of a i] that True by simp
    qed
    then have "present_run m1 a sz" by (simp add: present_run_def)
    then show ?thesis using True gp page(1,2) ptr_gets_run [OF w1 page(3) refl True] c
      by (simp add: gm_load_def)
  next
    case stop
    then show ?thesis using True gp by (simp add: gm_load_def)
  qed
next
  case False
  obtain vs m1 where "gm_read_out a sz m = Some (vs, m1)" "grows m m1"
    "gm_faulted m1 \<or> vs = get_bytes a sz (content m) \<and> present_run m1 a sz"
    using read_run [OF wf, of a sz] by blast
  then show ?thesis using False by (auto simp: gm_load_def)
qed

text \<open>
  The memories a host can bring about: the loader maps whole, disjoint pages below the dynamic
  area; the guest loads, stores, maps and unmaps with arguments of its choosing, short of pushing
  the mapping cursor to \<open>2\<^sup>3\<^sup>2\<close>; other guests move the shared pool.
\<close>

inductive gm_reach :: "guest_mem \<Rightarrow> bool" where
  init: "gm_reach (gm_init limit host_ok)"
| map: "gm_reach m \<Longrightarrow> whole_pages \<lparr> rg_base = base, rg_size = sz, rg_prot = prot, rg_name = name \<rparr> \<Longrightarrow>
    unat base + unat sz \<le> unat (mmap_cursor m) \<Longrightarrow>
    (\<forall>i<gm_nregions m. \<forall>a. rg_contains (gm_regions m i) a \<longrightarrow>
       \<not> rg_contains \<lparr> rg_base = base, rg_size = sz, rg_prot = prot, rg_name = name \<rparr> a) \<Longrightarrow>
    gm_reach (fst (gm_map base sz prot name m))"
| loading: "gm_reach m \<Longrightarrow> gm_reach (m\<lparr> gm_loading := l \<rparr>)"
| pool: "gm_reach m \<Longrightarrow> gm_reach (m\<lparr> gm_pool_of := q \<rparr>)"
| load: "gm_reach m \<Longrightarrow> sz \<in> {1, 2, 4} \<Longrightarrow> gm_load a sz be m = Some (v, m') \<Longrightarrow> gm_reach m'"
| store: "gm_reach m \<Longrightarrow> sz \<in> {1, 2, 4} \<Longrightarrow> gm_store a sz be v m = Some m' \<Longrightarrow> gm_reach m'"
| copy_in: "gm_reach m \<Longrightarrow> gm_write a vs m = Some m' \<Longrightarrow> gm_reach m'"
| read_out: "gm_reach m \<Longrightarrow> gm_read_out a n m = Some (vs, m') \<Longrightarrow> gm_reach m'"
| mmap: "gm_reach m \<Longrightarrow> gm_mmap size0 flags m = (b, m') \<Longrightarrow> gm_mmap_next m' \<noteq> 0 \<Longrightarrow> gm_reach m'"
| munmap: "gm_reach m \<Longrightarrow> gm_reach (gm_munmap base size0 m)"

definition gm_good :: "guest_mem \<Rightarrow> bool" where
  "gm_good m \<longleftrightarrow> gm_wf m \<and> gm_acct m \<and> gm_sealed m \<and> below_cursor m"

lemma below_cursor_cong:
  assumes "gm_mmap_next m' = gm_mmap_next m" "below_cursor m"
    "\<forall>i<gm_nregions m'. \<exists>j<gm_nregions m. gm_regions m' i = gm_regions m j"
  shows "below_cursor m'"
proof -
  have c: "mmap_cursor m' = mmap_cursor m" using assms(1) by (simp add: mmap_cursor_def)
  have "unat (rg_base (gm_regions m' i)) + unat (rg_size (gm_regions m' i)) \<le> unat (mmap_cursor m)"
    if "i < gm_nregions m'" for i
    using assms(2,3) that unfolding below_cursor_def by (metis (no_types, lifting))
  then show ?thesis using assms(2) by (simp add: below_cursor_def c)
qed

lemma good_evolves: "gm_good m \<Longrightarrow> evolves m m' \<Longrightarrow> gm_good m'"
  using below_cursor_cong [of m' m] by (auto simp: gm_good_def evolves_def)

lemma mmap_zero:
  assumes "gm_mmap size0 flags m = (0, m')" "gm_wf m"
  shows "m' = m \<or> m' = m\<lparr> gm_mmap_next := mmap_cursor m \<rparr>"
  using mmap_result(6) [OF assms(2,1)] by blast

lemma mmap_good:
  assumes g: "gm_good m" and r: "gm_mmap size0 flags m = (b, m')" and nz: "gm_mmap_next m' \<noteq> 0"
  shows "gm_good m'"
proof (cases "b = 0")
  case True
  then have "m' = m \<or> m' = m\<lparr> gm_mmap_next := mmap_cursor m \<rparr>"
    using mmap_zero [of size0 flags m m'] r nz g by (auto simp: gm_good_def)
  moreover have "mmap_cursor (m\<lparr> gm_mmap_next := mmap_cursor m \<rparr>) = mmap_cursor m"
    by (simp add: mmap_cursor_def GM_MMAP_BASE_def)
  ultimately show ?thesis using g by (auto simp: gm_good_def cursor_upd below_cursor_def)
next
  case False
  have g': "gm_wf m" "gm_sealed m" "below_cursor m" using g by (simp_all add: gm_good_def)
  let ?sz = "round_page size0"
  note f = mmap_fresh [OF g' r False]
  have lt: "unat b + unat ?sz < 2 ^ 32" using f(7) by linarith
  then have u1: "unat (b + ?sz) = unat b + unat ?sz" using unat_add_lem [of b ?sz] by simp
  have "unat b + unat ?sz + 4096 < 2 ^ 32"
  proof (rule ccontr)
    assume "\<not> ?thesis"
    then have "unat (b + ?sz) = 2 ^ 32 - 4096" using f(7) u1 by linarith
    then have "b + ?sz = 0xFFFFF000" by (simp add: word_unat_eq_iff)
    then show False using nz f(8) by simp
  qed
  then have u: "unat (b + ?sz + 4096) = unat b + unat ?sz + 4096"
    using unat_add_lem [of "b + ?sz" 4096] u1 by simp
  have cu: "mmap_cursor m' = b + ?sz + 4096" using nz f(8) by (simp add: mmap_cursor_def)
  have "unat (rg_base (gm_regions m' i)) + unat (rg_size (gm_regions m' i)) \<le> unat (b + ?sz + 4096)"
    if "i < gm_nregions m'" for i
    using f(12) [OF that] by (simp add: u rg_end_def)
  moreover have "(unat b + unat ?sz + 4096) mod 4096 = 0"
    using f(6) round_page_aligned [of size0] by (simp add: mod_eq_0_iff_dvd dvd_add)
  ultimately show ?thesis using f(1-4) g u cu by (simp add: gm_good_def below_cursor_def)
qed

lemma misc_upd:
  "gm_wf (m\<lparr> gm_loading := l \<rparr>) = gm_wf m" "gm_wf (m\<lparr> gm_pool_of := q \<rparr>) = gm_wf m"
  "gm_acct (m\<lparr> gm_loading := l \<rparr>) = gm_acct m" "gm_acct (m\<lparr> gm_pool_of := q \<rparr>) = gm_acct m"
  "gm_sealed (m\<lparr> gm_loading := l \<rparr>) = gm_sealed m" "gm_sealed (m\<lparr> gm_pool_of := q \<rparr>) = gm_sealed m"
  "below_cursor (m\<lparr> gm_loading := l \<rparr>) = below_cursor m" "below_cursor (m\<lparr> gm_pool_of := q \<rparr>) = below_cursor m"
  by (simp_all add: gm_wf_def vdso_ok_def gm_acct_def pages_def gm_sealed_def region_with_def below_cursor_def mmap_cursor_def)

lemma gm_reach_good: "gm_reach m \<Longrightarrow> gm_good m"
proof (induction rule: gm_reach.induct)
  case (init limit host_ok)
  let ?m = "gm_init limit host_ok"
  have "page_at (gm_dir ?m) a = None" "page_at (gm_wdir ?m) a = None" for a
    by (simp_all add: gm_init_def page_at_def)
  then show ?case
    by (simp add: gm_good_def gm_wf_def gm_acct_def gm_sealed_def below_cursor_def vdso_ok_def pages_def)
      (simp add: gm_init_def mmap_cursor_def GM_MMAP_BASE_def)
next
  case (map m base sz prot name)
  let ?m = "fst (gm_map base sz prot name m)"
  show ?case
  proof (cases "gm_nregions m < 256")
    case True
    have "gm_sealed ?m" using gm_map_sealed [OF _ True map(2)] map(4,5) by (auto simp: gm_good_def)
    moreover have "below_cursor ?m"
      using map(3,5) by (auto simp: gm_good_def below_cursor_def gm_map_fields [OF True] mmap_cursor_def less_Suc_eq)
    ultimately show ?thesis using map(5) gm_map_wf [of m base sz prot name] by (simp add: gm_good_def)
  next
    case False
    then show ?thesis using map(5) by (simp add: gm_map_def)
  qed
next
  case (loading m l)
  then show ?case by (simp add: gm_good_def misc_upd)
next
  case (pool m q)
  then show ?case by (simp add: gm_good_def misc_upd)
next
  case (load m sz a be v m')
  then show ?case using load_run [of m sz a be] good_evolves [OF _ grows_evolves, of m m']
    by (auto simp: gm_good_def)
next
  case (store m sz a be v m')
  then show ?case using store_run [of m sz a be v] good_evolves [of m m'] by (auto simp: gm_good_def)
next
  case (copy_in m a vs m')
  then show ?case using write_run [of m a vs] good_evolves [of m m'] by (auto simp: gm_good_def)
next
  case (read_out m a n vs m')
  then show ?case using read_run [of m a n] good_evolves [OF _ grows_evolves, of m m'] by (auto simp: gm_good_def)
next
  case (mmap m size0 flags b m')
  then show ?case by (auto intro: mmap_good)
next
  case (munmap m base size0)
  then have g: "gm_wf m" "gm_sealed m" "gm_acct m" "below_cursor m" by (simp_all add: gm_good_def)
  show ?case using munmap_keeps [OF g(1,2), of base size0] g(3,4) below_cursor_cong [of "gm_munmap base size0 m" m]
    by (simp add: gm_good_def)
qed

unbundle bit_operations_syntax

subsection \<open>Properties\<close>

text \<open>A small memory: one writable region of a page at \<open>0x1000\<close>.\<close>

definition demo_ram :: guest_mem where
  "demo_ram = fst (gm_map 0x1000 0x1000 3 ''ram'' (gm_init 0x10000 (\<lambda>_. True)))"

lemma demo_ram_reach: "gm_reach demo_ram"
  unfolding demo_ram_def
  by (rule gm_reach.map [OF gm_reach.init]) (simp_all add: whole_pages_def mmap_cursor_def gm_init_def GM_MMAP_BASE_def)

lemma reach_wf: "gm_reach m \<Longrightarrow> gm_wf m"
  using gm_reach_good by (simp add: gm_good_def)



text \<open>
  C27: The committed byte count is exactly 4096 times the pages in the directory and never exceeds
  the guest's limit, whatever is loaded, stored, mapped and unmapped.
\<close>

theorem gm_commit_bounded:
  assumes "gm_reach m"
  shows "unat (gm_committed m) = 4096 * card (pages m) \<and> gm_committed m \<le> gm_limit m"
  using gm_reach_good [OF assms] by (simp add: gm_good_def gm_acct_def)

theorem gm_commit_bounded_witness: "unat (gm_committed demo_ram) = 4096 * card (pages demo_ram)"
  using gm_commit_bounded [OF demo_ram_reach] by simp

text \<open>
  C25: A value stored without a fault is read back, truncated to the access size, in either byte
  order and also across a page boundary; the load changes nothing.
\<close>

theorem gm_store_load:
  assumes "gm_reach m" "sz \<in> {1, 2, 4}" "gm_store a sz be v m = Some m1" "\<not> gm_faulted m1"
  shows "gm_load a sz be m1 = Some (take_bit (8 * sz) v, m1)"
proof -
  let ?b = "bytes_of_word sz be v"
  have len: "length ?b = sz" by (rule length_bytes_of_word [OF assms(2)])
  have st: "evolves m m1" "content m1 = put_bytes a ?b (content m)" "present_run m1 a sz"
    using store_run [OF reach_wf [OF assms(1)] assms(2), of a be v] assms(3,4) by auto
  have "gm_load a sz be m1 = Some (word_of_bytes be (get_bytes a sz (content m1)), m1)"
    using load_present [OF evolves_wf [OF st(1)] st(3)] assms(2) by auto
  moreover have "get_bytes a sz (content m1) = ?b"
    using get_put_bytes [of ?b a "content m"] assms(2) by (auto simp: st(2) len)
  ultimately show ?thesis by (simp add: word_bytes_inverse [OF assms(2)])
qed


lemma demo_store: "map_option gm_faulted (gm_store 0x1004 4 False 0xDEADBEEF demo_ram) = Some False"
  by code_simp

theorem gm_store_load_witness:
  "\<exists>m1. gm_store 0x1004 4 False 0xDEADBEEF demo_ram = Some m1 \<and> gm_load 0x1004 4 False m1 = Some (0xDEADBEEF, m1)"
proof -
  obtain m1 where m1: "gm_store 0x1004 4 False 0xDEADBEEF demo_ram = Some m1" "\<not> gm_faulted m1"
    using demo_store by auto
  have "gm_load 0x1004 4 False m1 = Some (take_bit (8 * 4) 0xDEADBEEF, m1)"
    by (rule gm_store_load [OF demo_ram_reach _ m1]) simp
  then show ?thesis using m1(1) by simp
qed

text \<open>
  C7: Sized access refines a flat array of bytes: a store that does not fault overwrites exactly
  its own bytes, a load that does not fault returns the bytes at its address and changes none, and
  on a fault the load still changes none.
\<close>

theorem gm_refines_bytes:
  assumes "gm_reach m" "sz \<in> {1, 2, 4}"
    and "gm_store a sz be v m = Some m1" and "gm_load b sz be' m = Some (w, m2)"
  shows "(\<not> gm_faulted m1 \<longrightarrow> content m1 = put_bytes a (bytes_of_word sz be v) (content m)) \<and>
    (\<not> gm_faulted m2 \<longrightarrow> w = word_of_bytes be' (get_bytes b sz (content m))) \<and> content m2 = content m"
proof -
  have "\<not> gm_faulted m1 \<longrightarrow> content m1 = put_bytes a (bytes_of_word sz be v) (content m)"
    using store_run [OF reach_wf [OF assms(1)] assms(2), of a be v] assms(3) by auto
  moreover have "(\<not> gm_faulted m2 \<longrightarrow> w = word_of_bytes be' (get_bytes b sz (content m))) \<and> content m2 = content m"
    using load_run [OF reach_wf [OF assms(1)] assms(2), of b be'] assms(4) by (auto simp: grows_def)
  ultimately show ?thesis by blast
qed

theorem gm_refines_bytes_witness:
  "\<exists>m1. gm_store 0x1004 4 False 0xDEADBEEF demo_ram = Some m1 \<and>
     content m1 = put_bytes 0x1004 (bytes_of_word 4 False 0xDEADBEEF) (content demo_ram)"
proof -
  obtain m1 where m1: "gm_store 0x1004 4 False 0xDEADBEEF demo_ram = Some m1" "\<not> gm_faulted m1"
    using demo_store by auto
  obtain w m2 where l: "gm_load 0x1004 4 False demo_ram = Some (w, m2)"
    using load_run [OF reach_wf [OF demo_ram_reach], of 4 "0x1004" False] by auto
  show ?thesis using gm_refines_bytes [OF demo_ram_reach _ m1(1) l] m1 by simp
qed

text \<open>
  C26: Protection holds on every path: outside loading, a page is handed out for a read only inside a
  region that is not a guard, and for a write only inside a writable region, although the write
  cache and the read fast path skip the region check.
\<close>

theorem gm_page_protection:
  assumes "gm_reach m" "\<not> gm_loading m" "\<not> in_vdso a m" "gm_page a w m = (Some p, m1)"
  shows "region_with m (\<lambda>prot. prot \<noteq> 0 \<and> (w \<longrightarrow> odd (prot div 2))) a"
proof -
  have wf: "gm_wf m" and sl: "gm_sealed m" using gm_reach_good [OF assms(1)] by (simp_all add: gm_good_def)
  have pp: "page_paged a w m = (Some p, m1)" using assms(3,4) gm_wfD(1) [OF wf] by (simp add: gm_page_def)
  show ?thesis
  proof (cases "page_at (if w then gm_wdir m else gm_dir m) a")
    case (Some k)
    have "x \<noteq> 0" if "odd (x div 2)" for x :: nat using that by (cases "x = 0") auto
    then show ?thesis using Some gm_sealedD(3,4) [OF sl, of a] by (auto simp: region_with_def split: if_splits)
  next
    case None
    obtain q m2 where cr: "check_region a w m = (q, m2)" by (cases "check_region a w m")
    from cr wf show ?thesis
    proof (cases rule: check_region_cases)
      case (pass i)
      then show ?thesis using assms(2) by (auto simp: region_with_def permits_def)
    next
      case stop
      then show ?thesis using pp None cr by (simp add: page_paged_def)
    qed
  qed
qed

lemma demo_page: "map_option (\<lambda>_. ()) (fst (gm_page 0x1004 True demo_ram)) = Some ()" "\<not> gm_loading demo_ram"
    "\<not> in_vdso 0x1004 demo_ram"
  by code_simp+

theorem gm_page_protection_witness: "region_with demo_ram (\<lambda>prot. prot \<noteq> 0 \<and> odd (prot div 2)) 0x1004"
proof -
  obtain p m1 where "gm_page 0x1004 True demo_ram = (Some p, m1)"
    using demo_page(1) by (cases "gm_page 0x1004 True demo_ram") auto
  from gm_page_protection [OF demo_ram_reach demo_page(2,3) this] show ?thesis by simp
qed



text \<open>
  The mapping cursor can wrap: a mapping whose trailing gap ends exactly at \<open>2\<^sup>3\<^sup>2\<close> leaves the
  cursor at 0, which the next call takes for "unset", so that call returns the base of the live
  mapping again.
\<close>

theorem gm_mmap_cursor_wraps:
  "\<exists>m1 m2. gm_mmap 0x8FFFF000 0 demo_ram = (0x70000000, m1) \<and> gm_mmap 0x1000 0 m1 = (0x70000000, m2)"
proof -
  have r: "fst (gm_mmap 0x8FFFF000 0 demo_ram) = 0x70000000"
    "fst (gm_mmap 0x1000 0 (snd (gm_mmap 0x8FFFF000 0 demo_ram))) = 0x70000000" by code_simp+
  then show ?thesis by (metis prod.collapse)
qed

declare option.case_cong_weak [cong]

end
