(* ===== verification/Mips_User.thy ===== *)
theory Mips_User
  imports Mips_Emu Guest_Mem_Correct
begin

text \<open>
  The MIPS I binding of the process sandbox (\<^verbatim>\<open>emu/mips_user.c\<close>) over the guest-memory bus of
  \<^verbatim>\<open>emu/sched.c\<close>: the bus callbacks, the o32 system-call shim, the open-flag translation and \<open>ready\<close>.

  The bus context is the process: its guest memory and the part of \<open>struct guest\<close> the shim reads.
  \<open>sched_private\<close> and \<open>guest_syscall\<close> are arguments of the shim, since most of what they do is host
  I/O; \<open>'x\<close> is whatever else of the process they use.
\<close>

unbundle bit_operations_syntax

subsection \<open>The process and its bus\<close>

record 'x guest_proc =
  g_mem :: guest_mem
  g_big_endian :: bool
  g_park :: nat
  g_exited :: bool
  g_can_park :: bool
  g_rest :: 'x

abbreviation (input) GPARK_NONE :: nat where "GPARK_NONE \<equiv> 0"
abbreviation (input) GPARK_YIELD :: nat where "GPARK_YIELD \<equiv> 1"
abbreviation (input) GPARK_RETRY :: nat where "GPARK_RETRY \<equiv> 2"

type_synonym 'x user_cpu = "'x guest_proc mips_cpu"

text \<open>A memory fault halts the CPU, through the vtable's \<open>halt\<close>, which is \<open>mips_halt\<close>.\<close>

definition bus_done :: "guest_mem \<Rightarrow> 'x user_cpu \<Rightarrow> 'x user_cpu" where
  "bus_done m c =
     (let c' = c\<lparr> cpu_mem := (cpu_mem c)\<lparr> g_mem := m \<rparr> \<rparr> in if gm_faulted m then mips_halt c' else c')"

definition skj_bus_r8 :: "u32 \<Rightarrow> 'x user_cpu \<Rightarrow> (u32 \<times> 'x user_cpu) option" where
  "skj_bus_r8 addr c =
     do { (v, m) \<leftarrow> gm_load addr 1 (g_big_endian (cpu_mem c)) (g_mem (cpu_mem c)); Some (v, bus_done m c) }"

definition skj_bus_r16 :: "u32 \<Rightarrow> 'x user_cpu \<Rightarrow> (u32 \<times> 'x user_cpu) option" where
  "skj_bus_r16 addr c =
     do { (v, m) \<leftarrow> gm_load addr 2 (g_big_endian (cpu_mem c)) (g_mem (cpu_mem c)); Some (v, bus_done m c) }"

definition skj_bus_r32 :: "u32 \<Rightarrow> 'x user_cpu \<Rightarrow> (u32 \<times> 'x user_cpu) option" where
  "skj_bus_r32 addr c =
     do { (v, m) \<leftarrow> gm_load addr 4 (g_big_endian (cpu_mem c)) (g_mem (cpu_mem c)); Some (v, bus_done m c) }"

definition skj_bus_w8 :: "u32 \<Rightarrow> u32 \<Rightarrow> 'x user_cpu \<Rightarrow> 'x user_cpu option" where
  "skj_bus_w8 addr val c =
     do { m \<leftarrow> gm_store addr 1 (g_big_endian (cpu_mem c)) val (g_mem (cpu_mem c)); Some (bus_done m c) }"

definition skj_bus_w16 :: "u32 \<Rightarrow> u32 \<Rightarrow> 'x user_cpu \<Rightarrow> 'x user_cpu option" where
  "skj_bus_w16 addr val c =
     do { m \<leftarrow> gm_store addr 2 (g_big_endian (cpu_mem c)) val (g_mem (cpu_mem c)); Some (bus_done m c) }"

definition skj_bus_w32 :: "u32 \<Rightarrow> u32 \<Rightarrow> 'x user_cpu \<Rightarrow> 'x user_cpu option" where
  "skj_bus_w32 addr val c =
     do { m \<leftarrow> gm_store addr 4 (g_big_endian (cpu_mem c)) val (g_mem (cpu_mem c)); Some (bus_done m c) }"

subsection \<open>System calls\<close>

datatype guest_sys =
    GSYS_UNKNOWN | GSYS_READ | GSYS_WRITE | GSYS_WRITEV | GSYS_OPEN | GSYS_OPENAT | GSYS_CLOSE
  | GSYS_LSEEK | GSYS_LLSEEK | GSYS_BRK | GSYS_EXIT | GSYS_EXIT_GROUP | GSYS_STATX | GSYS_MKDIRAT
  | GSYS_UNLINKAT | GSYS_RENAMEAT2 | GSYS_FCHMODAT | GSYS_GETDENTS64 | GSYS_CLOCK_GETTIME
  | GSYS_GETRANDOM | GSYS_NANOSLEEP | GSYS_SCHED_YIELD

definition sys_of_mips :: "u32 \<Rightarrow> guest_sys" where
  "sys_of_mips nr =
     (if nr = 4001 then GSYS_EXIT
      else if nr = 4003 then GSYS_READ
      else if nr = 4004 then GSYS_WRITE
      else if nr = 4005 then GSYS_OPEN
      else if nr = 4288 then GSYS_OPENAT
      else if nr = 4006 then GSYS_CLOSE
      else if nr = 4019 then GSYS_LSEEK
      else if nr = 4045 then GSYS_BRK
      else if nr = 4146 then GSYS_WRITEV
      else if nr = 4162 then GSYS_SCHED_YIELD
      else if nr = 4166 then GSYS_NANOSLEEP
      else if nr = 4219 then GSYS_GETDENTS64
      else if nr = 4246 then GSYS_EXIT_GROUP
      else if nr = 4263 then GSYS_CLOCK_GETTIME
      else if nr = 4289 then GSYS_MKDIRAT
      else if nr = 4294 then GSYS_UNLINKAT
      else if nr = 4333 then GSYS_FCHMODAT
      else if nr = 4351 then GSYS_RENAMEAT2
      else if nr = 4353 then GSYS_GETRANDOM
      else if nr = 4366 then GSYS_STATX
      else GSYS_UNKNOWN)"

text \<open>One classic open-flag bit: when it is set in the MIPS flags, the host's bits are added.\<close>

definition map_flag :: "u32 \<Rightarrow> u32 \<Rightarrow> u32 \<Rightarrow> u32 \<Rightarrow> u32" where
  "map_flag f guest_bit host_bits h = (if f AND guest_bit \<noteq> 0 then h OR host_bits else h)"

definition mips_oflags_to_host :: "u32 \<Rightarrow> u32" where
  "mips_oflags_to_host f =
     (let h = f AND 3;
          h = map_flag f 0x0008 0x0400 h;
          h = map_flag f 0x0010 0x1000 h;
          h = map_flag f 0x0080 0x0800 h;
          h = map_flag f 0x0100 0x0040 h;
          h = map_flag f 0x0200 0x0200 h;
          h = map_flag f 0x0400 0x0080 h;
          h = map_flag f 0x0800 0x0100 h;
          h = map_flag f 0x1000 0x2000 h;
          h = map_flag f 0x2000 0x8000 h;
          h = map_flag f 0x4000 0x101000 h;
          h = map_flag f 0x8000 0x4000 h
      in h OR (f AND 0xFFFF0000))"

datatype skj_priv = SKJ_PRIV_NO | SKJ_PRIV_OK u32 | SKJ_PRIV_FATAL | SKJ_PRIV_YIELD | SKJ_PRIV_RETRY

record 'x syscall_layer =
  sl_private :: "'x guest_proc \<Rightarrow> u32 \<Rightarrow> u32 \<Rightarrow> u32 \<Rightarrow> u32 \<Rightarrow> skj_priv \<times> 'x guest_proc"
  sl_syscall :: "'x guest_proc \<Rightarrow> guest_sys \<Rightarrow> u32 \<Rightarrow> u32 \<Rightarrow> u32 \<Rightarrow> u32 \<Rightarrow> u32 \<Rightarrow> u32 \<Rightarrow> int \<times> 'x guest_proc"

definition rewind :: "'m mips_cpu \<Rightarrow> 'm mips_cpu" where
  "rewind c = c\<lparr> cpu_pc := cpu_cur_pc c, cpu_next_pc := cpu_cur_pc c + 4, cpu_yielding := True \<rparr>"

text \<open>A word of the caller's stack; the shim does not look at the fault flag.\<close>

definition stack_word :: "u32 \<Rightarrow> 'x guest_proc \<Rightarrow> (u32 \<times> 'x guest_proc) option" where
  "stack_word addr p = do { (v, m) \<leftarrow> gm_load addr 4 False (g_mem p); Some (v, p\<lparr> g_mem := m \<rparr>) }"

text \<open>What follows \<open>guest_syscall\<close>: retry by rewinding, or commit the result in \<open>v0\<close> and \<open>a3\<close>.\<close>

definition commit_syscall :: "int \<Rightarrow> 'x user_cpu \<Rightarrow> 'x user_cpu" where
  "commit_syscall r c =
     (if g_park (cpu_mem c) = GPARK_RETRY \<and> \<not> cpu_in_delay c then rewind c
      else
        let c1 = (if r < 0 then set_r 7 1 (set_r 2 (word_of_int (- r)) c) else set_r 7 0 (set_r 2 (word_of_int r) c));
            c2 = (if g_park (cpu_mem c1) = GPARK_YIELD then c1\<lparr> cpu_yielding := True \<rparr> else c1)
        in if g_exited (cpu_mem c2) then mips_halt c2 else c2)"

definition mips_syscall :: "'x syscall_layer \<Rightarrow> 'x user_cpu \<Rightarrow> 'x user_cpu option" where
  "mips_syscall sl c =
     (let nr = cpu_r c 2;
          (pr, p) = sl_private sl (cpu_mem c) nr (cpu_r c 4) (cpu_r c 5) (cpu_cur_pc c);
          c = c\<lparr> cpu_mem := p \<rparr>
      in case pr of
           SKJ_PRIV_OK result \<Rightarrow> Some (set_r 7 0 (set_r 2 result c))
         | SKJ_PRIV_FATAL \<Rightarrow> Some (mips_halt c)
         | SKJ_PRIV_YIELD \<Rightarrow> Some (c\<lparr> cpu_yielding := True \<rparr>)
         | SKJ_PRIV_RETRY \<Rightarrow> Some (rewind c)
         | SKJ_PRIV_NO \<Rightarrow>
             let sys = sys_of_mips nr; a0 = cpu_r c 4; a1 = cpu_r c 5; a2 = cpu_r c 6; a3 = cpu_r c 7 in
             do { (a4, p1) \<leftarrow> stack_word (cpu_r c 29 + 16) p;
                  (a5, p2) \<leftarrow> stack_word (cpu_r c 29 + 20) p1;
                  let a1 = (if sys = GSYS_OPEN then mips_oflags_to_host a1 else a1);
                  let a2 = (if sys = GSYS_OPENAT then mips_oflags_to_host a2 else a2);
                  let (r, p3) = sl_syscall sl p2 sys a0 a1 a2 a3 a4 a5;
                  Some (commit_syscall r (c\<lparr> cpu_mem := p3 \<rparr>)) })"

subsection \<open>The machine\<close>

definition mips_user_env :: "'x syscall_layer \<Rightarrow> mips_fp \<Rightarrow> 'x guest_proc mips_env" where
  "mips_user_env sl fp =
     \<lparr> env_read8 = skj_bus_r8, env_read16 = skj_bus_r16, env_read32 = skj_bus_r32,
       env_write8 = skj_bus_w8, env_write16 = skj_bus_w16, env_write32 = skj_bus_w32,
       env_syscall = Some (mips_syscall sl), env_fp = fp \<rparr>"

definition mips_ready :: "'x guest_proc \<Rightarrow> u32 \<Rightarrow> u32 \<Rightarrow> 'x user_cpu" where
  "mips_ready p entry sp =
     (let c = set_r 29 sp (mips_reset entry (mips_init p))
      in c\<lparr> cpu_mem := (cpu_mem c)\<lparr> g_can_park := True \<rparr> \<rparr>)"

end
