(* ===== verification/Mips_Emu_Correct.thy ===== *)
theory Mips_Emu_Correct
  imports Mips_User
begin

text \<open>
  Correctness of the MIPS I interpreter: what one instruction may change, the branch and load delay
  slots, the hard-wired zero register, overflow traps, multiplication and division.
\<close>

unbundle bit_operations_syntax

subsection \<open>What the bus may touch\<close>

definition quiet :: "'m mips_cpu \<Rightarrow> 'm mips_cpu \<Rightarrow> bool" where
  "quiet c c' \<longleftrightarrow> (\<exists>m h. c' = c\<lparr> cpu_mem := m, cpu_halted := h \<rparr> \<and> (cpu_halted c \<longrightarrow> h))"

subsection \<open>What one instruction changes\<close>

text \<open>
  Relative to the state after \<open>begin_insn\<close>: the pc stays, \<open>next_pc\<close> only moves with \<open>branch_taken\<close>, and
  no register changes but the one \<open>delay_slot_dest\<close> names; COP1 moves are the exception.
\<close>

definition insn_frame :: "u32 \<Rightarrow> 'm mips_cpu \<Rightarrow> 'm mips_cpu \<Rightarrow> bool" where
  "insn_frame inst c c2 \<longleftrightarrow>
     cpu_pc c2 = cpu_pc c \<and> cpu_cur_pc c2 = cpu_cur_pc c \<and> cpu_in_delay c2 = cpu_in_delay c \<and>
     cpu_cycles c2 = cpu_cycles c \<and> cpu_yielding c2 = cpu_yielding c \<and>
     (cpu_halted c \<longrightarrow> cpu_halted c2) \<and> (cpu_trapped c \<longrightarrow> cpu_trapped c2) \<and>
     (cpu_next_pc c2 = cpu_next_pc c \<and> cpu_branch_taken c2 = cpu_branch_taken c \<or> cpu_branch_taken c2) \<and>
     (f_op inst \<noteq> 0x11 \<longrightarrow> (\<forall>k. k \<noteq> delay_slot_dest inst \<longrightarrow> k \<noteq> 0 \<longrightarrow> cpu_r c2 k = cpu_r c k))"

fun out_cpu :: "'m outcome \<Rightarrow> 'm mips_cpu" where
  "out_cpu (Cont c) = c"
| "out_cpu (Stop c) = c"

lemmas cpu_upd = set_r_def do_branch_def rel_branch_def mips_trap_def set_fpr_def

lemma frame_refl [frame]: "insn_frame inst c c"
  by (simp add: insn_frame_def)

lemma frame_set_r [frame]: "delay_slot_dest inst = k \<Longrightarrow> insn_frame inst c (set_r k v c)"
  by (simp add: insn_frame_def set_r_def)

lemma frame_set_r_cop1 [frame]: "f_op inst = 0x11 \<Longrightarrow> insn_frame inst c (set_r k v c)"
  by (simp add: insn_frame_def set_r_def)

lemma frame_trap [frame]: "insn_frame inst c (mips_trap ty sg a i msg c)"
  by (simp add: insn_frame_def mips_trap_def)

lemma frame_branch [frame]: "insn_frame inst c c1 \<Longrightarrow> insn_frame inst c (do_branch t c1)"
  by (simp add: insn_frame_def do_branch_def)

lemma frame_rel_branch [frame]: "insn_frame inst c c1 \<Longrightarrow> insn_frame inst c (rel_branch i c1)"
  by (simp add: insn_frame_def rel_branch_def do_branch_def)

lemma frame_set_fpr [frame]: "insn_frame inst c c1 \<Longrightarrow> insn_frame inst c (set_fpr k v c1)"
  by (simp add: insn_frame_def set_fpr_def)

lemma frame_fcsr [frame]: "insn_frame inst c (c\<lparr> cpu_fcsr := v \<rparr>)"
  by (simp add: insn_frame_def)

lemma frame_hilo [frame]:
  "insn_frame inst c (c\<lparr> cpu_hi := v \<rparr>)" "insn_frame inst c (c\<lparr> cpu_lo := v \<rparr>)"
  "insn_frame inst c (exec_mult x y c)" "insn_frame inst c (exec_multu x y c)"
  "insn_frame inst c (exec_div x y c)" "insn_frame inst c (exec_divu x y c)"
  by (simp_all add: insn_frame_def exec_mult_def exec_multu_def exec_div_def exec_divu_def Let_def)

lemma frame_break [frame]: "insn_frame inst c (exec_break i c)"
  by (simp add: exec_break_def frame Let_def)

lemma frame_set_d: "set_d k v c = Some c' \<Longrightarrow> insn_frame inst c c'"
  by (auto simp: set_d_def frame split: if_splits)

lemma frame_set_fp: "set_fp d k v c = Some c' \<Longrightarrow> insn_frame inst c c'"
  by (auto simp: set_fp_def frame frame_set_d split: if_splits)

lemma special_frame:
  assumes "f_op inst = 0" "f_funct inst \<noteq> 0x0C" "exec_special env inst c = Some out"
  shows "insn_frame inst c (out_cpu out)"
  using assms unfolding exec_special_def Let_def wr_def trap_stop_def
  by (auto simp: frame delay_slot_dest_def split: if_splits)

lemma regimm_frame: "f_op inst = 1 \<Longrightarrow> insn_frame inst c (exec_regimm inst c)"
  by (auto simp: frame delay_slot_dest_def exec_regimm_def Let_def)

lemma imm_frame:
  assumes "f_op inst \<in> {0x08, 0x09, 0x0A, 0x0B, 0x0C, 0x0D, 0x0E, 0x0F}" "exec_imm inst c = Some out"
  shows "insn_frame inst c (out_cpu out)"
proof -
  have "delay_slot_dest inst = f_rt inst" using assms(1) by (auto simp: delay_slot_dest_def Let_def)
  then show ?thesis
    using assms(2) unfolding exec_imm_def Let_def wr_def trap_stop_def by (auto simp: frame split: if_splits)
qed

lemma cop1_arith_frame:
  assumes "cop1_arith fp d inst c = Some out" "f_op inst = 0x11"
  shows "insn_frame inst c (out_cpu out)"
  using assms(1) unfolding cop1_arith_def Let_def
  by (auto simp: bind_eq_Some_conv frame frame_set_fp frame_set_d split: if_splits)

lemma cop1_frame:
  assumes "f_op inst = 0x11" "mips_cop1 fp inst c = Some out"
  shows "insn_frame inst c (out_cpu out)"
  using assms(2) unfolding mips_cop1_def Let_def
  by (auto simp: bind_eq_Some_conv frame frame_set_d assms(1) cop1_arith_frame split: if_splits)

definition bus_quiet :: "'m mips_env \<Rightarrow> bool" where
  "bus_quiet env \<longleftrightarrow>
     (\<forall>rd \<in> {env_read8 env, env_read16 env, env_read32 env}. \<forall>a c v c'. rd a c = Some (v, c') \<longrightarrow> quiet c c') \<and>
     (\<forall>wt \<in> {env_write8 env, env_write16 env, env_write32 env}. \<forall>a v c c'. wt a v c = Some c' \<longrightarrow> quiet c c')"

lemmas bus_quietD =
  bus_quiet_def [THEN iffD1, THEN conjunct1, simplified, THEN conjunct1, rule_format]
  bus_quiet_def [THEN iffD1, THEN conjunct1, simplified, THEN conjunct2, THEN conjunct1, rule_format]
  bus_quiet_def [THEN iffD1, THEN conjunct1, simplified, THEN conjunct2, THEN conjunct2, rule_format]
  bus_quiet_def [THEN iffD1, THEN conjunct2, simplified, THEN conjunct1, rule_format]
  bus_quiet_def [THEN iffD1, THEN conjunct2, simplified, THEN conjunct2, THEN conjunct1, rule_format]
  bus_quiet_def [THEN iffD1, THEN conjunct2, simplified, THEN conjunct2, THEN conjunct2, rule_format]

lemma quiet_frame: "quiet c c' \<Longrightarrow> insn_frame inst c c'"
  by (auto simp: quiet_def insn_frame_def)

lemma frame_trans: "insn_frame inst c c1 \<Longrightarrow> insn_frame inst c1 c2 \<Longrightarrow> insn_frame inst c c2"
  by (auto simp: insn_frame_def)

lemma frame_latch [frame]:
  "insn_frame inst c (c\<lparr> cpu_load_reg := k \<rparr>)" "insn_frame inst c (c\<lparr> cpu_load_val := v \<rparr>)"
  "insn_frame inst c (c\<lparr> cpu_load_reg := k, cpu_load_val := v \<rparr>)"
  by (simp_all add: insn_frame_def)

lemma issue_frame:
  assumes "issue_load rt ext rd c = Some out" "\<And>s v s'. rd s = Some (v, s') \<Longrightarrow> quiet s s'"
  shows "insn_frame inst c (out_cpu out)"
proof (cases "rt = 0")
  case True
  then show ?thesis using assms(1) by (auto simp: issue_load_def frame)
next
  case False
  then obtain v c' where r: "rd (c\<lparr> cpu_load_reg := rt \<rparr>) = Some (v, c')" "out = Cont (c'\<lparr> cpu_load_val := ext v \<rparr>)"
    using assms(1) by (auto simp: issue_load_def bind_eq_Some_conv)
  have "insn_frame inst (c\<lparr> cpu_load_reg := rt \<rparr>) c'" by (rule quiet_frame [OF assms(2) [OF r(1)]])
  then show ?thesis using r(2) frame_trans frame_latch by (metis out_cpu.simps(1))
qed

lemma lwlr_frame:
  assumes "exec_lwlr mg env inst dreg dval c = Some out" "bus_quiet env"
  shows "insn_frame inst c (out_cpu out)"
proof -
  obtain v c1 where r: "env_read32 env (ea inst c AND NOT 3) c = Some (v, c1)"
    "out = Cont (if f_rt inst \<noteq> 0 then c1\<lparr> cpu_load_reg := f_rt inst,
       cpu_load_val := mg (ea inst c) v (if dreg = f_rt inst then dval else cpu_r c (f_rt inst)) \<rparr> else c1)"
    using assms(1) by (auto simp: exec_lwlr_def Let_def bind_eq_Some_conv)
  have "insn_frame inst c c1" by (rule quiet_frame [OF bus_quietD(3) [OF assms(2) r(1)]])
  then show ?thesis using r(2) by (auto intro: frame_trans [OF _ frame_latch(3)])
qed

lemma load_frame:
  assumes q: "bus_quiet env" and e: "exec_load env inst dreg dval c = Some out"
  shows "insn_frame inst c (out_cpu out)"
proof -
  note issue = issue_frame [where inst = inst, OF _ bus_quietD(1) [OF q]] issue_frame [where inst = inst, OF _ bus_quietD(2) [OF q]]
    issue_frame [where inst = inst, OF _ bus_quietD(3) [OF q]]
  show ?thesis
    using e issue lwlr_frame [OF _ q] unfolding exec_load_def Let_def trap_stop_def
    by (auto simp: frame split: if_splits)
qed

lemma swlr_frame:
  assumes "exec_swlr mg env inst c = Some out" "bus_quiet env"
  shows "insn_frame inst c (out_cpu out)"
proof -
  obtain v c1 c2 where r: "env_read32 env (ea inst c AND NOT 3) c = Some (v, c1)"
    "env_write32 env (ea inst c AND NOT 3) (mg (ea inst c) (cpu_r c (f_rt inst)) v) c1 = Some c2" "out = Cont c2"
    using assms(1) by (auto simp: exec_swlr_def Let_def bind_eq_Some_conv)
  have "insn_frame inst c c1" "insn_frame inst c1 c2"
    by (rule quiet_frame [OF bus_quietD(3) [OF assms(2) r(1)]], rule quiet_frame [OF bus_quietD(6) [OF assms(2) r(2)]])
  then show ?thesis using r(3) frame_trans by simp
qed

lemma store_frame:
  assumes q: "bus_quiet env" and e: "exec_store env inst c = Some out"
  shows "insn_frame inst c (out_cpu out)"
  using e swlr_frame [OF _ q] bus_quietD(4-6) [OF q, THEN quiet_frame, of _ _ c _ inst]
  unfolding exec_store_def Let_def trap_stop_def by (auto simp: frame split: if_splits)

lemma fp_mem_frame:
  assumes q: "bus_quiet env" and e: "exec_fp_mem env inst c = Some out"
  shows "insn_frame inst c (out_cpu out)"
  using e bus_quietD(3) [OF q, THEN quiet_frame, of _ c _ _ inst] bus_quietD(6) [OF q, THEN quiet_frame, of _ _ c _ inst]
  unfolding exec_fp_mem_def Let_def trap_stop_def
  by (auto simp: frame bind_eq_Some_conv split: if_splits)

lemma branch_if_frame: "branch_if p inst c = Some out \<Longrightarrow> insn_frame inst c (out_cpu out)"
  by (auto simp: branch_if_def frame split: if_splits)

text \<open>The system call is the one instruction whose handler may do more.\<close>

lemma exec_frame:
  assumes q: "bus_quiet env" and ns: "\<not> (f_op inst = 0 \<and> f_funct inst = 0x0C)"
    and e: "exec_insn env inst dreg dval c = Some out"
  shows "insn_frame inst c (out_cpu out)"
proof -
  have jal: "delay_slot_dest inst = 31" if "f_op inst = 3" using that by (simp add: delay_slot_dest_def)
  show ?thesis
    using e ns unfolding exec_insn_def Let_def trap_stop_def
    by (auto simp: frame jal regimm_frame split: if_splits
        intro: special_frame imm_frame cop1_frame load_frame [OF q] store_frame [OF q] fp_mem_frame [OF q] branch_if_frame)
qed

unbundle bit_operations_syntax

subsection \<open>One step\<close>

lemma cop1_stop: "mips_cop1 fp inst c = Some (Stop c2) \<Longrightarrow> cpu_r c2 = cpu_r c"
  unfolding mips_cop1_def cop1_arith_def Let_def
  by (auto simp: bind_eq_Some_conv mips_trap_def split: if_splits)

lemma exec_stop: "exec_insn env inst dreg dval c = Some (Stop c2) \<Longrightarrow> cpu_r c2 = cpu_r c"
proof -
  have t: "cpu_r (mips_trap ty sg a i msg c) = cpu_r c" for ty sg a i msg by (simp add: mips_trap_def)
  have special: "exec_special env inst c = Some (Stop c2) \<Longrightarrow> cpu_r c2 = cpu_r c"
    unfolding exec_special_def exec_syscall_def Let_def wr_def trap_stop_def
    by (auto simp: t split: if_splits option.splits)
  have imm: "exec_imm inst c = Some (Stop c2) \<Longrightarrow> cpu_r c2 = cpu_r c"
    unfolding exec_imm_def Let_def wr_def trap_stop_def by (auto simp: t split: if_splits)
  have ld: "exec_load env inst dreg dval c = Some (Stop c2) \<Longrightarrow> cpu_r c2 = cpu_r c"
    unfolding exec_load_def exec_lwlr_def issue_load_def Let_def trap_stop_def
    by (auto simp: t bind_eq_Some_conv split: if_splits)
  have st: "exec_store env inst c = Some (Stop c2) \<Longrightarrow> cpu_r c2 = cpu_r c"
    unfolding exec_store_def exec_swlr_def Let_def trap_stop_def
    by (auto simp: t bind_eq_Some_conv split: if_splits)
  have fm: "exec_fp_mem env inst c = Some (Stop c2) \<Longrightarrow> cpu_r c2 = cpu_r c"
    unfolding exec_fp_mem_def Let_def trap_stop_def
    by (auto simp: t bind_eq_Some_conv split: if_splits)
  assume "exec_insn env inst dreg dval c = Some (Stop c2)"
  then show "cpu_r c2 = cpu_r c"
    using special imm ld st fm cop1_stop unfolding exec_insn_def Let_def branch_if_def trap_stop_def
    by (auto simp: t split: if_splits)
qed

text \<open>The ways a step goes: refused, misaligned fetch, stopped by a trap, or completed.\<close>

lemma mips_step_cases:
  assumes "mips_step env c = Some (c', rc)"
  obtains (refused) "cpu_halted c \<or> cpu_trapped c" "c' = c" "rc = - 1"
    | (misaligned) "\<not> cpu_halted c" "\<not> cpu_trapped c" "cpu_pc c AND 3 \<noteq> 0" "rc = - 1" "cpu_trapped c'" "cpu_r c' = cpu_r c"
    | (stopped) inst c1 where "\<not> cpu_halted c" "\<not> cpu_trapped c"
        "env_read32 env (cpu_pc c) (c\<lparr> cpu_cur_pc := cpu_pc c, cpu_in_delay := cpu_branch_taken c \<rparr>) = Some (inst, c1)"
        "exec_insn env inst (cpu_load_reg c1) (cpu_load_val c1) (begin_insn c1) = Some (Stop c')" "rc = - 1"
    | (completed) inst c1 c2 where "\<not> cpu_halted c" "\<not> cpu_trapped c"
        "env_read32 env (cpu_pc c) (c\<lparr> cpu_cur_pc := cpu_pc c, cpu_in_delay := cpu_branch_taken c \<rparr>) = Some (inst, c1)"
        "exec_insn env inst (cpu_load_reg c1) (cpu_load_val c1) (begin_insn c1) = Some (Cont c2)"
        "c' = finish_step inst (cpu_load_reg c1) (cpu_load_val c1) c2"
        "rc = (if cpu_halted c' \<or> cpu_trapped c' then - 1 else 0)"
proof (cases "cpu_halted c \<or> cpu_trapped c")
  case True
  then show thesis using assms by (intro refused) (simp_all add: mips_step_def)
next
  case nh: False
  show thesis
  proof (cases "cpu_pc c AND 3 \<noteq> 0")
    case True
    then have "c' = mips_trap MIPS_TR_FETCH_FAULT SIG_BUS (cpu_pc c) 0 ''misaligned instruction fetch''
        (c\<lparr> cpu_cur_pc := cpu_pc c, cpu_in_delay := cpu_branch_taken c \<rparr>)" "rc = - 1"
      using assms nh by (simp_all add: mips_step_def Let_def)
    then show thesis using True nh by (intro misaligned) (simp_all add: mips_trap_def)
  next
    case False
    then obtain inst c1 out where r:
      "env_read32 env (cpu_pc c) (c\<lparr> cpu_cur_pc := cpu_pc c, cpu_in_delay := cpu_branch_taken c \<rparr>) = Some (inst, c1)"
      "exec_insn env inst (cpu_load_reg c1) (cpu_load_val c1) (begin_insn c1) = Some out"
      "(c', rc) = (case out of Stop c2 \<Rightarrow> (c2, - 1) | Cont c2 \<Rightarrow>
         (let c3 = finish_step inst (cpu_load_reg c1) (cpu_load_val c1) c2 in
          (c3, if cpu_halted c3 \<or> cpu_trapped c3 then - 1 else 0)))"
      using assms nh unfolding mips_step_def by (auto simp: Let_def bind_eq_Some_conv)
    show thesis
    proof (cases out)
      case (Cont c2)
      then show thesis using nh r by (intro completed [of inst c1 c2]) (simp_all add: Let_def)
    next
      case (Stop c2)
      then show thesis using nh r by (intro stopped [of inst c1]) simp_all
    qed
  qed
qed

lemma step_r0:
  assumes q: "bus_quiet env" and s: "mips_step env c = Some (c', rc)" and z: "cpu_r c 0 = 0"
  shows "cpu_r c' 0 = 0"
  using s
proof (cases rule: mips_step_cases)
  case (stopped inst c1)
  have "quiet (c\<lparr> cpu_cur_pc := cpu_pc c, cpu_in_delay := cpu_branch_taken c \<rparr>) c1"
    by (rule bus_quietD(3) [OF q stopped(3)])
  then have "cpu_r c1 0 = 0" using z by (auto simp: quiet_def)
  then show ?thesis using exec_stop [OF stopped(4)] by (simp add: begin_insn_def)
next
  case (completed inst c1 c2)
  then show ?thesis by (simp add: finish_step_def set_r_def Let_def)
qed (use z in simp_all)

unbundle bit_operations_syntax

definition fetch :: "'m mips_env \<Rightarrow> 'm mips_cpu \<Rightarrow> (u32 \<times> 'm mips_cpu) option" where
  "fetch env c = env_read32 env (cpu_pc c) (c\<lparr> cpu_cur_pc := cpu_pc c, cpu_in_delay := cpu_branch_taken c \<rparr>)"

definition is_syscall :: "u32 \<Rightarrow> bool" where
  "is_syscall inst \<longleftrightarrow> f_op inst = 0 \<and> f_funct inst = 0x0C"

lemma dest_zero_or: "delay_slot_dest inst < 32"
proof -
  have "unat (w AND 0x1F) < 32" for w :: u32
    using unat_and_mask [of w 5] by (simp add: mask_eq_exp_minus_1)
  then show ?thesis by (simp add: delay_slot_dest_def Let_def f_rt_def f_rd_def)
qed

lemma step_frame:
  assumes q: "bus_quiet env" and s: "mips_step env c = Some (c', 0)"
    and f: "fetch env c = Some (inst, c1)" and ns: "\<not> is_syscall inst"
  shows "cpu_pc c' = cpu_next_pc c" "cpu_cur_pc c' = cpu_pc c" "cpu_in_delay c' = cpu_branch_taken c"
    "cpu_branch_taken c' \<or> cpu_next_pc c' = cpu_next_pc c + 4" "cpu_cycles c' = cpu_cycles c + 1"
    "f_op inst \<noteq> 0x11 \<Longrightarrow> k \<noteq> 0 \<Longrightarrow> k \<noteq> delay_slot_dest inst \<Longrightarrow>
       cpu_r c' k = (if k = cpu_load_reg c then cpu_load_val c else cpu_r c k)"
    "\<exists>c2. exec_insn env inst (cpu_load_reg c) (cpu_load_val c) (begin_insn c1) = Some (Cont c2) \<and>
       c' = finish_step inst (cpu_load_reg c) (cpu_load_val c) c2"
    "quiet (c\<lparr> cpu_cur_pc := cpu_pc c, cpu_in_delay := cpu_branch_taken c \<rparr>) c1"
proof -
  have "\<exists>c2. exec_insn env inst (cpu_load_reg c1) (cpu_load_val c1) (begin_insn c1) = Some (Cont c2) \<and>
       c' = finish_step inst (cpu_load_reg c1) (cpu_load_val c1) c2"
    using s by (cases rule: mips_step_cases) (use f in \<open>auto simp: fetch_def\<close>)
  then obtain c2 where e: "exec_insn env inst (cpu_load_reg c1) (cpu_load_val c1) (begin_insn c1) = Some (Cont c2)"
    "c' = finish_step inst (cpu_load_reg c1) (cpu_load_val c1) c2" by blast
  show qc: "quiet (c\<lparr> cpu_cur_pc := cpu_pc c, cpu_in_delay := cpu_branch_taken c \<rparr>) c1"
    using bus_quietD(3) [OF q] f unfolding fetch_def by blast
  then obtain m h where c1: "c1 = c\<lparr> cpu_cur_pc := cpu_pc c, cpu_in_delay := cpu_branch_taken c, cpu_mem := m, cpu_halted := h \<rparr>"
    by (auto simp: quiet_def)
  have fr: "insn_frame inst (begin_insn c1) c2"
    using exec_frame [OF q _ e(1)] ns by (simp add: is_syscall_def)
  show "cpu_pc c' = cpu_next_pc c" "cpu_cur_pc c' = cpu_pc c" "cpu_in_delay c' = cpu_branch_taken c"
    "cpu_branch_taken c' \<or> cpu_next_pc c' = cpu_next_pc c + 4" "cpu_cycles c' = cpu_cycles c + 1"
    using fr by (auto simp: e(2) insn_frame_def finish_step_def set_r_def Let_def begin_insn_def c1)
  show "cpu_r c' k = (if k = cpu_load_reg c then cpu_load_val c else cpu_r c k)"
    if "f_op inst \<noteq> 0x11" "k \<noteq> 0" "k \<noteq> delay_slot_dest inst"
    using fr that by (auto simp: e(2) insn_frame_def finish_step_def set_r_def Let_def begin_insn_def c1)
  show "\<exists>c2. exec_insn env inst (cpu_load_reg c) (cpu_load_val c) (begin_insn c1) = Some (Cont c2) \<and>
       c' = finish_step inst (cpu_load_reg c) (cpu_load_val c) c2"
    using e by (auto simp: c1)
qed

subsection \<open>The sandbox's bus\<close>

lemma bus_done_quiet: "quiet c (bus_done m c)"
proof -
  have "bus_done m c = c\<lparr> cpu_mem := (cpu_mem c)\<lparr> g_mem := m \<rparr>, cpu_halted := gm_faulted m \<or> cpu_halted c \<rparr>"
    by (simp add: bus_done_def mips_halt_def Let_def)
  then show ?thesis unfolding quiet_def by blast
qed

lemma user_bus_quiet: "bus_quiet (mips_user_env sl fp)"
  unfolding bus_quiet_def mips_user_env_def skj_bus_r8_def skj_bus_r16_def skj_bus_r32_def
    skj_bus_w8_def skj_bus_w16_def skj_bus_w32_def
  by (auto simp: bind_eq_Some_conv bus_done_quiet)

text \<open>A process with the given code at \<open>0x1000\<close>, for concrete runs.\<close>

definition demo_layer :: "unit syscall_layer" where
  "demo_layer = \<lparr> sl_private = (\<lambda>p _ _ _ _. (SKJ_PRIV_NO, p)), sl_syscall = (\<lambda>p _ _ _ _ _ _ _. (- 38, p)) \<rparr>"

definition demo_fp :: mips_fp where
  "demo_fp = \<lparr> fp_bin = (\<lambda>_ _ x _. x), fp_un = (\<lambda>_ _ x. x), fp_to_single = (\<lambda>x. ucast x), fp_to_double = (\<lambda>x. ucast x),
     fp_to_w_round = (\<lambda>_ _. None), fp_unordered = (\<lambda>_ _. False), fp_less = (\<lambda>_ _. False), fp_equal = (\<lambda>x y. x = y),
     fp_of_int32 = (\<lambda>x. x), fp_of_int64 = (\<lambda>x. ucast x) \<rparr>"

definition demo_env :: "unit guest_proc mips_env" where
  "demo_env = mips_user_env demo_layer demo_fp"

definition demo_cpu :: "u32 list \<Rightarrow> unit user_cpu" where
  "demo_cpu code =
     mips_ready \<lparr> g_mem = (case gm_write 0x1000 (concat (map (bytes_of_word 4 False) code)) demo_ram of
                             Some m \<Rightarrow> m | None \<Rightarrow> demo_ram),
                  g_big_endian = False, g_park = 0, g_exited = False, g_can_park = False, g_rest = () \<rparr> 0x1000 0x1800"

text \<open>The instructions fetched and the results of two steps, for the concrete runs below.\<close>

definition two_steps :: "'m mips_env \<Rightarrow> 'm mips_cpu \<Rightarrow> ('m mips_cpu \<Rightarrow> 'b) \<Rightarrow> ('m mips_cpu \<Rightarrow> 'b) \<Rightarrow> (u32 \<times> int \<times> 'b \<times> u32 \<times> int \<times> 'b) option" where
  "two_steps env c f g =
     do { (i1, _) \<leftarrow> fetch env c; (c1, r1) \<leftarrow> mips_step env c;
          (i2, _) \<leftarrow> fetch env c1; (c2, r2) \<leftarrow> mips_step env c1; Some (i1, r1, f c1, i2, r2, g c2) }"

lemma two_stepsD:
  assumes "two_steps env c f g = Some (i1, r1, x1, i2, r2, x2)"
  obtains c1 c2 s1 s2 where "fetch env c = Some (i1, s1)" "mips_step env c = Some (c1, r1)" "f c1 = x1"
    "fetch env c1 = Some (i2, s2)" "mips_step env c1 = Some (c2, r2)" "g c2 = x2"
  using assms by (auto simp: two_steps_def bind_eq_Some_conv)

text \<open>
  C31: Register 0 reads as zero after every step of the sandboxed MIPS core, whatever the program,
  the memory, the system-call layer and the host's floating point.
\<close>

theorem mips_zero_register:
  assumes "mips_step (mips_user_env sl fp) c = Some (c', rc)" "cpu_r c 0 = 0"
  shows "cpu_r c' 0 = 0"
  by (rule step_r0 [OF user_bus_quiet assms])

lemma demo_addu: "map_option (\<lambda>(c, rc). rc) (mips_step demo_env (demo_cpu [0x03A00021])) = Some 0"
  by code_simp

theorem mips_zero_register_witness:
  "\<exists>c'. mips_step demo_env (demo_cpu [0x03A00021]) = Some (c', 0) \<and> cpu_r c' 0 = 0"
proof -
  obtain c' where c': "mips_step demo_env (demo_cpu [0x03A00021]) = Some (c', 0)" using demo_addu by auto
  have "cpu_r (demo_cpu [0x03A00021]) 0 = 0" by code_simp
  from mips_zero_register [OF c' [unfolded demo_env_def] this] c' show ?thesis by blast
qed


lemma demo_branch:
  "two_steps demo_env (demo_cpu [0x10000003, 0]) (\<lambda>c. (cpu_branch_taken c, cpu_next_pc c)) (\<lambda>c. (True, 0)) =
     Some (0x10000003, 0, (True, 0x1010), 0, 0, (True, 0))"
  by code_simp

lemma demo_not_syscall: "\<not> is_syscall 0x10000003" "\<not> is_syscall 0" "\<not> is_syscall 0x25290001" "\<not> is_syscall 0x8FA80000"
  by code_simp+




lemma demo_load:
  "two_steps demo_env (demo_cpu [0x8FA80000, 0x25290001]) (\<lambda>c. cpu_load_reg c) (\<lambda>c. 0) =
     Some (0x8FA80000, 0, 8, 0x25290001, 0, 0)"
  by code_simp

lemma demo_load_dest: "f_op 0x25290001 \<noteq> 0x11" "(8 :: nat) \<noteq> delay_slot_dest 0x25290001"
  by code_simp+


text \<open>
  \<open>mfc1\<close> is missing from \<open>delay_slot_dest\<close>: when it writes the register a pending load is about to
  fill, the stale load value wins and the moved value is lost.  Here \<open>lw $t0, 0($sp)\<close> is followed by
  \<open>mfc1 $t0, $f0\<close> with \<open>$f0 = 7\<close>; afterwards \<open>$t0\<close> holds the word from memory, 0.
\<close>

theorem mfc1_loses_to_pending_load:
  "(let c0 = (demo_cpu [0x8FA80000, 0x44080000])\<lparr> cpu_fpr := (\<lambda>_. 7) \<rparr>
    in mips_step demo_env c0 \<bind> (\<lambda>(c1, _). mips_step demo_env c1) \<bind> (\<lambda>(c2, rc). Some (cpu_r c2 8, cpu_fpr c2 0, rc)))
   = Some (0, 7, 0)"
  by code_simp

text \<open>
  \<open>break\<close> reads its code from bits 25 to 6, while the assembler puts it in bits 25 to 16: the
  \<open>break 7\<close> of a divide-by-zero check raises \<open>SIGTRAP\<close>, where the code means \<open>SIGFPE\<close>.
\<close>

theorem break_code_misread:
  "map_option (\<lambda>(c, rc). (cpu_trap_signal c, cpu_trap_addr c, rc)) (mips_step demo_env (demo_cpu [0x0007000D])) =
     Some (SIG_TRAP, 0x1C00, - 1)"
  by code_simp

unbundle bit_operations_syntax

subsection \<open>Arithmetic\<close>

lemma neg_bit31: "sint (w :: u32) < 0 \<longleftrightarrow> bit w 31"
  using bit_last_iff [of w] by simp

lemma sint_u32_range: "- 2147483648 \<le> sint (w :: u32)" "sint (w :: u32) < 2147483648"
  using sint_ge [of w] sint_lt [of w] by simp_all

lemma signed_wrap:
  assumes "- 4294967296 \<le> s" "s < 4294967296"
  shows "signed_take_bit 31 (s :: int) =
    (if s < - 2147483648 then s + 4294967296 else if s \<ge> 2147483648 then s - 4294967296 else s)"
proof -
  have e: "signed_take_bit 31 s = (s + 2147483648) mod 4294967296 - 2147483648"
    by (simp add: signed_take_bit_eq_take_bit_shift take_bit_eq_mod)
  consider "s < - 2147483648" | "s \<ge> 2147483648" | "- 2147483648 \<le> s" "s < 2147483648" by linarith
  then show ?thesis
  proof cases
    case 1
    have "(s + 2147483648) mod 4294967296 = (s + 2147483648 + 4294967296) mod 4294967296" by (rule mod_add_self2 [symmetric])
    also have "\<dots> = s + 2147483648 + 4294967296" using 1 assms by (intro mod_pos_pos_trivial) simp_all
    finally show ?thesis using 1 e by simp
  next
    case 2
    have "(s + 2147483648) mod 4294967296 = (s + 2147483648 - 4294967296) mod 4294967296" by (rule minus_mod_self2 [symmetric])
    also have "\<dots> = s + 2147483648 - 4294967296" using 2 assms by (intro mod_pos_pos_trivial) simp_all
    finally show ?thesis using 2 e by simp
  next
    case 3
    then show ?thesis using e by simp
  qed
qed

lemma add_overflows_iff:
  "add_overflows a b \<longleftrightarrow> sint a + sint b < - 2147483648 \<or> sint a + sint b \<ge> 2147483648"
proof -
  have r: "sint (a + b) = signed_take_bit 31 (sint a + sint b)" by (simp add: sint_word_ariths)
  have "add_overflows a b \<longleftrightarrow> ((sint a < 0) \<noteq> (sint (a + b) < 0)) \<and> ((sint b < 0) \<noteq> (sint (a + b) < 0))"
    unfolding add_overflows_def Let_def neg_bit31 by (simp add: bit_simps)
  then show ?thesis
    using sint_u32_range [of a] sint_u32_range [of b] signed_wrap [of "sint a + sint b"] unfolding r
    by (simp split: if_splits) linarith+
qed

lemma sub_overflows_iff:
  "sub_overflows a b \<longleftrightarrow> sint a - sint b < - 2147483648 \<or> sint a - sint b \<ge> 2147483648"
proof -
  have r: "sint (a - b) = signed_take_bit 31 (sint a - sint b)" by (simp add: sint_word_ariths)
  have "sub_overflows a b \<longleftrightarrow> ((sint a < 0) \<noteq> (sint b < 0)) \<and> ((sint a < 0) \<noteq> (sint (a - b) < 0))"
    unfolding sub_overflows_def Let_def neg_bit31 by (simp add: bit_simps)
  then show ?thesis
    using sint_u32_range [of a] sint_u32_range [of b] signed_wrap [of "sint a - sint b"] unfolding r
    by (simp split: if_splits) linarith+
qed


text \<open>The mathematical result of the trapping instructions \<open>add\<close>, \<open>sub\<close> and \<open>addi\<close>.\<close>

definition signed_result :: "u32 \<Rightarrow> 'm mips_cpu \<Rightarrow> int option" where
  "signed_result inst c =
     (let a = sint (cpu_r c (f_rs inst)) in
      if f_op inst = 0 \<and> f_funct inst = 0x20 then Some (a + sint (cpu_r c (f_rt inst)))
      else if f_op inst = 0 \<and> f_funct inst = 0x22 then Some (a - sint (cpu_r c (f_rt inst)))
      else if f_op inst = 8 then Some (a + sint (f_imm_se inst))
      else None)"

lemma sint_word_of_int_u32: "- 2147483648 \<le> v \<Longrightarrow> v < 2147483648 \<Longrightarrow> sint (word_of_int v :: u32) = v"
  by (simp add: signed_of_int signed_take_bit_int_eq_self)

text \<open>
  C32: \<open>add\<close>, \<open>sub\<close> and \<open>addi\<close> trap exactly when the signed result does not fit in 32 bits, leaving
  the registers alone; otherwise the destination holds that result.
\<close>

theorem mips_signed_overflow:
  assumes "signed_result inst c = Some v"
  shows "if - 2147483648 \<le> v \<and> v < 2147483648
    then exec_insn env inst dreg dval c = Some (Cont (set_r (delay_slot_dest inst) (word_of_int v) c)) \<and>
         sint (word_of_int v :: u32) = v
    else \<exists>c2. exec_insn env inst dreg dval c = Some (Stop c2) \<and> cpu_r c2 = cpu_r c \<and> cpu_trapped c2 \<and>
         cpu_trap_type c2 = MIPS_TR_OVERFLOW \<and> cpu_trap_signal c2 = SIG_FPE"
proof -
  let ?a = "cpu_r c (f_rs inst)" and ?b = "cpu_r c (f_rt inst)"
  have word: "word_of_int (sint x + sint y) = x + y" "word_of_int (sint x - sint y) = x - y" for x y :: u32
    by (simp_all flip: wi_hom_syms(1,2))
  consider (add) "f_op inst = 0" "f_funct inst = 0x20" "v = sint ?a + sint ?b"
    | (sub) "f_op inst = 0" "f_funct inst = 0x22" "v = sint ?a - sint ?b"
    | (addi) "f_op inst = 8" "v = sint ?a + sint (f_imm_se inst)"
    using assms by (auto simp: signed_result_def Let_def split: if_splits)
  then show ?thesis
  proof cases
    case add
    have "word_of_int v = ?a + ?b" "add_overflows ?a ?b \<longleftrightarrow> v < - 2147483648 \<or> v \<ge> 2147483648"
      by (simp_all add: add(3) word add_overflows_iff)
    then show ?thesis using add(1,2) sint_word_of_int_u32 [of v]
      by (auto simp: exec_insn_def exec_special_def wr_def trap_stop_def mips_trap_def delay_slot_dest_def)
  next
    case sub
    have "word_of_int v = ?a - ?b" "sub_overflows ?a ?b \<longleftrightarrow> v < - 2147483648 \<or> v \<ge> 2147483648"
      by (simp_all add: sub(3) word sub_overflows_iff)
    then show ?thesis using sub(1,2) sint_word_of_int_u32 [of v]
      by (auto simp: exec_insn_def exec_special_def wr_def trap_stop_def mips_trap_def delay_slot_dest_def)
  next
    case addi
    have "word_of_int v = ?a + f_imm_se inst" "add_overflows ?a (f_imm_se inst) \<longleftrightarrow> v < - 2147483648 \<or> v \<ge> 2147483648"
      by (simp_all add: addi(2) word add_overflows_iff)
    then show ?thesis using addi(1) sint_word_of_int_u32 [of v]
      by (auto simp: exec_insn_def exec_imm_def wr_def trap_stop_def mips_trap_def delay_slot_dest_def)
  qed
qed

theorem mips_signed_overflow_witness:
  "\<exists>c2. exec_insn demo_env 0x23A80004 0 0 ((demo_cpu [])\<lparr> cpu_r := (\<lambda>_. 0x7FFFFFFE) \<rparr>) = Some (Stop c2) \<and>
     cpu_trap_type c2 = MIPS_TR_OVERFLOW"
proof -
  have "signed_result 0x23A80004 ((demo_cpu [])\<lparr> cpu_r := (\<lambda>_. 0x7FFFFFFE) \<rparr>) = Some 2147483650"
    by (simp add: signed_result_def) code_simp
  from mips_signed_overflow [OF this, of demo_env 0 0] show ?thesis by auto
qed

lemma halves_cat: "word_cat (ucast (drop_bit 32 (p :: u64)) :: u32) (ucast p :: u32) = p"
  by (rule bit_word_eqI) (auto simp: bit_word_cat_iff bit_simps)

lemma sint_mult_u64: "sint ((scast (a :: u32) :: u64) * scast b) = sint a * sint (b :: u32)"
proof -
  have s: "sint (scast x :: u64) = sint x" for x :: u32
    by (simp add: signed_scast_eq signed_take_bit_int_eq_self_iff) (use sint_u32_range [of x] in simp)
  have r: "\<bar>sint a\<bar> \<le> 2147483648" "\<bar>sint b\<bar> \<le> 2147483648"
    using sint_u32_range [of a] sint_u32_range [of b] by auto
  have "\<bar>sint a * sint b\<bar> \<le> 2147483648 * 2147483648"
    unfolding abs_mult using r by (intro mult_mono) auto
  then have "signed_take_bit 63 (sint a * sint b) = sint a * sint b"
    by (intro signed_take_bit_int_eq_self) auto
  then show ?thesis by (simp add: sint_word_ariths s)
qed

lemma unat_mult_u64: "unat ((ucast (a :: u32) :: u64) * ucast b) = unat a * unat (b :: u32)"
proof -
  have "unat a * unat b \<le> 4294967295 * 4294967295"
    using unat_u32 [of a] unat_u32 [of b] by (intro mult_mono) auto
  then show ?thesis using unat_mult_lem [of "ucast a :: u64" "ucast b"] by (simp add: unat_u64_of_u32)
qed

lemma sdiv_props:
  assumes "d \<noteq> (0 :: int)"
  shows "n sdiv d * d + n smod d = n" "\<bar>n smod d\<bar> < \<bar>d\<bar>" "n smod d = 0 \<or> sgn (n smod d) = sgn n"
proof -
  have m: "n smod d = sgn n * (\<bar>n\<bar> mod \<bar>d\<bar>)" by (simp add: signed_modulo_int_def)
  have r: "0 \<le> \<bar>n\<bar> mod \<bar>d\<bar>" "\<bar>n\<bar> mod \<bar>d\<bar> < \<bar>d\<bar>" using assms by simp_all
  show "n sdiv d * d + n smod d = n" by (rule sdiv_mult_smod_eq)
  show "\<bar>n smod d\<bar> < \<bar>d\<bar>" using r assms by (simp add: m abs_mult abs_sgn_eq)
  have "sgn n * x = 0 \<or> sgn (sgn n * x) = sgn n" if "x \<ge> 0" for x :: int
    using that by (cases "x = 0") (auto simp: sgn_mult sgn_if)
  then show "n smod d = 0 \<or> sgn (n smod d) = sgn n" using r(1) by (simp only: m)
qed

lemma sdiv_fits:
  assumes "d \<noteq> (0 :: int)" "\<not> (n = - 2147483648 \<and> d = - 1)" "- 2147483648 \<le> n" "n < 2147483648" "- 2147483648 \<le> d" "d < 2147483648"
  shows "- 2147483648 \<le> n sdiv d" "n sdiv d < 2147483648" "- 2147483648 \<le> n smod d" "n smod d < 2147483648"
proof -
  have "\<bar>n smod d\<bar> < \<bar>d\<bar>" by (rule sdiv_props(2) [OF assms(1)])
  then show "- 2147483648 \<le> n smod d" "n smod d < 2147483648" using assms(5,6) by (auto simp: abs_if split: if_splits)
  have q: "n sdiv d = sgn n * sgn d * (\<bar>n\<bar> div \<bar>d\<bar>)" by (simp add: signed_divide_int_def)
  have le: "\<bar>n\<bar> div \<bar>d\<bar> \<le> \<bar>n\<bar>" using assms(1) zdiv_mono2 [of "\<bar>n\<bar>" 1 "\<bar>d\<bar>"] by auto
  have nn: "0 \<le> \<bar>n\<bar> div \<bar>d\<bar>" by (simp add: pos_imp_zdiv_nonneg_iff assms(1))
  show "- 2147483648 \<le> n sdiv d"
    using le nn assms(3,4) by (auto simp: q sgn_if)
  show "n sdiv d < 2147483648"
  proof (cases "n = - 2147483648 \<and> d < 0")
    case True
    then have "\<bar>d\<bar> \<ge> 2" using assms(1,2) by auto
    then have "\<bar>n\<bar> div \<bar>d\<bar> \<le> \<bar>n\<bar> div 2" by (intro zdiv_mono2) auto
    then show ?thesis unfolding q using True by (simp add: sgn_if)
  next
    case False
    then show ?thesis using le nn assms(3,4) by (auto simp: q sgn_if)
  qed
qed

text \<open>
  C33: \<open>mult\<close> and \<open>multu\<close> leave the full 64-bit product in \<open>hi:lo\<close>; \<open>div\<close> and \<open>divu\<close> leave quotient
  and remainder, truncating toward zero, for every divisor but 0 and the one signed quotient that
  does not fit.
\<close>

theorem mips_mult_div:
  "sint (word_cat (cpu_hi (exec_mult a b c)) (cpu_lo (exec_mult a b c)) :: u64) = sint a * sint b \<and>
   unat (word_cat (cpu_hi (exec_multu a b c)) (cpu_lo (exec_multu a b c)) :: u64) = unat a * unat b \<and>
   (b \<noteq> 0 \<and> \<not> (a = 0x80000000 \<and> b = 0xFFFFFFFF) \<longrightarrow>
      sint (cpu_lo (exec_div a b c)) * sint b + sint (cpu_hi (exec_div a b c)) = sint a \<and>
      \<bar>sint (cpu_hi (exec_div a b c))\<bar> < \<bar>sint b\<bar> \<and>
      (cpu_hi (exec_div a b c) = 0 \<or> sgn (sint (cpu_hi (exec_div a b c))) = sgn (sint a))) \<and>
   (b \<noteq> 0 \<longrightarrow>
      unat (cpu_lo (exec_divu a b c)) * unat b + unat (cpu_hi (exec_divu a b c)) = unat a \<and>
      unat (cpu_hi (exec_divu a b c)) < unat b)"
proof (intro conjI impI)
  show "sint (word_cat (cpu_hi (exec_mult a b c)) (cpu_lo (exec_mult a b c)) :: u64) = sint a * sint b"
    by (simp add: exec_mult_def Let_def halves_cat sint_mult_u64)
  show "unat (word_cat (cpu_hi (exec_multu a b c)) (cpu_lo (exec_multu a b c)) :: u64) = unat a * unat b"
    by (simp add: exec_multu_def Let_def halves_cat unat_mult_u64)
  assume b: "b \<noteq> 0"
  then show "unat (cpu_lo (exec_divu a b c)) * unat b + unat (cpu_hi (exec_divu a b c)) = unat a"
    "unat (cpu_hi (exec_divu a b c)) < unat b"
    by (simp_all add: exec_divu_def unat_div unat_mod unat_gt_0)
next
  assume ab: "b \<noteq> 0 \<and> \<not> (a = 0x80000000 \<and> b = 0xFFFFFFFF)"
  have inj: "x = y" if "sint x = sint y" for x y :: u32 using that by (rule signed_word_eqI)
  have d0: "sint b \<noteq> 0" using ab inj [of b 0] by auto
  have m1: "sint b = - 1 \<longleftrightarrow> b = 0xFFFFFFFF" "sint a = - 2147483648 \<longleftrightarrow> a = 0x80000000"
    using inj [of b "0xFFFFFFFF"] inj [of a "0x80000000"] by auto
  have ov: "\<not> (sint a = - 2147483648 \<and> sint b = - 1)" using ab m1 by blast
  note fits = sdiv_fits [OF d0 ov sint_u32_range [of a] sint_u32_range [of b]]
  have q: "sint (cpu_lo (exec_div a b c)) = sint a sdiv sint b" "sint (cpu_hi (exec_div a b c)) = sint a smod sint b"
    using d0 ab m1 fits by (auto simp: exec_div_def Let_def sint_word_of_int_u32)
  note p = sdiv_props [OF d0, of "sint a"]
  show "sint (cpu_lo (exec_div a b c)) * sint b + sint (cpu_hi (exec_div a b c)) = sint a"
    "\<bar>sint (cpu_hi (exec_div a b c))\<bar> < \<bar>sint b\<bar>" unfolding q by (rule p(1), rule p(2))
  show "cpu_hi (exec_div a b c) = 0 \<or> sgn (sint (cpu_hi (exec_div a b c))) = sgn (sint a)"
    using p(3) inj [of "cpu_hi (exec_div a b c)" 0] unfolding q [symmetric] by auto
qed


theorem mips_mult_div_witness:
  "sint (cpu_lo (exec_div 0xFFFFFFF9 2 (demo_cpu []))) * 2 + sint (cpu_hi (exec_div 0xFFFFFFF9 2 (demo_cpu []))) = - 7 \<and>
   unat (cpu_lo (exec_divu 7 2 (demo_cpu []))) * 2 + unat (cpu_hi (exec_divu 7 2 (demo_cpu []))) = 7"
  using mips_mult_div [of "0xFFFFFFF9" 2 "demo_cpu []"] mips_mult_div [of 7 2 "demo_cpu []"] by simp

end
