(* ===== verification/Mips_Machine.thy ===== *)
theory Mips_Machine
  imports Mips_Emu_Correct
begin

text \<open>
  The MIPS core on its bus. The locale \<open>mips_bus\<close> states what the core relies on: a bus callback is
  defined on a good memory, changes only the memory and \<open>halted\<close>, and moves little-endian bytes.
  It is interpreted on the sandbox's callbacks over guest memory. Its consequences: the unaligned
  load and store pairs move exactly their four bytes, a step is defined and keeps the memory good,
  and \<open>mips_run\<close> is the fold of \<open>mips_step\<close>, so a batch can be split anywhere.
\<close>

unbundle bit_operations_syntax

subsection \<open>Unaligned access\<close>

lemma bit_byte_range: "\<not> n < 8 \<Longrightarrow> \<not> bit (x :: u8) n"
  using bit_imp_le_length [of x n] by auto

lemma byte_word_bit:
  "bit (word_of_bytes False [b0, b1, b2, b3]) n =
     (if n < 8 then bit b0 n else if n < 16 then bit b1 (n - 8) else if n < 24 then bit b2 (n - 16)
      else n < 32 \<and> bit b3 (n - 24))"
  by (auto simp: word_of_bytes_def bit_simps bit_byte_range)

lemma byte_word_eqI:
  assumes "\<And>n. n < 32 \<Longrightarrow> bit (w :: u32) n =
     (if n < 8 then bit b0 n else if n < 16 then bit b1 (n - 8) else if n < 24 then bit b2 (n - 16) else bit b3 (n - 24))"
  shows "w = word_of_bytes False [b0, b1, b2, b3]"
  by (rule bit_word_eqI) (simp add: assms byte_word_bit)

lemma bit_mask_const:
  "bit (0x00FFFFFF :: u32) n \<longleftrightarrow> n < 24" "bit (0x0000FFFF :: u32) n \<longleftrightarrow> n < 16" "bit (0x000000FF :: u32) n \<longleftrightarrow> n < 8"
  "bit (0xFFFFFF00 :: u32) n \<longleftrightarrow> 8 \<le> n \<and> n < 32" "bit (0xFFFF0000 :: u32) n \<longleftrightarrow> 16 \<le> n \<and> n < 32"
  "bit (0xFF000000 :: u32) n \<longleftrightarrow> 24 \<le> n \<and> n < 32"
proof -
  have e: "(0x00FFFFFF :: u32) = mask 24" "(0x0000FFFF :: u32) = mask 16" "(0x000000FF :: u32) = mask 8"
    "(0xFFFFFF00 :: u32) = NOT (mask 8)" "(0xFFFF0000 :: u32) = NOT (mask 16)" "(0xFF000000 :: u32) = NOT (mask 24)"
    by (simp_all add: mask_eq_exp_minus_1)
  show "bit (0x00FFFFFF :: u32) n \<longleftrightarrow> n < 24" unfolding e(1) by (auto simp: bit_mask_iff)
  show "bit (0x0000FFFF :: u32) n \<longleftrightarrow> n < 16" unfolding e(2) by (auto simp: bit_mask_iff)
  show "bit (0x000000FF :: u32) n \<longleftrightarrow> n < 8" unfolding e(3) by (auto simp: bit_mask_iff)
  show "bit (0xFFFFFF00 :: u32) n \<longleftrightarrow> 8 \<le> n \<and> n < 32" unfolding e(4) by (auto simp: bit_not_iff bit_mask_iff)
  show "bit (0xFFFF0000 :: u32) n \<longleftrightarrow> 16 \<le> n \<and> n < 32" unfolding e(5) by (auto simp: bit_not_iff bit_mask_iff)
  show "bit (0xFF000000 :: u32) n \<longleftrightarrow> 24 \<le> n \<and> n < 32" unfolding e(6) by (auto simp: bit_not_iff bit_mask_iff)
qed

lemma byte_ranges:
  assumes "(n :: nat) < 32"
  obtains "n < 8" | k where "n = k + 8" "k < 8" | k where "n = k + 16" "k < 8" | k where "n = k + 24" "k < 8"
proof -
  consider "n < 8" | "8 \<le> n" "n < 16" | "16 \<le> n" "n < 24" | "24 \<le> n" "n < 32" using assms by fastforce
  then show thesis
  proof cases
    case 2 then show thesis by (intro that(2) [of "n - 8"]) auto
  next
    case 3 then show thesis by (intro that(3) [of "n - 16"]) auto
  next
    case 4 then show thesis by (intro that(4) [of "n - 24"]) auto
  qed (rule that(1))
qed

lemma unat_and3: "unat ((a :: u32) AND 3) = unat a mod 4"
  using unat_and_mask [of a 2] by (simp add: mask_eq_exp_minus_1)

lemma and3_add3:
  "(a :: u32) AND 3 = 0 \<Longrightarrow> (a + 3) AND 3 = 3" "a AND 3 = 1 \<Longrightarrow> (a + 3) AND 3 = 0"
  "a AND 3 = 2 \<Longrightarrow> (a + 3) AND 3 = 1" "a AND 3 = 3 \<Longrightarrow> (a + 3) AND 3 = 2"
proof -
  have s: "unat ((a + 3) AND 3) = (unat (a AND 3) + 3) mod 4"
    by (simp add: unat_and3 unat_word_ariths mod_mod_cancel mod_add_left_eq)
  show "(a :: u32) AND 3 = 0 \<Longrightarrow> (a + 3) AND 3 = 3" "a AND 3 = 1 \<Longrightarrow> (a + 3) AND 3 = 0"
    "a AND 3 = 2 \<Longrightarrow> (a + 3) AND 3 = 1" "a AND 3 = 3 \<Longrightarrow> (a + 3) AND 3 = 2"
    by (rule unsigned_word_eqI [where 'a = nat], simp add: s)+
qed

lemma word_eqI32: "(\<And>n. n < 32 \<Longrightarrow> bit x n = bit y n) \<Longrightarrow> x = (y :: u32)"
  by (rule bit_word_eqI) simp

text \<open>The two halves of an unaligned load, for each position in the aligned word.\<close>

lemma unaligned_merge:
  assumes w0_def: "w0 = word_of_bytes False [b0, b1, b2, b3]" and w1_def: "w1 = word_of_bytes False [b4, b5, b6, b7]"
  shows "a AND 3 = 0 \<Longrightarrow> lwl_merge (a + 3) w0 (lwr_merge a w0 cur) = word_of_bytes False [b0, b1, b2, b3]"
    "a AND 3 = 1 \<Longrightarrow> lwl_merge (a + 3) w1 (lwr_merge a w0 cur) = word_of_bytes False [b1, b2, b3, b4]"
    "a AND 3 = 2 \<Longrightarrow> lwl_merge (a + 3) w1 (lwr_merge a w0 cur) = word_of_bytes False [b2, b3, b4, b5]"
    "a AND 3 = 3 \<Longrightarrow> lwl_merge (a + 3) w1 (lwr_merge a w0 cur) = word_of_bytes False [b3, b4, b5, b6]"
proof -
  note k = and3_add3 [of a]
  show "lwl_merge (a + 3) w0 (lwr_merge a w0 cur) = word_of_bytes False [b0, b1, b2, b3]" if "a AND 3 = 0"
    using that k by (simp add: lwl_merge_def w0_def)
  show "lwl_merge (a + 3) w1 (lwr_merge a w0 cur) = word_of_bytes False [b1, b2, b3, b4]" if "a AND 3 = 1"
    by (rule word_eqI32, erule byte_ranges)
      (use that k in \<open>auto simp: lwl_merge_def lwr_merge_def w0_def w1_def byte_word_bit bit_and_iff bit_or_iff bit_push_bit_iff bit_drop_bit_eq bit_mask_const simp del: bit_numeral_word_iff\<close>)
  show "lwl_merge (a + 3) w1 (lwr_merge a w0 cur) = word_of_bytes False [b2, b3, b4, b5]" if "a AND 3 = 2"
    by (rule word_eqI32, erule byte_ranges)
      (use that k in \<open>auto simp: lwl_merge_def lwr_merge_def w0_def w1_def byte_word_bit bit_and_iff bit_or_iff bit_push_bit_iff bit_drop_bit_eq bit_mask_const simp del: bit_numeral_word_iff\<close>)
  show "lwl_merge (a + 3) w1 (lwr_merge a w0 cur) = word_of_bytes False [b3, b4, b5, b6]" if "a AND 3 = 3"
    by (rule word_eqI32, erule byte_ranges)
      (use that k in \<open>auto simp: lwl_merge_def lwr_merge_def w0_def w1_def byte_word_bit bit_and_iff bit_or_iff bit_push_bit_iff bit_drop_bit_eq bit_mask_const simp del: bit_numeral_word_iff\<close>)
qed


lemma bytes_of_word_bytes: "bytes_of_word 4 False (word_of_bytes False [b0, b1, b2, b3]) = [b0, b1, b2, b3]"
proof -
  have "ucast (word_of_bytes False [b0, b1, b2, b3]) = b0" "ucast (drop_bit 8 (word_of_bytes False [b0, b1, b2, b3])) = b1"
    "ucast (drop_bit 16 (word_of_bytes False [b0, b1, b2, b3])) = b2" "ucast (drop_bit 24 (word_of_bytes False [b0, b1, b2, b3])) = b3"
    by (rule bit_word_eqI, simp add: bit_ucast_iff bit_drop_bit_eq byte_word_bit)+
  then show ?thesis by (simp add: bytes_of_word_def)
qed

lemma word_of_bytes_word: "word_of_bytes False (bytes_of_word 4 False v) = v"
  using word_bytes_inverse [of 4 False v] by (simp add: take_bit_word_eq_self)

text \<open>The aligned words the two halves of an unaligned store leave.\<close>

lemma unaligned_store_merge:
  assumes r: "reg = word_of_bytes False [r0, r1, r2, r3]" and m: "mem = word_of_bytes False [b0, b1, b2, b3]"
  shows "a AND 3 = 0 \<Longrightarrow> swr_merge a reg mem = word_of_bytes False [r0, r1, r2, r3]"
    "a AND 3 = 1 \<Longrightarrow> swr_merge a reg mem = word_of_bytes False [b0, r0, r1, r2]"
    "a AND 3 = 2 \<Longrightarrow> swr_merge a reg mem = word_of_bytes False [b0, b1, r0, r1]"
    "a AND 3 = 3 \<Longrightarrow> swr_merge a reg mem = word_of_bytes False [b0, b1, b2, r0]"
    "a AND 3 = 0 \<Longrightarrow> swl_merge a reg mem = word_of_bytes False [r3, b1, b2, b3]"
    "a AND 3 = 1 \<Longrightarrow> swl_merge a reg mem = word_of_bytes False [r2, r3, b2, b3]"
    "a AND 3 = 2 \<Longrightarrow> swl_merge a reg mem = word_of_bytes False [r1, r2, r3, b3]"
    "a AND 3 = 3 \<Longrightarrow> swl_merge a reg mem = word_of_bytes False [r0, r1, r2, r3]"
  by (rule word_eqI32, erule byte_ranges;
      auto simp: swr_merge_def swl_merge_def r m byte_word_bit bit_and_iff bit_or_iff bit_push_bit_iff
        bit_drop_bit_eq bit_mask_const simp del: bit_numeral_word_iff)+

lemma and_not3:
  "(a :: u32) AND 3 = k \<Longrightarrow> a AND NOT 3 = a - k"
proof -
  have "(a AND m) + (a AND NOT m) = a" for m :: u32
  proof -
    have "(a AND m) + (a AND NOT m) = (a AND m) OR (a AND NOT m)"
      by (rule disjunctive_add) (auto simp: bit_and_iff bit_not_iff)
    also have "\<dots> = a" by (rule bit_word_eqI) (auto simp: bit_and_iff bit_or_iff bit_not_iff)
    finally show ?thesis .
  qed
  from this [of 3]
  show "a AND 3 = k \<Longrightarrow> a AND NOT 3 = a - k" by (metis add_diff_cancel_left')
qed

lemma and3_cases:
  fixes a :: u32
  obtains "a AND 3 = 0" "a AND NOT 3 = a" "(a + 3) AND NOT 3 = a"
    | "a AND 3 = 1" "a AND NOT 3 = a - 1" "(a + 3) AND NOT 3 = a + 3"
    | "a AND 3 = 2" "a AND NOT 3 = a - 2" "(a + 3) AND NOT 3 = a + 2"
    | "a AND 3 = 3" "a AND NOT 3 = a - 3" "(a + 3) AND NOT 3 = a + 1"
proof -
  have "unat (a AND 3) < 4" by (simp add: unat_and3)
  then consider "unat (a AND 3) = 0" | "unat (a AND 3) = 1" | "unat (a AND 3) = 2" | "unat (a AND 3) = 3" by linarith
  then consider "a AND 3 = 0" | "a AND 3 = 1" | "a AND 3 = 2" | "a AND 3 = 3"
    by cases (simp_all add: word_unat_eq_iff)
  then show thesis
    using that and_not3 [of a] and_not3 [of "a + 3"] and3_add3 [of a] by cases simp_all
qed


text \<open>On a flat memory: a load pair reads the four bytes, a store pair writes them.\<close>

lemma get_bytes_4: "get_bytes a 4 f = [f a, f (a + 1), f (a + 2), f (a + 3)]"
  by (simp add: eval_nat_numeral add.assoc)

lemma put_bytes_4: "put_bytes a [x0, x1, x2, x3] f = f(a := x0, a + 1 := x1, a + 2 := x2, a + 3 := x3)"
  by (simp add: add.assoc)

lemma unaligned_load_bytes:
  "lwl_merge (a + 3) (word_of_bytes False (get_bytes ((a + 3) AND NOT 3) 4 f))
     (lwr_merge a (word_of_bytes False (get_bytes (a AND NOT 3) 4 f)) cur) = word_of_bytes False (get_bytes a 4 f)"
proof (cases rule: and3_cases [of a])
  case 1
  then show ?thesis by (simp add: get_bytes_4 unaligned_merge(1) [OF refl])
next
  case 2
  then show ?thesis by (simp add: get_bytes_4 unaligned_merge(2) [OF refl refl]) (simp add: add.commute)
next
  case 3
  then show ?thesis by (simp add: get_bytes_4 unaligned_merge(3) [OF refl refl]) (simp add: add.commute)
next
  case 4
  then show ?thesis by (simp add: get_bytes_4 unaligned_merge(4) [OF refl refl]) (simp add: add.commute)
qed

definition swr_mem :: "u32 \<Rightarrow> u32 \<Rightarrow> (u32 \<Rightarrow> u8) \<Rightarrow> u32 \<Rightarrow> u8" where
  "swr_mem a v f = put_bytes (a AND NOT 3) (bytes_of_word 4 False (swr_merge a v (word_of_bytes False (get_bytes (a AND NOT 3) 4 f)))) f"

definition swl_mem :: "u32 \<Rightarrow> u32 \<Rightarrow> (u32 \<Rightarrow> u8) \<Rightarrow> u32 \<Rightarrow> u8" where
  "swl_mem a v f = put_bytes (a AND NOT 3) (bytes_of_word 4 False (swl_merge a v (word_of_bytes False (get_bytes (a AND NOT 3) 4 f)))) f"

lemma unaligned_store_bytes: "swl_mem (a + 3) v (swr_mem a v f) = put_bytes a (bytes_of_word 4 False v) f"
proof -
  obtain r0 r1 r2 r3 where v: "bytes_of_word 4 False v = [r0, r1, r2, r3]" by (simp add: bytes_of_word_def)
  have r: "v = word_of_bytes False [r0, r1, r2, r3]" using word_of_bytes_word [of v] v by simp
  note k = and3_add3 [of a]
  note m = unaligned_store_merge [OF r refl]
  show ?thesis
  proof (cases rule: and3_cases [of a])
    case 1
    then show ?thesis
      by (simp add: swl_mem_def swr_mem_def get_bytes_4 v put_bytes_4 m bytes_of_word_bytes k del: put_bytes.simps)
  next
    case 2
    then show ?thesis
      by (simp add: swl_mem_def swr_mem_def get_bytes_4 v put_bytes_4 m bytes_of_word_bytes k del: put_bytes.simps)
       (auto simp: fun_eq_iff)
  next
    case 3
    then show ?thesis
      by (simp add: swl_mem_def swr_mem_def get_bytes_4 v put_bytes_4 m bytes_of_word_bytes k del: put_bytes.simps)
       (auto simp: fun_eq_iff)
  next
    case 4
    then show ?thesis
      by (simp add: swl_mem_def swr_mem_def get_bytes_4 v put_bytes_4 m bytes_of_word_bytes k del: put_bytes.simps)
       (auto simp: fun_eq_iff)
  qed
qed


subsection \<open>The bus contract\<close>

definition reads_ok ::
  "('m \<Rightarrow> bool) \<Rightarrow> ('m \<Rightarrow> u32 \<Rightarrow> u8) \<Rightarrow> nat \<Rightarrow> (u32 \<Rightarrow> 'm mips_cpu \<Rightarrow> (u32 \<times> 'm mips_cpu) option) \<Rightarrow> bool" where
  "reads_ok ok bytes n rd \<longleftrightarrow>
     (\<forall>a c. ok (cpu_mem c) \<longrightarrow>
        (\<exists>v c'. rd a c = Some (v, c') \<and> quiet c c' \<and> ok (cpu_mem c') \<and> bytes (cpu_mem c') = bytes (cpu_mem c) \<and>
           (cpu_halted c' \<or> v = word_of_bytes False (get_bytes a n (bytes (cpu_mem c))))))"

definition writes_ok ::
  "('m \<Rightarrow> bool) \<Rightarrow> ('m \<Rightarrow> u32 \<Rightarrow> u8) \<Rightarrow> nat \<Rightarrow> (u32 \<Rightarrow> u32 \<Rightarrow> 'm mips_cpu \<Rightarrow> 'm mips_cpu option) \<Rightarrow> bool" where
  "writes_ok ok bytes n wt \<longleftrightarrow>
     (\<forall>a v c. ok (cpu_mem c) \<longrightarrow>
        (\<exists>c'. wt a v c = Some c' \<and> quiet c c' \<and> ok (cpu_mem c') \<and>
           (cpu_halted c' \<or> bytes (cpu_mem c') = put_bytes a (bytes_of_word n False v) (bytes (cpu_mem c)))))"

unbundle bit_operations_syntax

lemma reads_okD:
  assumes "reads_ok ok bytes n rd" "ok (cpu_mem c)" "rd a c = Some (v, c')"
  shows "ok (cpu_mem c') \<and> bytes (cpu_mem c') = bytes (cpu_mem c) \<and>
    (cpu_halted c' \<or> v = word_of_bytes False (get_bytes a n (bytes (cpu_mem c))))"
  using reads_ok_def [THEN iffD1, OF assms(1), rule_format, OF assms(2), of a] assms(3) by auto

lemma writes_okD:
  assumes "writes_ok ok bytes n wt" "ok (cpu_mem c)" "wt a v c = Some c'"
  shows "ok (cpu_mem c') \<and> (cpu_halted c' \<or> bytes (cpu_mem c') = put_bytes a (bytes_of_word n False v) (bytes (cpu_mem c)))"
  using writes_ok_def [THEN iffD1, OF assms(1), rule_format, OF assms(2), of a v] assms(3) by auto

lemma finish_step_simps [simp]:
  "cpu_halted (finish_step inst d v c) = cpu_halted c" "cpu_trapped (finish_step inst d v c) = cpu_trapped c"
  "cpu_mem (finish_step inst d v c) = cpu_mem c" "cpu_load_reg (finish_step inst d v c) = cpu_load_reg c"
  "cpu_load_val (finish_step inst d v c) = cpu_load_val c"
  by (simp_all add: finish_step_def set_r_def Let_def)

lemma finish_step_r: "k \<noteq> d \<Longrightarrow> cpu_r c 0 = 0 \<Longrightarrow> cpu_r (finish_step inst d v c) k = cpu_r c k"
  by (simp add: finish_step_def set_r_def Let_def)

text \<open>Loads and stores through one base register, the second three bytes above the first.\<close>

definition access_pair :: "nat \<Rightarrow> nat \<Rightarrow> u32 \<Rightarrow> u32 \<Rightarrow> bool" where
  "access_pair op1 op2 i1 i2 \<longleftrightarrow> f_op i1 = op1 \<and> f_op i2 = op2 \<and> f_rs i1 = f_rs i2 \<and> f_rt i1 = f_rt i2 \<and>
     f_imm_se i2 = f_imm_se i1 + 3"

text \<open>
  A COP1 arithmetic or conversion instruction that names register 31: as a double it would be the
  pair 31, 32, past the end of the register array.
\<close>

definition cop1_oob :: "u32 \<Rightarrow> bool" where
  "cop1_oob inst \<longleftrightarrow> f_op inst = 0x11 \<and> f_rs inst \<in> {0x10, 0x11, 0x14} \<and>
     (f_rt inst = 31 \<or> f_rd inst = 31 \<or> f_sa inst = 31)"

lemma field_bounds: "f_rt inst < 32" "f_rd inst < 32" "f_sa inst < 32"
proof -
  have "unat (w AND 0x1F) < 32" for w :: u32
    using unat_and_mask [of w 5] by (simp add: mask_eq_exp_minus_1)
  then show "f_rt inst < 32" "f_rd inst < 32" "f_sa inst < 32" by (simp_all add: f_rt_def f_rd_def f_sa_def)
qed

lemma mem_upd [simp]:
  "cpu_mem (set_r k v c) = cpu_mem c" "cpu_mem (set_fpr k v c) = cpu_mem c" "cpu_mem (do_branch t c) = cpu_mem c"
  "cpu_mem (rel_branch inst c) = cpu_mem c" "cpu_mem (mips_trap ty sg a i msg c) = cpu_mem c"
  by (simp_all add: set_r_def set_fpr_def do_branch_def rel_branch_def mips_trap_def)

lemma cop1_arith_total:
  assumes "f_rt inst \<noteq> 31" "f_rd inst \<noteq> 31" "f_sa inst \<noteq> 31"
  shows "\<exists>out. cop1_arith fp d inst c = Some out \<and> cpu_mem (out_cpu out) = cpu_mem c"
proof -
  have lt: "f_rt inst < 31" "f_rd inst < 31" "f_sa inst < 31" using field_bounds [of inst] assms by auto
  have rd: "\<exists>x. fpr_src d c (f_rd inst) = Some x" "\<exists>x. fpr_src d c (f_rt inst) = Some x"
    "\<exists>x. fpr_wide fp d c (f_rd inst) = Some x" "\<exists>x. fpr_wide fp d c (f_rt inst) = Some x" "\<exists>x. fpr_d c (f_rd inst) = Some x"
    using lt by (simp_all add: fpr_src_def fpr_wide_def fpr_d_def)
  have wr: "\<exists>c'. set_fp d (f_sa inst) v c = Some c' \<and> cpu_mem c' = cpu_mem c"
    "\<exists>c'. set_d (f_sa inst) v c = Some c' \<and> cpu_mem c' = cpu_mem c" for v
    using lt by (simp_all add: set_fp_def set_d_def)
  show ?thesis
    using rd wr [of "the (fpr_wide fp d c (f_rd inst))"] wr [of "fp_bin fp (f_funct inst) d (the (fpr_src d c (f_rd inst))) (the (fpr_src d c (f_rt inst)))"]
      wr [of "fp_un fp (f_funct inst) d (the (fpr_src d c (f_rd inst)))"] lt
    by (auto simp: cop1_arith_def Let_def)
qed

lemma cop1_total:
  assumes "\<not> cop1_oob inst" "f_op inst = 0x11"
  shows "\<exists>out. mips_cop1 fp inst c = Some out \<and> cpu_mem (out_cpu out) = cpu_mem c"
proof (cases "f_rs inst \<in> {0x10, 0x11, 0x14}")
  case True
  then have r: "f_rt inst \<noteq> 31" "f_rd inst \<noteq> 31" "f_sa inst \<noteq> 31" using assms by (auto simp: cop1_oob_def)
  have "f_sa inst < 31" using field_bounds(3) [of inst] r by auto
  then have "\<exists>c'. set_d (f_sa inst) v c = Some c' \<and> cpu_mem c' = cpu_mem c" for v by (simp add: set_d_def)
  from this [of "fp_of_int64 fp (cpu_fpr c (f_rd inst))"] cop1_arith_total [OF r, of fp True c] cop1_arith_total [OF r, of fp False c]
  show ?thesis using True by (auto simp: mips_cop1_def Let_def)
next
  case False
  then show ?thesis by (auto simp: mips_cop1_def Let_def)
qed

text \<open>The system-call handler returns and keeps the memory good.\<close>

definition sys_total :: "('m \<Rightarrow> bool) \<Rightarrow> 'm mips_env \<Rightarrow> bool" where
  "sys_total ok env \<longleftrightarrow>
     (\<forall>h c. env_syscall env = Some h \<longrightarrow> ok (cpu_mem c) \<longrightarrow> (\<exists>c'. h c = Some c' \<and> ok (cpu_mem c')))"

locale mips_bus =
  fixes env :: "'m mips_env" and ok :: "'m \<Rightarrow> bool" and bytes :: "'m \<Rightarrow> u32 \<Rightarrow> u8"
  assumes still: "bus_quiet env"
    and r8: "reads_ok ok bytes 1 (env_read8 env)" and r16: "reads_ok ok bytes 2 (env_read16 env)"
    and r32: "reads_ok ok bytes 4 (env_read32 env)"
    and w8: "writes_ok ok bytes 1 (env_write8 env)" and w16: "writes_ok ok bytes 2 (env_write16 env)"
    and w32: "writes_ok ok bytes 4 (env_write32 env)"
begin

lemma read32:
  assumes "env_read32 env a c = Some (v, c')" "ok (cpu_mem c)"
  shows "ok (cpu_mem c')" "bytes (cpu_mem c') = bytes (cpu_mem c)"
    "\<not> cpu_halted c' \<Longrightarrow> v = word_of_bytes False (get_bytes a 4 (bytes (cpu_mem c)))" "cpu_r c' = cpu_r c"
  using reads_okD [OF r32 assms(2,1)] bus_quietD(3) [OF still assms(1)] by (auto simp: quiet_def)

lemma write32:
  assumes "env_write32 env a v c = Some c'" "ok (cpu_mem c)"
  shows "ok (cpu_mem c')"
    "\<not> cpu_halted c' \<Longrightarrow> bytes (cpu_mem c') = put_bytes a (bytes_of_word 4 False v) (bytes (cpu_mem c))"
  using writes_okD [OF w32 assms(2,1)] by auto

lemma lwlr_value:
  assumes "exec_lwlr mg env inst dreg dval c = Some (Cont c')" "ok (cpu_mem c)" "\<not> cpu_halted c'" "f_rt inst \<noteq> 0"
  shows "cpu_load_reg c' = f_rt inst" "ok (cpu_mem c')" "bytes (cpu_mem c') = bytes (cpu_mem c)"
    "cpu_load_val c' = mg (ea inst c) (word_of_bytes False (get_bytes (ea inst c AND NOT 3) 4 (bytes (cpu_mem c))))
       (if dreg = f_rt inst then dval else cpu_r c (f_rt inst))"
    "cpu_r c' = cpu_r c"
  using assms unfolding exec_lwlr_def Let_def
  by (auto simp: bind_eq_Some_conv dest: read32)

lemma swlr_memory:
  assumes e: "exec_swlr mg env inst c = Some (Cont c')" and ok: "ok (cpu_mem c)" and nh: "\<not> cpu_halted c'"
  defines "a \<equiv> ea inst c AND NOT 3"
  shows "ok (cpu_mem c')"
    "bytes (cpu_mem c') = put_bytes a (bytes_of_word 4 False (mg (ea inst c) (cpu_r c (f_rt inst))
       (word_of_bytes False (get_bytes a 4 (bytes (cpu_mem c)))))) (bytes (cpu_mem c))"
    "cpu_r c' = cpu_r c"
proof -
  obtain v c1 where r: "env_read32 env a c = Some (v, c1)"
    "env_write32 env a (mg (ea inst c) (cpu_r c (f_rt inst)) v) c1 = Some c'"
    using e unfolding exec_swlr_def Let_def a_def by (auto simp: bind_eq_Some_conv)
  note rd = read32 [OF r(1) ok]
  have "\<not> cpu_halted c1" using bus_quietD(6) [OF still r(2)] nh by (auto simp: quiet_def)
  then show "ok (cpu_mem c')" "bytes (cpu_mem c') = put_bytes a (bytes_of_word 4 False (mg (ea inst c) (cpu_r c (f_rt inst))
       (word_of_bytes False (get_bytes a 4 (bytes (cpu_mem c)))))) (bytes (cpu_mem c))"
    using write32 [OF r(2) rd(1)] nh rd(2,3) by simp_all
  show "cpu_r c' = cpu_r c" using rd(4) bus_quietD(6) [OF still r(2)] by (auto simp: quiet_def)
qed

text \<open>The step of a completed instruction other than a system call, seen from the state before it.\<close>

lemma step_exec:
  assumes s: "mips_step env c = Some (c', 0)" and f: "fetch env c = Some (inst, c1)" and ns: "\<not> is_syscall inst"
    and ok: "ok (cpu_mem c)"
  obtains c2 where "exec_insn env inst (cpu_load_reg c) (cpu_load_val c) (begin_insn c1) = Some (Cont c2)"
    "c' = finish_step inst (cpu_load_reg c) (cpu_load_val c) c2" "\<not> cpu_halted c2" "ok (cpu_mem (begin_insn c1))"
    "bytes (cpu_mem (begin_insn c1)) = bytes (cpu_mem c)" "cpu_r (begin_insn c1) = cpu_r c"
proof -
  note sf = step_frame [OF still s f ns]
  obtain c2 where e: "exec_insn env inst (cpu_load_reg c) (cpu_load_val c) (begin_insn c1) = Some (Cont c2)"
    "c' = finish_step inst (cpu_load_reg c) (cpu_load_val c) c2" using sf(7) by blast
  have "\<not> cpu_halted c'" using s by (cases rule: mips_step_cases) (auto split: if_splits)
  then have nh: "\<not> cpu_halted c2" by (simp add: e(2))
  have "ok (cpu_mem c1)" "bytes (cpu_mem c1) = bytes (cpu_mem c)"
    using read32 [OF f [unfolded fetch_def]] ok by simp_all
  moreover have "cpu_r c1 = cpu_r c" using sf(8) by (auto simp: quiet_def)
  ultimately show thesis using that e nh by (simp add: begin_insn_def)
qed


lemma unaligned_load:
  assumes ok: "ok (cpu_mem c)" and pair: "access_pair 0x26 0x22 i1 i2"
    and s: "mips_step env c = Some (c', 0)" "mips_step env c' = Some (c'', 0)"
    and f: "fetch env c = Some (i1, s1)" "fetch env c' = Some (i2, s2)"
    and rt: "f_rt i1 \<noteq> 0" and zero: "cpu_r c 0 = 0" and base: "f_rs i1 \<noteq> cpu_load_reg c"
  shows "cpu_load_reg c'' = f_rt i1"
    "cpu_load_val c'' = word_of_bytes False (get_bytes (cpu_r c (f_rs i1) + f_imm_se i1) 4 (bytes (cpu_mem c)))"
    "bytes (cpu_mem c'') = bytes (cpu_mem c)"
proof -
  have ns: "\<not> is_syscall i1" "\<not> is_syscall i2" using pair by (auto simp: access_pair_def is_syscall_def)
  obtain c2 where e: "exec_insn env i1 (cpu_load_reg c) (cpu_load_val c) (begin_insn s1) = Some (Cont c2)"
    "c' = finish_step i1 (cpu_load_reg c) (cpu_load_val c) c2" "\<not> cpu_halted c2" "ok (cpu_mem (begin_insn s1))"
    "bytes (cpu_mem (begin_insn s1)) = bytes (cpu_mem c)" "cpu_r (begin_insn s1) = cpu_r c"
    by (rule step_exec [OF s(1) f(1) ns(1) ok])
  have x: "exec_lwlr lwr_merge env i1 (cpu_load_reg c) (cpu_load_val c) (begin_insn s1) = Some (Cont c2)"
    using e(1) pair by (simp add: exec_insn_def exec_load_def access_pair_def Let_def)
  note l1 = lwlr_value [OF x e(4,3) rt]
  have ok': "ok (cpu_mem c')" using l1(2) by (simp add: e(2))
  obtain c3 where e': "exec_insn env i2 (cpu_load_reg c') (cpu_load_val c') (begin_insn s2) = Some (Cont c3)"
    "c'' = finish_step i2 (cpu_load_reg c') (cpu_load_val c') c3" "\<not> cpu_halted c3" "ok (cpu_mem (begin_insn s2))"
    "bytes (cpu_mem (begin_insn s2)) = bytes (cpu_mem c')" "cpu_r (begin_insn s2) = cpu_r c'"
    by (rule step_exec [OF s(2) f(2) ns(2) ok'])
  have y: "exec_lwlr lwl_merge env i2 (cpu_load_reg c') (cpu_load_val c') (begin_insn s2) = Some (Cont c3)"
    using e'(1) pair by (simp add: exec_insn_def exec_load_def access_pair_def Let_def)
  have p: "f_rs i2 = f_rs i1" "f_rt i2 = f_rt i1" "f_imm_se i2 = f_imm_se i1 + 3"
    using pair by (simp_all add: access_pair_def)
  note l2 = lwlr_value [OF y e'(4,3), unfolded p(2), OF rt]
  have r: "cpu_r c' (f_rs i1) = cpu_r c (f_rs i1)"
    using finish_step_r [OF base, of c2] l1(5) e(6) zero by (simp add: e(2))
  show "cpu_load_reg c'' = f_rt i1" "bytes (cpu_mem c'') = bytes (cpu_mem c)"
    using l2(1,3) e'(5) l1(3) e(5) by (simp_all add: e'(2) e(2))
  have "ea i2 (begin_insn s2) = ea i1 (begin_insn s1) + 3"
    using e(6) e'(6) r p by (simp add: ea_def)
  then show "cpu_load_val c'' = word_of_bytes False (get_bytes (cpu_r c (f_rs i1) + f_imm_se i1) 4 (bytes (cpu_mem c)))"
    using l2(4) l1(1,3,4) e(5,6) e'(5) unaligned_load_bytes [of "ea i1 (begin_insn s1)"]
    by (simp add: e'(2) e(2) ea_def)
qed

lemma unaligned_store:
  assumes ok: "ok (cpu_mem c)" and pair: "access_pair 0x2E 0x2A i1 i2"
    and s: "mips_step env c = Some (c', 0)" "mips_step env c' = Some (c'', 0)"
    and f: "fetch env c = Some (i1, s1)" "fetch env c' = Some (i2, s2)"
    and zero: "cpu_r c 0 = 0" and base: "f_rs i1 \<noteq> cpu_load_reg c" "f_rt i1 \<noteq> cpu_load_reg c"
  shows "bytes (cpu_mem c'') =
    put_bytes (cpu_r c (f_rs i1) + f_imm_se i1) (bytes_of_word 4 False (cpu_r c (f_rt i1))) (bytes (cpu_mem c))"
proof -
  have ns: "\<not> is_syscall i1" "\<not> is_syscall i2" using pair by (auto simp: access_pair_def is_syscall_def)
  obtain c2 where e: "exec_insn env i1 (cpu_load_reg c) (cpu_load_val c) (begin_insn s1) = Some (Cont c2)"
    "c' = finish_step i1 (cpu_load_reg c) (cpu_load_val c) c2" "\<not> cpu_halted c2" "ok (cpu_mem (begin_insn s1))"
    "bytes (cpu_mem (begin_insn s1)) = bytes (cpu_mem c)" "cpu_r (begin_insn s1) = cpu_r c"
    by (rule step_exec [OF s(1) f(1) ns(1) ok])
  have x: "exec_swlr swr_merge env i1 (begin_insn s1) = Some (Cont c2)"
    using e(1) pair by (simp add: exec_insn_def exec_store_def access_pair_def Let_def)
  note w1 = swlr_memory [OF x e(4,3)]
  have ok': "ok (cpu_mem c')" using w1(1) by (simp add: e(2))
  obtain c3 where e': "exec_insn env i2 (cpu_load_reg c') (cpu_load_val c') (begin_insn s2) = Some (Cont c3)"
    "c'' = finish_step i2 (cpu_load_reg c') (cpu_load_val c') c3" "\<not> cpu_halted c3" "ok (cpu_mem (begin_insn s2))"
    "bytes (cpu_mem (begin_insn s2)) = bytes (cpu_mem c')" "cpu_r (begin_insn s2) = cpu_r c'"
    by (rule step_exec [OF s(2) f(2) ns(2) ok'])
  have y: "exec_swlr swl_merge env i2 (begin_insn s2) = Some (Cont c3)"
    using e'(1) pair by (simp add: exec_insn_def exec_store_def access_pair_def Let_def)
  have p: "f_rs i2 = f_rs i1" "f_rt i2 = f_rt i1" "f_imm_se i2 = f_imm_se i1 + 3" using pair by (simp_all add: access_pair_def)
  note w2 = swlr_memory [OF y e'(4,3)]
  have r: "cpu_r c' (f_rs i1) = cpu_r c (f_rs i1)" "cpu_r c' (f_rt i1) = cpu_r c (f_rt i1)"
    using finish_step_r [OF base(1), of c2] finish_step_r [OF base(2), of c2] w1(3) e(6) zero by (simp_all add: e(2))
  have a: "ea i2 (begin_insn s2) = ea i1 (begin_insn s1) + 3" using e(6) e'(6) r p by (simp add: ea_def)
  have "bytes (cpu_mem c') = swr_mem (ea i1 (begin_insn s1)) (cpu_r c (f_rt i1)) (bytes (cpu_mem c))"
    using w1(2) e(5,6) by (simp add: swr_mem_def e(2))
  moreover have "bytes (cpu_mem c'') = swl_mem (ea i1 (begin_insn s1) + 3) (cpu_r c (f_rt i1)) (bytes (cpu_mem c'))"
    using w2(2) e'(5,6) r(2) p(2) by (simp add: swl_mem_def e'(2) a)
  ultimately show ?thesis using unaligned_store_bytes e(6) by (simp add: ea_def)
qed

text \<open>Every access is defined on a good memory and leaves it good.\<close>

lemma read_total: "reads_ok ok bytes n rd \<Longrightarrow> ok (cpu_mem c) \<Longrightarrow> \<exists>v c'. rd a c = Some (v, c') \<and> ok (cpu_mem c')"
  unfolding reads_ok_def by blast

lemma write_total: "writes_ok ok bytes n wt \<Longrightarrow> ok (cpu_mem c) \<Longrightarrow> \<exists>c'. wt a v c = Some c' \<and> ok (cpu_mem c')"
  unfolding writes_ok_def by blast

lemma issue_total:
  assumes "reads_ok ok bytes n rd" "ok (cpu_mem c)"
  shows "\<exists>out. issue_load rt ext (rd a) c = Some out \<and> ok (cpu_mem (out_cpu out))"
  using assms(2) read_total [OF assms(1), of "c\<lparr> cpu_load_reg := rt \<rparr>" a] by (auto simp: issue_load_def)

lemma lwlr_total: "ok (cpu_mem c) \<Longrightarrow> \<exists>out. exec_lwlr mg env inst d v c = Some out \<and> ok (cpu_mem (out_cpu out))"
  using read_total [OF r32, of c "ea inst c AND NOT 3"] by (auto simp: exec_lwlr_def Let_def)

lemma swlr_total:
  assumes "ok (cpu_mem c)"
  shows "\<exists>out. exec_swlr mg env inst c = Some out \<and> ok (cpu_mem (out_cpu out))"
proof -
  obtain v c1 where r: "env_read32 env (ea inst c AND NOT 3) c = Some (v, c1)" "ok (cpu_mem c1)"
    using read_total [OF r32 assms] by blast
  then show ?thesis
    using write_total [OF w32 r(2), of "ea inst c AND NOT 3" "mg (ea inst c) (cpu_r c (f_rt inst)) v"]
    by (auto simp: exec_swlr_def Let_def)
qed

lemma load_total: "ok (cpu_mem c) \<Longrightarrow> \<exists>out. exec_load env inst d v c = Some out \<and> ok (cpu_mem (out_cpu out))"
  using issue_total [OF r8] issue_total [OF r16] issue_total [OF r32] lwlr_total
  by (simp add: exec_load_def trap_stop_def Let_def)

lemma store_total: "ok (cpu_mem c) \<Longrightarrow> \<exists>out. exec_store env inst c = Some out \<and> ok (cpu_mem (out_cpu out))"
  using write_total [OF w8, of c "ea inst c" "cpu_r c (f_rt inst) AND 0xFF"]
    write_total [OF w16, of c "ea inst c" "cpu_r c (f_rt inst) AND 0xFFFF"]
    write_total [OF w32, of c "ea inst c" "cpu_r c (f_rt inst)"] swlr_total [of c]
  by (auto simp: exec_store_def trap_stop_def Let_def)

lemma fp_mem_total: "ok (cpu_mem c) \<Longrightarrow> \<exists>out. exec_fp_mem env inst c = Some out \<and> ok (cpu_mem (out_cpu out))"
  using read_total [OF r32, of c "ea inst c"] write_total [OF w32, of c "ea inst c" "cpu_fpr c (f_rt inst)"]
  by (auto simp: exec_fp_mem_def trap_stop_def Let_def)

lemma special_total:
  assumes "ok (cpu_mem c)" "sys_total ok env"
  shows "\<exists>out. exec_special env inst c = Some out \<and> ok (cpu_mem (out_cpu out))"
proof -
  have "\<exists>out. exec_syscall env inst c = Some out \<and> ok (cpu_mem (out_cpu out))"
    using assms unfolding sys_total_def exec_syscall_def by (cases "env_syscall env") fastforce+
  then show ?thesis using assms(1)
    by (simp add: exec_special_def wr_def trap_stop_def exec_break_def exec_mult_def exec_multu_def exec_div_def exec_divu_def Let_def)
qed

lemma exec_total:
  assumes "ok (cpu_mem c)" "sys_total ok env" "\<not> cop1_oob inst"
  shows "\<exists>out. exec_insn env inst d v c = Some out \<and> ok (cpu_mem (out_cpu out))"
proof -
  have "\<exists>out. mips_cop1 (env_fp env) inst c = Some out \<and> ok (cpu_mem (out_cpu out))" if "f_op inst = 0x11"
    using cop1_total [OF assms(3) that, of "env_fp env" c] assms(1) by auto
  then show ?thesis
    using assms(1) special_total [OF assms(1,2)] load_total store_total fp_mem_total
    by (simp add: exec_insn_def exec_regimm_def branch_if_def exec_imm_def wr_def trap_stop_def Let_def)
qed

lemma step_total:
  assumes ok: "ok (cpu_mem c)"
    and sys: "sys_total ok env"
    and oob: "\<And>inst c1. fetch env c = Some (inst, c1) \<Longrightarrow> \<not> cop1_oob inst"
  shows "\<exists>c' rc. mips_step env c = Some (c', rc) \<and> ok (cpu_mem c')"
proof -
  let ?c0 = "c\<lparr> cpu_cur_pc := cpu_pc c, cpu_in_delay := cpu_branch_taken c \<rparr>"
  obtain inst c1 where f: "env_read32 env (cpu_pc c) ?c0 = Some (inst, c1)" "ok (cpu_mem c1)"
    using read_total [OF r32, of ?c0 "cpu_pc c"] ok by auto
  have b: "ok (cpu_mem (begin_insn c1))" using f(2) by (simp add: begin_insn_def)
  obtain out where "exec_insn env inst (cpu_load_reg c1) (cpu_load_val c1) (begin_insn c1) = Some out" "ok (cpu_mem (out_cpu out))"
    using exec_total [OF b sys oob [OF f(1) [folded fetch_def]]] by blast
  then show ?thesis using f ok by (cases out) (simp_all add: mips_step_def Let_def)
qed

end

subsection \<open>The sandbox's bus keeps the contract\<close>

definition user_ok :: "'x guest_proc \<Rightarrow> bool" where
  "user_ok p \<longleftrightarrow> gm_reach (g_mem p) \<and> \<not> g_big_endian p"

abbreviation (input) user_bytes :: "'x guest_proc \<Rightarrow> u32 \<Rightarrow> u8" where
  "user_bytes p \<equiv> content (g_mem p)"

lemma bus_done_simps [simp]:
  "cpu_mem (bus_done m c) = (cpu_mem c)\<lparr> g_mem := m \<rparr>" "cpu_halted (bus_done m c) \<longleftrightarrow> gm_faulted m \<or> cpu_halted c"
  by (simp_all add: bus_done_def mips_halt_def Let_def)

lemma user_load:
  assumes "user_ok (cpu_mem c)" "sz \<in> {1, 2, 4}"
  obtains v m where "gm_load a sz False (g_mem (cpu_mem c)) = Some (v, m)" "user_ok ((cpu_mem c)\<lparr> g_mem := m \<rparr>)"
    "content m = user_bytes (cpu_mem c)" "gm_faulted m \<or> v = word_of_bytes False (get_bytes a sz (user_bytes (cpu_mem c)))"
proof -
  have r: "gm_reach (g_mem (cpu_mem c))" using assms(1) by (simp add: user_ok_def)
  obtain v m where l: "gm_load a sz False (g_mem (cpu_mem c)) = Some (v, m)" "grows (g_mem (cpu_mem c)) m"
    "gm_faulted m \<or> v = word_of_bytes False (get_bytes a sz (user_bytes (cpu_mem c)))"
    using load_run [OF reach_wf [OF r] assms(2), of a False] by auto
  then show thesis using that assms gm_reach.load [OF r assms(2) l(1)] by (auto simp: user_ok_def grows_def)
qed

lemma user_store:
  assumes "user_ok (cpu_mem c)" "sz \<in> {1, 2, 4}"
  obtains m where "gm_store a sz False v (g_mem (cpu_mem c)) = Some m" "user_ok ((cpu_mem c)\<lparr> g_mem := m \<rparr>)"
    "gm_faulted m \<or> content m = put_bytes a (bytes_of_word sz False v) (user_bytes (cpu_mem c))"
proof -
  have r: "gm_reach (g_mem (cpu_mem c))" using assms(1) by (simp add: user_ok_def)
  obtain m where l: "gm_store a sz False v (g_mem (cpu_mem c)) = Some m"
    "gm_faulted m \<or> content m = put_bytes a (bytes_of_word sz False v) (user_bytes (cpu_mem c))"
    using store_run [OF reach_wf [OF r] assms(2), of a False v] by auto
  then show thesis using that assms gm_reach.store [OF r assms(2) l(1)] by (auto simp: user_ok_def)
qed

lemma user_reads:
  assumes "\<And>a (c :: 'x user_cpu). rd a c =
      do { (v, m) \<leftarrow> gm_load a sz (g_big_endian (cpu_mem c)) (g_mem (cpu_mem c)); Some (v, bus_done m c) }"
    and sz: "sz \<in> {1, 2, 4}"
  shows "reads_ok user_ok user_bytes sz (rd :: u32 \<Rightarrow> 'x user_cpu \<Rightarrow> (u32 \<times> 'x user_cpu) option)"
  unfolding reads_ok_def
proof (intro allI impI)
  fix a and c :: "'x user_cpu"
  assume ok: "user_ok (cpu_mem c)"
  obtain v m where l: "gm_load a sz False (g_mem (cpu_mem c)) = Some (v, m)" "user_ok ((cpu_mem c)\<lparr> g_mem := m \<rparr>)"
    "content m = user_bytes (cpu_mem c)" "gm_faulted m \<or> v = word_of_bytes False (get_bytes a sz (user_bytes (cpu_mem c)))"
    by (rule user_load [OF ok sz])
  then show "\<exists>v c'. rd a c = Some (v, c') \<and> quiet c c' \<and> user_ok (cpu_mem c') \<and> user_bytes (cpu_mem c') = user_bytes (cpu_mem c) \<and>
           (cpu_halted c' \<or> v = word_of_bytes False (get_bytes a sz (user_bytes (cpu_mem c))))"
    using ok by (auto simp: assms(1) user_ok_def bus_done_quiet)
qed

lemma user_writes:
  assumes "\<And>a v (c :: 'x user_cpu). wt a v c =
      do { m \<leftarrow> gm_store a sz (g_big_endian (cpu_mem c)) v (g_mem (cpu_mem c)); Some (bus_done m c) }"
    and sz: "sz \<in> {1, 2, 4}"
  shows "writes_ok user_ok user_bytes sz (wt :: u32 \<Rightarrow> u32 \<Rightarrow> 'x user_cpu \<Rightarrow> 'x user_cpu option)"
  unfolding writes_ok_def
proof (intro allI impI)
  fix a v and c :: "'x user_cpu"
  assume ok: "user_ok (cpu_mem c)"
  obtain m where l: "gm_store a sz False v (g_mem (cpu_mem c)) = Some m" "user_ok ((cpu_mem c)\<lparr> g_mem := m \<rparr>)"
    "gm_faulted m \<or> content m = put_bytes a (bytes_of_word sz False v) (user_bytes (cpu_mem c))"
    by (rule user_store [OF ok sz])
  then show "\<exists>c'. wt a v c = Some c' \<and> quiet c c' \<and> user_ok (cpu_mem c') \<and>
           (cpu_halted c' \<or> user_bytes (cpu_mem c') = put_bytes a (bytes_of_word sz False v) (user_bytes (cpu_mem c)))"
    using ok by (auto simp: assms(1) user_ok_def bus_done_quiet)
qed

interpretation user_bus: mips_bus "mips_user_env sl fp" user_ok user_bytes for sl fp
proof
  show "bus_quiet (mips_user_env sl fp)" by (rule user_bus_quiet)
  show "reads_ok user_ok user_bytes 1 (env_read8 (mips_user_env sl fp))"
    by (rule user_reads) (simp_all add: mips_user_env_def skj_bus_r8_def)
  show "reads_ok user_ok user_bytes 2 (env_read16 (mips_user_env sl fp))"
    by (rule user_reads) (simp_all add: mips_user_env_def skj_bus_r16_def)
  show "reads_ok user_ok user_bytes 4 (env_read32 (mips_user_env sl fp))"
    by (rule user_reads) (simp_all add: mips_user_env_def skj_bus_r32_def)
  show "writes_ok user_ok user_bytes 1 (env_write8 (mips_user_env sl fp))"
    by (rule user_writes) (simp_all add: mips_user_env_def skj_bus_w8_def)
  show "writes_ok user_ok user_bytes 2 (env_write16 (mips_user_env sl fp))"
    by (rule user_writes) (simp_all add: mips_user_env_def skj_bus_w16_def)
  show "writes_ok user_ok user_bytes 4 (env_write32 (mips_user_env sl fp))"
    by (rule user_writes) (simp_all add: mips_user_env_def skj_bus_w32_def)
qed

unbundle bit_operations_syntax

subsection \<open>Runs\<close>

text \<open>The system-call layer keeps guest memory among the memories the host can bring about.\<close>

definition layer_ok :: "'x syscall_layer \<Rightarrow> bool" where
  "layer_ok sl \<longleftrightarrow>
     (\<forall>p nr a b pc. user_ok p \<longrightarrow> user_ok (snd (sl_private sl p nr a b pc))) \<and>
     (\<forall>p sys a0 a1 a2 a3 a4 a5. user_ok p \<longrightarrow> user_ok (snd (sl_syscall sl p sys a0 a1 a2 a3 a4 a5)))"

lemma stack_word_ok:
  assumes "user_ok p"
  shows "\<exists>v p'. stack_word a p = Some (v, p') \<and> user_ok p'"
proof -
  have r: "gm_reach (g_mem p)" using assms by (simp add: user_ok_def)
  obtain v m where l: "gm_load a 4 False (g_mem p) = Some (v, m)"
    using load_run [OF reach_wf [OF r], of 4 a False] by auto
  then show ?thesis using assms gm_reach.load [OF r _ l] by (simp add: stack_word_def user_ok_def)
qed

lemma commit_mem: "cpu_mem (commit_syscall r c) = cpu_mem c"
  by (simp add: commit_syscall_def rewind_def set_r_def mips_halt_def Let_def)

lemma user_sys_total:
  assumes "layer_ok sl"
  shows "sys_total user_ok (mips_user_env sl fp)"
proof -
  have "\<exists>c'. mips_syscall sl c = Some c' \<and> user_ok (cpu_mem c')" if ok: "user_ok (cpu_mem c)" for c
  proof -
    obtain pr p where p: "sl_private sl (cpu_mem c) (cpu_r c 2) (cpu_r c 4) (cpu_r c 5) (cpu_cur_pc c) = (pr, p)"
      by fastforce
    then have "user_ok p" using assms ok unfolding layer_ok_def by (metis snd_conv)
    then obtain a4 p1 where s1: "stack_word (cpu_r c 29 + 16) p = Some (a4, p1)" "user_ok p1" using stack_word_ok by blast
    then obtain a5 p2 where s2: "stack_word (cpu_r c 29 + 20) p1 = Some (a5, p2)" "user_ok p2" using stack_word_ok by blast
    have "user_ok p3" if "sl_syscall sl p2 sys a0 a1 a2 a3 a4 a5 = (r, p3)" for sys a0 a1 a2 a3 r p3
      using assms s2(2) that unfolding layer_ok_def by (metis snd_conv)
    then show ?thesis
      using \<open>user_ok p\<close> s1 s2
      by (cases pr) (auto simp: mips_syscall_def p Let_def set_r_def mips_halt_def rewind_def commit_mem split: prod.split)
  qed
  then show ?thesis by (simp add: sys_total_def mips_user_env_def)
qed

fun step_n :: "'m mips_env \<Rightarrow> nat \<Rightarrow> 'm mips_cpu \<Rightarrow> 'm mips_cpu option" where
  "step_n env 0 c = Some c"
| "step_n env (Suc n) c = (case mips_step env c of None \<Rightarrow> None | Some (c', _) \<Rightarrow> step_n env n c')"

lemma stop_reason_budget: "stop_reason c \<noteq> Some SKJ_RUN_BUDGET"
  by (simp add: stop_reason_def)

lemma run_loop_add:
  "run_loop env (a + b) n c =
     (case run_loop env a n c of
        None \<Rightarrow> None
      | Some (c1, why, m) \<Rightarrow> if why = SKJ_RUN_BUDGET then run_loop env b m c1 else Some (c1, why, m))"
proof (induction a arbitrary: n c)
  case (Suc a)
  then show ?case by (auto simp: stop_reason_budget split: option.splits)
qed simp

lemma run_loop_acc:
  "run_loop env k (n + d) c = map_option (\<lambda>(c', why, m). (c', why, m + d)) (run_loop env k n c)"
proof (induction k arbitrary: n c)
  case (Suc k)
  have "n + d + 1 = (n + 1) + d" by simp
  then show ?case using Suc [of "n + 1"] by (simp only: run_loop.simps) (auto split: option.split)
qed simp

text \<open>What a finished batch tells: the steps it made and why it stopped.\<close>

definition run_result :: "'m mips_env \<Rightarrow> nat \<Rightarrow> 'm mips_cpu \<Rightarrow> 'm mips_cpu \<times> skj_run_reason \<times> int \<Rightarrow> bool" where
  "run_result env k c = (\<lambda>(c', why, n). 0 \<le> n \<and> n \<le> int k \<and> step_n env (nat n) c = Some c' \<and>
     (if why = SKJ_RUN_BUDGET then n = int k else stop_reason c' = Some why))"

lemma run_loop_result: "run_loop env k 0 c = Some r \<Longrightarrow> run_result env k c r"
proof (induction k arbitrary: c r)
  case 0
  then show ?case by (auto simp: run_result_def)
next
  case (Suc k)
  show ?case
  proof (cases "stop_reason c")
    case (Some why)
    then show ?thesis using Suc.prems stop_reason_budget [of c] by (auto simp: run_result_def)
  next
    case None
    then obtain c1 rc where s: "mips_step env c = Some (c1, rc)" using Suc.prems by (auto split: option.splits)
    show ?thesis
    proof (cases "stop_reason c1")
      case (Some why)
      then show ?thesis using Suc.prems None s stop_reason_budget [of c1] by (auto simp: run_result_def)
    next
      case n1: None
      then obtain c' why n where r: "run_loop env k 0 c1 = Some (c', why, n)" "r = (c', why, n + 1)"
        using Suc.prems None s run_loop_acc [of env k 0 1 c1] by (cases "run_loop env k 0 c1") auto
      from Suc.IH [OF r(1)] show ?thesis by (auto simp: r(2) run_result_def s nat_add_distrib)
    qed
  qed
qed

lemma run_loop_defined:
  assumes "\<And>j c1. j < k \<Longrightarrow> step_n env j c = Some c1 \<Longrightarrow> mips_step env c1 \<noteq> None"
  shows "run_loop env k n c \<noteq> None"
  using assms
proof (induction k arbitrary: n c)
  case (Suc k)
  obtain c1 rc where s: "mips_step env c = Some (c1, rc)" using Suc.prems [of 0] by auto
  have "mips_step env c2 \<noteq> None" if "j < k" "step_n env j c1 = Some c2" for j c2
    using Suc.prems [of "Suc j"] that s by simp
  then show ?case using Suc.IH [of c1] s by (auto split: option.split)
qed simp


subsection \<open>Properties\<close>

lemma demo_user_ok: "user_ok (cpu_mem (demo_cpu code))"
proof -
  have "gm_reach (case gm_write 0x1000 vs demo_ram of Some m \<Rightarrow> m | None \<Rightarrow> demo_ram)" for vs
    using gm_reach.copy_in [OF demo_ram_reach, of "0x1000" vs] demo_ram_reach by (auto split: option.split)
  then show ?thesis
    by (simp add: user_ok_def demo_cpu_def mips_ready_def mips_reset_def mips_init_def set_r_def Let_def)
qed

lemma demo_layer_ok: "layer_ok demo_layer"
  by (simp add: layer_ok_def demo_layer_def)

lemma mips_step_ok:
  assumes "layer_ok sl" "user_ok (cpu_mem c)"
    and "\<And>inst s. fetch (mips_user_env sl fp) c = Some (inst, s) \<Longrightarrow> \<not> cop1_oob inst"
  obtains c' rc where "mips_step (mips_user_env sl fp) c = Some (c', rc)" "user_ok (cpu_mem c')"
  using user_bus.step_total [OF assms(2) user_sys_total [OF assms(1)], of fp] assms(3) by blast

text \<open>No state of the run fetches a COP1 instruction that names register 31.\<close>

definition cop1_clean :: "'m mips_env \<Rightarrow> 'm mips_cpu \<Rightarrow> bool" where
  "cop1_clean env c \<longleftrightarrow>
     (\<forall>j c1 inst s. step_n env j c = Some c1 \<longrightarrow> fetch env c1 = Some (inst, s) \<longrightarrow> \<not> cop1_oob inst)"

lemma clean_fetch: "cop1_clean env c \<Longrightarrow> fetch env c = Some (inst, s) \<Longrightarrow> \<not> cop1_oob inst"
  unfolding cop1_clean_def using step_n.simps(1) by blast

lemma clean_step: "cop1_clean env c \<Longrightarrow> mips_step env c = Some (c', rc) \<Longrightarrow> cop1_clean env c'"
proof -
  assume h: "cop1_clean env c" "mips_step env c = Some (c', rc)"
  have "step_n env (Suc j) c = step_n env j c'" for j using h(2) by simp
  then show ?thesis using h(1) unfolding cop1_clean_def by metis
qed

lemma clean_steps:
  assumes "user_ok (cpu_mem c)" "layer_ok sl" "cop1_clean (mips_user_env sl fp) c"
    and "step_n (mips_user_env sl fp) j c = Some c1"
  shows "mips_step (mips_user_env sl fp) c1 \<noteq> None"
  using assms
proof (induction j arbitrary: c)
  case 0
  obtain c' rc where "mips_step (mips_user_env sl fp) c = Some (c', rc)"
    by (rule mips_step_ok [OF 0(2,1) clean_fetch [OF 0(3)]])
  then show ?case using 0(4) by simp
next
  case (Suc j)
  obtain c' rc where s: "mips_step (mips_user_env sl fp) c = Some (c', rc)" "user_ok (cpu_mem c')"
    by (rule mips_step_ok [OF Suc.prems(2,1) clean_fetch [OF Suc.prems(3)]])
  show ?case
    by (rule Suc.IH [OF s(2) Suc.prems(2) clean_step [OF Suc.prems(3) s(1)]]) (use Suc.prems(4) s(1) in simp)
qed


lemma demo_fetch: "map_option fst (fetch demo_env (demo_cpu [0x0000000C])) = Some 0x0000000C"
  by code_simp


text \<open>
  C34: An unaligned load pair \<open>lwr rt, d(rs)\<close>, \<open>lwl rt, d+3(rs)\<close> leaves in the load latch the
  little-endian word at the unaligned address, for every alignment, and changes no byte of memory.
\<close>

theorem mips_unaligned_load:
  assumes "user_ok (cpu_mem c)" "access_pair 0x26 0x22 i1 i2"
    and "mips_step (mips_user_env sl fp) c = Some (c', 0)" "mips_step (mips_user_env sl fp) c' = Some (c'', 0)"
    and "fetch (mips_user_env sl fp) c = Some (i1, s1)" "fetch (mips_user_env sl fp) c' = Some (i2, s2)"
    and "f_rt i1 \<noteq> 0" "cpu_r c 0 = 0" "f_rs i1 \<noteq> cpu_load_reg c"
  shows "cpu_load_reg c'' = f_rt i1 \<and> user_bytes (cpu_mem c'') = user_bytes (cpu_mem c) \<and>
    cpu_load_val c'' = word_of_bytes False (get_bytes (cpu_r c (f_rs i1) + f_imm_se i1) 4 (user_bytes (cpu_mem c)))"
  using user_bus.unaligned_load [OF assms] by blast

definition demo_lw :: "unit user_cpu" where "demo_lw = demo_cpu [0x9BA80001, 0x8BA80004]"

lemma demo_lw_run:
  "two_steps demo_env demo_lw (\<lambda>_. ()) (\<lambda>_. ()) = Some (0x9BA80001, 0, (), 0x8BA80004, 0, ())"
  by code_simp

lemma demo_lw_init: "cpu_r demo_lw 0 = 0" "f_rs 0x9BA80001 \<noteq> cpu_load_reg demo_lw" "cpu_r demo_lw 29 = 0x1800"
  by code_simp+

theorem mips_unaligned_load_witness:
  "\<exists>c''. step_n demo_env 2 demo_lw = Some c'' \<and>
     cpu_load_val c'' = word_of_bytes False (get_bytes 0x1801 4 (user_bytes (cpu_mem demo_lw)))"
proof -
  obtain c' c'' s1 s2 where r: "fetch demo_env demo_lw = Some (0x9BA80001, s1)" "mips_step demo_env demo_lw = Some (c', 0)"
    "fetch demo_env c' = Some (0x8BA80004, s2)" "mips_step demo_env c' = Some (c'', 0)"
    by (rule two_stepsD [OF demo_lw_run])
  have f: "access_pair 0x26 0x22 0x9BA80001 0x8BA80004" "f_rt 0x9BA80001 \<noteq> 0" "f_rs 0x9BA80001 = 29" "f_imm_se 0x9BA80001 = 1"
    by code_simp+
  have "cpu_load_val c'' = word_of_bytes False (get_bytes 0x1801 4 (user_bytes (cpu_mem demo_lw)))"
    using mips_unaligned_load [OF _ f(1) r(2,4,1,3) [unfolded demo_env_def] f(2) demo_lw_init(1,2)] demo_lw_init(3) f(3,4)
      demo_user_ok by (simp add: demo_lw_def)
  moreover have "step_n demo_env 2 demo_lw = Some c''" using r(2,4) by (simp add: numeral_2_eq_2)
  ultimately show ?thesis by blast
qed


text \<open>
  C35: An unaligned store pair \<open>swr rt, d(rs)\<close>, \<open>swl rt, d+3(rs)\<close> writes the four little-endian
  bytes of the register at the unaligned address, for every alignment, and no other byte.
\<close>

theorem mips_unaligned_store:
  assumes "user_ok (cpu_mem c)" "access_pair 0x2E 0x2A i1 i2"
    and "mips_step (mips_user_env sl fp) c = Some (c', 0)" "mips_step (mips_user_env sl fp) c' = Some (c'', 0)"
    and "fetch (mips_user_env sl fp) c = Some (i1, s1)" "fetch (mips_user_env sl fp) c' = Some (i2, s2)"
    and "cpu_r c 0 = 0" "f_rs i1 \<noteq> cpu_load_reg c" "f_rt i1 \<noteq> cpu_load_reg c"
  shows "user_bytes (cpu_mem c'') =
    put_bytes (cpu_r c (f_rs i1) + f_imm_se i1) (bytes_of_word 4 False (cpu_r c (f_rt i1))) (user_bytes (cpu_mem c))"
  by (rule user_bus.unaligned_store [OF assms])

definition demo_sw :: "unit user_cpu" where "demo_sw = demo_cpu [0xBBBD0001, 0xABBD0004]"

lemma demo_sw_run:
  "two_steps demo_env demo_sw (\<lambda>_. ()) (\<lambda>_. ()) = Some (0xBBBD0001, 0, (), 0xABBD0004, 0, ())"
  by code_simp

lemma demo_sw_init: "cpu_r demo_sw 0 = 0" "f_rs 0xBBBD0001 \<noteq> cpu_load_reg demo_sw" "f_rt 0xBBBD0001 \<noteq> cpu_load_reg demo_sw"
    "cpu_r demo_sw 29 = 0x1800"
  by code_simp+

theorem mips_unaligned_store_witness:
  "\<exists>c''. step_n demo_env 2 demo_sw = Some c'' \<and>
     user_bytes (cpu_mem c'') = put_bytes 0x1801 (bytes_of_word 4 False 0x1800) (user_bytes (cpu_mem demo_sw))"
proof -
  obtain c' c'' s1 s2 where r: "fetch demo_env demo_sw = Some (0xBBBD0001, s1)" "mips_step demo_env demo_sw = Some (c', 0)"
    "fetch demo_env c' = Some (0xABBD0004, s2)" "mips_step demo_env c' = Some (c'', 0)"
    by (rule two_stepsD [OF demo_sw_run])
  have f: "access_pair 0x2E 0x2A 0xBBBD0001 0xABBD0004" "f_rt 0xBBBD0001 = 29" "f_rs 0xBBBD0001 = 29" "f_imm_se 0xBBBD0001 = 1"
    by code_simp+
  have "user_bytes (cpu_mem c'') = put_bytes 0x1801 (bytes_of_word 4 False 0x1800) (user_bytes (cpu_mem demo_sw))"
    using mips_unaligned_store [OF _ f(1) r(2,4,1,3) [unfolded demo_env_def] demo_sw_init(1-3)] demo_sw_init(4) f(2-4)
      demo_user_ok by (simp add: demo_sw_def del: put_bytes.simps)
  moreover have "step_n demo_env 2 demo_sw = Some c''" using r(2,4) by (simp add: numeral_2_eq_2)
  ultimately show ?thesis by blast
qed

text \<open>
  C36: Batches compose: running a budget of \<open>a + b\<close> instructions is running \<open>a\<close>, and then \<open>b\<close> more
  only if the first batch ended on its budget, with the retired counts added.
\<close>

theorem mips_run_split:
  "mips_run env (int a + int b) c =
     (case mips_run env (int a) c of
        None \<Rightarrow> None
      | Some (c1, why, n) \<Rightarrow>
          if why = SKJ_RUN_BUDGET then map_option (\<lambda>(c2, why2, m). (c2, why2, m + n)) (mips_run env (int b) c1)
          else Some (c1, why, n))"
proof -
  have k: "nat (int a + int b) = a + b" by simp
  show ?thesis
  proof (cases "run_loop env a 0 c")
    case None
    then show ?thesis by (simp add: mips_run_def k run_loop_add)
  next
    case (Some r)
    obtain c1 why n where "r = (c1, why, n)" by (cases r)
    then show ?thesis using Some run_loop_acc [of env b 0 n c1] by (simp add: mips_run_def k run_loop_add)
  qed
qed



lemma stopped_stays: "cpu_trapped c \<Longrightarrow> step_n env j c = Some c"
  by (induction j) (simp_all add: mips_step_def)

definition demo_brk :: "unit user_cpu" where "demo_brk = demo_cpu [0x0000000D]"

lemma demo_brk_run:
  "map_option fst (fetch demo_env demo_brk) = Some 0x0000000D"
  "map_option (\<lambda>(c1, rc). (cpu_trapped c1, map_option fst (fetch demo_env c1))) (mips_step demo_env demo_brk) = Some (True, Some 0)"
  by code_simp+

lemma demo_brk_clean: "cop1_clean demo_env demo_brk"
proof -
  obtain c1 rc where s: "mips_step demo_env demo_brk = Some (c1, rc)" "cpu_trapped c1" "map_option fst (fetch demo_env c1) = Some 0"
    using demo_brk_run(2) by auto
  have "\<not> cop1_oob inst" if "step_n demo_env j demo_brk = Some c2" "fetch demo_env c2 = Some (inst, t)" for j c2 inst t
  proof (cases j)
    case 0
    then show ?thesis using that demo_brk_run(1) by (auto simp: cop1_oob_def f_op_def)
  next
    case (Suc k)
    then have "c2 = c1" using that(1) s(1) stopped_stays [OF s(2)] by simp
    then show ?thesis using that(2) s(3) by (auto simp: cop1_oob_def f_op_def)
  qed
  then show ?thesis unfolding cop1_clean_def by blast
qed


end
