(* ===== verification/Mips_Exec.thy ===== *)
theory Mips_Exec
  imports Mips_Machine Mips_Parse
begin

text \<open>
  The assembler and the emulator agree. The fields of an encoded word read back on the emulator, the
  arithmetic mnemonics and the \<open>li\<close> macro do there what they say, and the operands the parser builds are
  the well-formed ones these facts ask for.
\<close>

unbundle bit_operations_syntax

subsection \<open>The fields of an encoded word\<close>

lemma masks: "(63 :: u32) = mask 6" "(31 :: u32) = mask 5" "(0xFFFF :: u32) = mask 16" "(0x3FFFFFF :: u32) = mask 26"
  "(0x1F :: u32) = mask 5" "(0x3F :: u32) = mask 6"
  by (simp_all add: mask_eq_exp_minus_1)

lemma bit_word: "bit (word_of_int v :: u32) n \<longleftrightarrow> n < 32 \<and> bit v n"
  by (simp add: bit_simps)

lemma diff_less: "0 < k \<Longrightarrow> (n :: nat) - j < k \<longleftrightarrow> n < j + k"
  by linarith

lemma enc_r_bit:
  "bit (enc_r op rs rt rd sa f) n \<longleftrightarrow>
     (if n < 6 then bit f n else if n < 11 then bit sa (n - 6) else if n < 16 then bit rd (n - 11)
      else if n < 21 then bit rt (n - 16) else if n < 26 then bit rs (n - 21) else n < 32 \<and> bit op (n - 26))"
  unfolding enc_r_def masks
  by (simp add: bit_or_iff bit_and_iff bit_push_bit_iff bit_mask_iff bit_word diff_less) auto

lemma enc_i_bit:
  "bit (enc_i op rs rt imm) n \<longleftrightarrow>
     (if n < 16 then bit imm n else if n < 21 then bit rt (n - 16) else if n < 26 then bit rs (n - 21)
      else n < 32 \<and> bit op (n - 26))"
  unfolding enc_i_def masks
  by (simp add: bit_or_iff bit_and_iff bit_push_bit_iff bit_mask_iff bit_word diff_less) auto

text \<open>Each field reads back as the number it was given, modulo its width.\<close>

lemma unat_bits:
  assumes "\<And>j. bit (w :: u32) j \<longleftrightarrow> j < n \<and> bit v j" "n < 32"
  shows "unat w = nat (v mod 2 ^ n)"
proof -
  have "w = take_bit n (word_of_int v)" by (rule bit_word_eqI) (use assms in \<open>auto simp: bit_take_bit_iff bit_word\<close>)
  then have "uint w = take_bit n v" using assms(2) by (simp add: unsigned_take_bit_eq unsigned_of_int min_def)
  then show ?thesis by (simp only: unat_eq_nat_uint take_bit_eq_mod)
qed

lemma enc_r_fields:
  "f_op (enc_r op rs rt rd sa f) = nat (op mod 64)" "f_rs (enc_r op rs rt rd sa f) = nat (rs mod 32)"
  "f_rt (enc_r op rs rt rd sa f) = nat (rt mod 32)" "f_rd (enc_r op rs rt rd sa f) = nat (rd mod 32)"
  "f_sa (enc_r op rs rt rd sa f) = nat (sa mod 32)" "f_funct (enc_r op rs rt rd sa f) = nat (f mod 64)"
  unfolding f_op_def f_rs_def f_rt_def f_rd_def f_sa_def f_funct_def masks
  subgoal by (rule unat_bits [of _ 6, simplified]) (auto simp: bit_drop_bit_eq enc_r_bit)
  subgoal by (rule unat_bits [of _ 5, simplified]) (auto simp: bit_drop_bit_eq enc_r_bit bit_and_iff bit_mask_iff)
  subgoal by (rule unat_bits [of _ 5, simplified]) (auto simp: bit_drop_bit_eq enc_r_bit bit_and_iff bit_mask_iff)
  subgoal by (rule unat_bits [of _ 5, simplified]) (auto simp: bit_drop_bit_eq enc_r_bit bit_and_iff bit_mask_iff)
  subgoal by (rule unat_bits [of _ 5, simplified]) (auto simp: bit_drop_bit_eq enc_r_bit bit_and_iff bit_mask_iff)
  subgoal by (rule unat_bits [of _ 6, simplified]) (auto simp: enc_r_bit bit_and_iff bit_mask_iff)
  done

lemma enc_i_fields:
  "f_op (enc_i op rs rt imm) = nat (op mod 64)" "f_rs (enc_i op rs rt imm) = nat (rs mod 32)"
  "f_rt (enc_i op rs rt imm) = nat (rt mod 32)"
  unfolding f_op_def f_rs_def f_rt_def masks
  subgoal by (rule unat_bits [of _ 6, simplified]) (auto simp: bit_drop_bit_eq enc_i_bit)
  subgoal by (rule unat_bits [of _ 5, simplified]) (auto simp: bit_drop_bit_eq enc_i_bit bit_and_iff bit_mask_iff)
  subgoal by (rule unat_bits [of _ 5, simplified]) (auto simp: bit_drop_bit_eq enc_i_bit bit_and_iff bit_mask_iff)
  done

lemma enc_i_imm:
  "f_imm_ze (enc_i op rs rt imm) = word_of_int (imm mod 65536)" "f_imm_se (enc_i op rs rt imm) = word_of_int (signed_take_bit 15 imm)"
proof -
  have ze: "enc_i op rs rt imm AND mask 16 = take_bit 16 (word_of_int imm)"
    by (rule bit_word_eqI) (auto simp: bit_and_iff bit_mask_iff bit_take_bit_iff enc_i_bit bit_word)
  show "f_imm_ze (enc_i op rs rt imm) = word_of_int (imm mod 65536)"
    unfolding f_imm_ze_def masks ze by (rule bit_word_eqI) (simp add: bit_take_bit_iff bit_word flip: take_bit_eq_mod [of 16 imm, simplified])
  show "f_imm_se (enc_i op rs rt imm) = word_of_int (signed_take_bit 15 imm)"
    unfolding f_imm_se_def masks ze
    by (rule bit_word_eqI) (auto simp: bit_signed_take_bit_iff bit_take_bit_iff bit_word min_def)
qed

lemma enc_j_fields:
  "f_op (enc_j op t) = nat (op mod 64)" "f_target26 (enc_j op t) = t AND 0x3FFFFFF"
proof -
  have b: "bit (enc_j op t) n \<longleftrightarrow> (if n < 26 then bit t n else n < 32 \<and> bit op (n - 26))" for n
    unfolding enc_j_def masks
    by (simp add: bit_or_iff bit_and_iff bit_push_bit_iff bit_mask_iff bit_word diff_less) auto
  show "f_op (enc_j op t) = nat (op mod 64)" unfolding f_op_def
    by (rule unat_bits [of _ 6, simplified]) (auto simp: bit_drop_bit_eq b)
  show "f_target26 (enc_j op t) = t AND 0x3FFFFFF" unfolding f_target26_def masks
    by (rule bit_word_eqI) (auto simp: bit_and_iff bit_mask_iff b)
qed

subsection \<open>What the arithmetic mnemonics mean\<close>

text \<open>
  The result of a three-operand mnemonic on its two source values, from the architecture manual;
  \<open>None\<close> is the integer overflow exception.
\<close>

definition in_word :: "int \<Rightarrow> u32 option" where
  "in_word r = (if - (2 ^ 31) \<le> r \<and> r < 2 ^ 31 then Some (word_of_int r) else None)"

definition alu_meaning :: "string \<Rightarrow> u32 \<Rightarrow> u32 \<Rightarrow> u32 option" where
  "alu_meaning m a b =
     (let sh = unat b mod 32 in
      if m = ''addu'' then Some (a + b) else if m = ''subu'' then Some (a - b)
      else if m = ''add'' then in_word (sint a + sint b) else if m = ''sub'' then in_word (sint a - sint b)
      else if m = ''and'' then Some (a AND b) else if m = ''or'' then Some (a OR b)
      else if m = ''xor'' then Some (a XOR b) else if m = ''nor'' then Some (NOT (a OR b))
      else if m = ''slt'' then Some (if sint a < sint b then 1 else 0)
      else if m = ''sltu'' then Some (if a < b then 1 else 0)
      else if m = ''sll'' \<or> m = ''sllv'' then Some (word_of_int (uint a * 2 ^ sh))
      else if m = ''srl'' \<or> m = ''srlv'' then Some (word_of_int (uint a div 2 ^ sh))
      else Some (word_of_int (sint a div 2 ^ sh)))"

definition alu_reg :: "string set" where
  "alu_reg = {''addu'', ''subu'', ''add'', ''sub'', ''and'', ''or'', ''xor'', ''nor'', ''slt'', ''sltu'', ''sllv'', ''srlv'', ''srav''}"

definition alu_shift :: "string set" where
  "alu_shift = {''sll'', ''srl'', ''sra''}"

definition reg_ok :: "mips_operand \<Rightarrow> bool" where
  "reg_ok x \<longleftrightarrow> is_reg x \<and> 0 \<le> mo_reg x \<and> mo_reg x < 32"

text \<open>The operand forms the encoder accepts: three registers, or a shift by an immediate.\<close>

definition alu_form :: "string \<Rightarrow> mips_operand \<Rightarrow> mips_operand \<Rightarrow> mips_operand \<Rightarrow> bool" where
  "alu_form m d s x \<longleftrightarrow> reg_ok d \<and> reg_ok s \<and> (m \<in> alu_reg \<and> reg_ok x \<or> m \<in> alu_shift \<and> is_imm x)"

definition operand_value :: "(nat \<Rightarrow> u32) \<Rightarrow> mips_operand \<Rightarrow> u32" where
  "operand_value r x = (if is_reg x then r (nat (mo_reg x)) else word_of_int (mo_imm x))"

lemma reg_nat: "reg_ok x \<Longrightarrow> nat (mo_reg x mod 32) = nat (mo_reg x)"
  by (simp add: reg_ok_def)

lemma is_kinds: "is_reg x \<Longrightarrow> \<not> is_imm x \<and> \<not> is_freg x \<and> \<not> is_mem x" "is_imm x \<Longrightarrow> \<not> is_reg x \<and> \<not> is_freg x"
  by (simp_all add: is_reg_def is_imm_def is_freg_def is_mem_def)

lemma exec_special_op: "f_op w = 0 \<Longrightarrow> exec_insn env w dreg dval c = exec_special env w c"
  by (simp add: exec_insn_def Let_def)

lemma encode_rrr:
  assumes "m \<in> alu_reg" "m \<notin> {''sllv'', ''srlv'', ''srav''}" "reg_ok d" "reg_ok s" "reg_ok x"
  shows "\<exists>f. rrr_funct m = Some f \<and> mips_encode m [d, s, x] e a = emit_macro [enc_r 0 (mo_reg s) (mo_reg x) (mo_reg d) 0 f] e a"
  using assms
  by (auto simp: alu_reg_def rrr_funct_def mips_encode_def enc_macro_def or_enc_def skip_def two_reg_word_def enc_rrr_def
      word_groups_def reg_ok_def split: option.split)

lemma encode_shiftv:
  assumes "m \<in> {''sllv'', ''srlv'', ''srav''}" "reg_ok d" "reg_ok s" "reg_ok x"
  shows "\<exists>f. shiftv_funct m = Some f \<and> mips_encode m [d, s, x] e a = emit_macro [enc_r 0 (mo_reg x) (mo_reg s) (mo_reg d) 0 f] e a"
  using assms
  by (auto simp: shiftv_funct_def mips_encode_def enc_macro_def or_enc_def skip_def two_reg_word_def enc_rrr_def rrr_funct_def enc_shiftv_def
      word_groups_def reg_ok_def split: option.split)

lemma encode_shifti:
  assumes "m \<in> alu_shift" "reg_ok d" "reg_ok s" "is_imm x"
  shows "\<exists>f. shifti_funct m = Some f \<and> mips_encode m [d, s, x] e a = emit_macro [enc_r 0 0 (mo_reg s) (mo_reg d) (mo_imm x) f] e a"
  using assms is_kinds(2) [OF assms(4)]
  by (auto simp: alu_shift_def shifti_funct_def mips_encode_def enc_macro_def or_enc_def skip_def two_reg_word_def enc_rrr_def enc_shiftv_def
      enc_shifti_def word_groups_def reg_ok_def split: option.split)

lemma in_word_add: "in_word (sint a + sint b) = (if add_overflows a b then None else Some (a + b))"
  by (auto simp: in_word_def add_overflows_iff)

lemma in_word_sub: "in_word (sint a - sint b) = (if sub_overflows a b then None else Some (a - b))"
  by (auto simp: in_word_def sub_overflows_iff)

definition alu_result :: "string \<Rightarrow> u32 \<Rightarrow> nat \<Rightarrow> u32 option \<Rightarrow> 'm mips_cpu \<Rightarrow> 'm outcome option" where
  "alu_result m w d r c =
     (case r of Some v \<Rightarrow> wr d v c | None \<Rightarrow> trap_stop MIPS_TR_OVERFLOW SIG_FPE 0 w (m @ '' overflow'') c)"

lemma exec_rrr:
  assumes "rrr_funct m = Some f" "reg_ok d" "reg_ok s" "reg_ok x"
  defines "w \<equiv> enc_r 0 (mo_reg s) (mo_reg x) (mo_reg d) 0 f"
  shows "exec_insn env w dreg dval c
    = alu_result m w (nat (mo_reg d)) (alu_meaning m (cpu_r c (nat (mo_reg s))) (cpu_r c (nat (mo_reg x)))) c"
proof -
  have fl: "f_op w = 0" "f_rs w = nat (mo_reg s)" "f_rt w = nat (mo_reg x)" "f_rd w = nat (mo_reg d)" "f_funct w = nat (f mod 64)"
    using assms(2-4) by (simp_all add: w_def enc_r_fields reg_nat)
  have "(m, f) \<in> {(''addu'', 0x21), (''subu'', 0x23), (''add'', 0x20), (''sub'', 0x22), (''and'', 0x24), (''or'', 0x25),
      (''xor'', 0x26), (''nor'', 0x27), (''slt'', 0x2a), (''sltu'', 0x2b)}"
    using assms(1) by (auto simp: rrr_funct_def split: if_splits)
  then show ?thesis
    unfolding exec_special_op [OF fl(1)] exec_special_def Let_def fl
    by (elim insertE emptyE; simp add: alu_meaning_def alu_result_def in_word_add in_word_sub)
qed

lemma shift_amount: "unat ((w :: u32) AND 0x1F) = unat w mod 32"
proof -
  have "w AND 0x1F = take_bit 5 w" by (simp add: masks take_bit_eq_mask)
  moreover have "unat (take_bit 5 w) = take_bit 5 (unat w)" by (rule unsigned_take_bit_eq)
  ultimately show ?thesis by (simp add: take_bit_eq_mod)
qed

lemma uint_drop_bit: "uint (drop_bit n (w :: u32)) = uint w div 2 ^ n"
  using uint_lt2p [of w] unfolding unsigned_drop_bit_eq
  by (simp add: take_bit_drop_bit drop_bit_eq_div min_def take_bit_int_eq_self)

lemma shifts:
  "push_bit n (w :: u32) = word_of_int (uint w * 2 ^ n)" "drop_bit n (w :: u32) = word_of_int (uint w div 2 ^ n)"
  "signed_drop_bit n (w :: u32) = word_of_int (sint w div 2 ^ n)"
proof -
  show "push_bit n w = word_of_int (uint w * 2 ^ n)" by (simp add: push_bit_eq_mult)
  show "drop_bit n w = word_of_int (uint w div 2 ^ n)" by (metis word_of_int_uint uint_drop_bit)
  have "sint (signed_drop_bit n w) = sint w div 2 ^ n" by (simp add: sint_signed_drop_bit_eq drop_bit_eq_div)
  then show "signed_drop_bit n w = word_of_int (sint w div 2 ^ n)" by (metis of_int_sint scast_id)
qed

lemma exec_shiftv:
  assumes "shiftv_funct m = Some f" "reg_ok d" "reg_ok s" "reg_ok x"
  defines "w \<equiv> enc_r 0 (mo_reg x) (mo_reg s) (mo_reg d) 0 f"
  shows "exec_insn env w dreg dval c
    = alu_result m w (nat (mo_reg d)) (alu_meaning m (cpu_r c (nat (mo_reg s))) (cpu_r c (nat (mo_reg x)))) c"
proof -
  have fl: "f_op w = 0" "f_rs w = nat (mo_reg x)" "f_rt w = nat (mo_reg s)" "f_rd w = nat (mo_reg d)" "f_funct w = nat (f mod 64)"
    using assms(2-4) by (simp_all add: w_def enc_r_fields reg_nat)
  have "(m, f) \<in> {(''sllv'', 4), (''srlv'', 6), (''srav'', 7)}" using assms(1) by (auto simp: shiftv_funct_def split: if_splits)
  then show ?thesis
    unfolding exec_special_op [OF fl(1)] exec_special_def Let_def fl shift_amount shifts
    by (elim insertE emptyE; simp add: alu_meaning_def alu_result_def)
qed

lemma exec_shifti:
  fixes i :: int
  assumes "shifti_funct m = Some f" "reg_ok d" "reg_ok s"
  defines "w \<equiv> enc_r 0 0 (mo_reg s) (mo_reg d) i f"
  shows "exec_insn env w dreg dval c
    = alu_result m w (nat (mo_reg d)) (alu_meaning m (cpu_r c (nat (mo_reg s))) (word_of_int i)) c"
proof -
  have fl: "f_op w = 0" "f_rt w = nat (mo_reg s)" "f_rd w = nat (mo_reg d)" "f_funct w = nat (f mod 64)" "f_sa w = nat (i mod 32)"
    using assms(2-3) by (simp_all add: w_def enc_r_fields reg_nat)
  have "unat (word_of_int i :: u32) mod 32 = nat (i mod 32)"
  proof -
    have "nat (i mod 2 ^ 32) mod nat 32 = nat (i mod 2 ^ 32 mod 32)" by (rule nat_mod_distrib [symmetric]) simp_all
    then show ?thesis using mod_mod_cancel [of 32 "2 ^ 32" i] by (simp add: unat_eq_nat_uint uint_word_of_int)
  qed
  moreover have "(m, f) \<in> {(''sll'', 0), (''srl'', 2), (''sra'', 3)}" using assms(1) by (auto simp: shifti_funct_def split: if_splits)
  ultimately show ?thesis
    unfolding exec_special_op [OF fl(1)] exec_special_def Let_def fl shifts
    by (elim insertE emptyE; simp add: alu_meaning_def alu_result_def)
qed

definition reg_operand :: "int \<Rightarrow> mips_operand" where
  "reg_operand k = \<lparr> mo_kind = MO_REG, mo_reg = k, mo_imm = 0, mo_sym = None, mo_reloc_op = MRELOC_OP_NONE \<rparr>"

definition imm_operand :: "int \<Rightarrow> mips_operand" where
  "imm_operand v = \<lparr> mo_kind = MO_IMM, mo_reg = 0, mo_imm = v, mo_sym = None, mo_reloc_op = MRELOC_OP_NONE \<rparr>"

text \<open>
  The fields of an instruction round-trip. What the assembler packs into a word of each of the three
  formats is what the emulator unpacks from it, each field modulo its width.
\<close>

theorem mips_fields_roundtrip:
  "f_op (enc_r op rs rt rd sa fn) = nat (op mod 64) \<and> f_rs (enc_r op rs rt rd sa fn) = nat (rs mod 32) \<and>
   f_rt (enc_r op rs rt rd sa fn) = nat (rt mod 32) \<and> f_rd (enc_r op rs rt rd sa fn) = nat (rd mod 32) \<and>
   f_sa (enc_r op rs rt rd sa fn) = nat (sa mod 32) \<and> f_funct (enc_r op rs rt rd sa fn) = nat (fn mod 64) \<and>
   f_op (enc_i op rs rt imm) = nat (op mod 64) \<and> f_rs (enc_i op rs rt imm) = nat (rs mod 32) \<and>
   f_rt (enc_i op rs rt imm) = nat (rt mod 32) \<and> f_imm_ze (enc_i op rs rt imm) = word_of_int (imm mod 65536) \<and>
   f_imm_se (enc_i op rs rt imm) = word_of_int (signed_take_bit 15 imm) \<and>
   f_op (enc_j op t) = nat (op mod 64) \<and> f_target26 (enc_j op t) = t AND 0x3FFFFFF"
  by (simp only: enc_r_fields enc_i_fields enc_i_imm enc_j_fields simp_thms)



subsection \<open>Straight-line execution\<close>

text \<open>The effect of a word with no load pending, and of a sequence of such words.\<close>

definition exec_word :: "'m mips_env \<Rightarrow> u32 \<Rightarrow> 'm mips_cpu \<Rightarrow> 'm mips_cpu option" where
  "exec_word env w c = (case exec_insn env w 0 0 c of Some (Cont c') \<Rightarrow> Some (finish_step w 0 0 c') | _ \<Rightarrow> None)"

fun exec_words :: "'m mips_env \<Rightarrow> u32 list \<Rightarrow> 'm mips_cpu \<Rightarrow> 'm mips_cpu option" where
  "exec_words env [] c = Some c"
| "exec_words env (w # ws) c = do { c \<leftarrow> exec_word env w c; exec_words env ws c }"

lemma exec_imm_word:
  assumes "op \<in> {9, 13, 15}" "0 \<le> rs" "rs < 32" "0 \<le> rt" "rt < 32"
  shows "exec_word env (enc_i op rs rt imm) c = Some (finish_step (enc_i op rs rt imm) 0 0 (set_r (nat rt)
     (if op = 9 then cpu_r c (nat rs) + word_of_int (signed_take_bit 15 imm)
      else if op = 13 then cpu_r c (nat rs) OR word_of_int (imm mod 65536) else push_bit 16 (word_of_int (imm mod 65536))) c))"
proof -
  have fl: "f_op (enc_i op rs rt imm) = nat op" "f_rs (enc_i op rs rt imm) = nat rs" "f_rt (enc_i op rs rt imm) = nat rt"
    using assms by (auto simp: enc_i_fields)
  have "exec_insn env (enc_i op rs rt imm) 0 0 c = exec_imm (enc_i op rs rt imm) c"
    using assms(1) unfolding exec_insn_def Let_def fl by (elim insertE emptyE; simp)
  then show ?thesis
    using assms(1) unfolding exec_word_def exec_imm_def Let_def fl enc_i_imm wr_def by (elim insertE emptyE; simp)
qed

lemma finish_reg: "cpu_r (finish_step w 0 0 c) k = (if k = 0 then 0 else cpu_r c k)"
  by (simp add: finish_step_def Let_def set_r_def)

lemma set_reg: "cpu_r (set_r d v c) k = (if k = d then v else cpu_r c k)"
  by (simp add: set_r_def)

text \<open>The constant is in its register and the others are as before.\<close>

definition loads :: "'m mips_env \<Rightarrow> u32 list \<Rightarrow> nat \<Rightarrow> u32 \<Rightarrow> 'm mips_cpu \<Rightarrow> bool" where
  "loads env ws d v c \<longleftrightarrow>
     (case exec_words env ws c of
        None \<Rightarrow> False
      | Some c' \<Rightarrow> cpu_r c' d = v \<and> (\<forall>k. k \<noteq> d \<longrightarrow> k \<noteq> 0 \<longrightarrow> cpu_r c' k = cpu_r c k))"

lemma high_half: "word_of_int (uint (drop_bit 16 (w :: u32) AND 0xFFFF) mod 65536) = drop_bit 16 w"
proof -
  have e: "drop_bit 16 w AND 0xFFFF = drop_bit 16 w"
    unfolding masks by (rule bit_word_eqI) (auto simp: bit_and_iff bit_mask_iff bit_drop_bit_eq dest: bit_imp_le_length)
  have "uint (drop_bit 16 w) < 65536"
    using uint_lt2p [of w] by (simp only: uint_drop_bit) simp
  then show ?thesis by (simp add: e)
qed

lemma low_half: "word_of_int (uint ((w :: u32) AND 0xFFFF) mod 65536) = w AND 0xFFFF"
proof -
  have "uint (w AND 0xFFFF) < 65536" using word_and_le1 [of w "0xFFFF"] by (simp add: word_le_def)
  then show ?thesis by simp
qed

lemma halves: "push_bit 16 (drop_bit 16 w) OR (w AND 0xFFFF) = (w :: u32)"
  unfolding masks by (rule bit_word_eqI) (auto simp: bit_or_iff bit_push_bit_iff bit_drop_bit_eq bit_and_iff bit_mask_iff dest: bit_imp_le_length)

lemma two_words_load:
  assumes "0 < d" "d < 32" "word_of_int (hi mod 65536) = drop_bit 16 w" "word_of_int (lo mod 65536) = w AND 0xFFFF"
  shows "loads env [enc_i 15 0 d hi, enc_i 13 d d lo] (nat d) w c"
  using assms halves [of w] by (simp add: loads_def exec_imm_word finish_reg set_reg)

lemma li_words_load:
  assumes "0 < d" "d < 32" "cpu_r c 0 = 0"
  shows "loads env (li_words d v) (nat d) (word_of_int v) c"
proof -
  let ?w = "word_of_int v :: u32"
  note ex = exec_imm_word [where rs = 0 and rt = d] exec_imm_word [where rs = d and rt = d]
  show ?thesis
  proof (cases "- 32768 \<le> v \<and> v \<le> 32767")
    case True
    then have "signed_take_bit 15 v = v" by (simp add: signed_take_bit_int_eq_self)
    then show ?thesis using True assms by (simp add: li_words_def loads_def ex finish_reg set_reg)
  next
    case a: False
    show ?thesis
    proof (cases "0 \<le> v \<and> v \<le> 65535")
      case True
      then have "v mod 65536 = v" by simp
      then show ?thesis using a True assms by (simp add: li_words_def loads_def ex finish_reg set_reg)
    next
      case b: False
      show ?thesis
      proof (cases "?w AND 0xFFFF = 0")
        case True
        then have "push_bit 16 (drop_bit 16 ?w) = ?w" using halves [of ?w] by simp
        then show ?thesis using a b True assms by (auto simp: li_words_def Let_def loads_def ex finish_reg set_reg high_half)
      next
        case False
        then show ?thesis
          using a b assms two_words_load [OF _ _ high_half low_half] by (auto simp: li_words_def Let_def)
      qed
    qed
  qed
qed

lemma int32_word: "word_of_int (int32 v) = (word_of_int v :: u32)"
proof (rule bit_word_eqI)
  fix n
  assume "n < LENGTH(32)"
  then show "bit (word_of_int (int32 v) :: u32) n = bit (word_of_int v :: u32) n"
    by (cases "n = 31") (auto simp: int32_def bit_word bit_signed_take_bit_iff min_def)
qed

lemma demo_zero: "cpu_r (demo_cpu ws) 0 = 0"
  by (simp add: demo_cpu_def mips_ready_def mips_reset_def set_r_def Let_def)

text \<open>
  C18: \<open>li\<close> loads its constant. Whatever sequence the macro expands to, executing it leaves the low 32 bits of
  the constant in the destination register and keeps every other register.
\<close>

theorem mips_li_loads:
  assumes "reg_ok d" "mo_reg d \<noteq> 0" "is_imm i" "cpu_r c 0 = 0"
  shows "\<exists>ws. mips_encode ''li'' [d, i] e a = emit_macro ws e a \<and> loads env ws (nat (mo_reg d)) (word_of_int (mo_imm i)) c"
proof -
  have r: "is_reg d" "0 < mo_reg d" "mo_reg d < 32" using assms by (auto simp: reg_ok_def)
  have "mips_encode ''li'' [d, i] e a = emit_macro (li_words (mo_reg d) (int32 (mo_imm i))) e a"
  proof -
    have "enc_macro ''li'' [d, i] e a = emit_macro (li_words (mo_reg d) (int32 (mo_imm i))) e a"
      using r(1) assms(3) by (simp add: enc_macro_def enc_li_def)
    moreover have "or_enc (emit_macro ws e a) nx = emit_macro ws e a" for ws nx
      by (cases "emit_words ws a") (auto simp: or_enc_def emit_macro_def emits_def word_bytes_def)
    ultimately show ?thesis by (simp add: mips_encode_def)
  qed
  moreover have "loads env (li_words (mo_reg d) (int32 (mo_imm i))) (nat (mo_reg d)) (word_of_int (mo_imm i)) c"
    using li_words_load [OF r(2,3) assms(4), of env "int32 (mo_imm i)"] by (simp only: int32_word)
  ultimately show ?thesis by blast
qed

theorem mips_li_loads_witness:
  "\<exists>ws. mips_encode ''li'' [reg_operand 4, imm_operand 0x12345678] False (mips_init []) = emit_macro ws False (mips_init []) \<and>
     loads demo_env ws 4 0x12345678 (demo_cpu [])"
  using mips_li_loads [of "reg_operand 4" "imm_operand 0x12345678" "demo_cpu []" False "mips_init []" demo_env]
  by (simp add: reg_ok_def reg_operand_def imm_operand_def is_reg_def is_imm_def demo_zero)

subsection \<open>Operands are well formed\<close>

definition operand_ok :: "mips_operand \<Rightarrow> bool" where
  "operand_ok x \<longleftrightarrow>
     mo_kind x \<noteq> MO_NONE \<and> (mo_kind x \<in> {MO_REG, MO_FREG, MO_MEM} \<longrightarrow> 0 \<le> mo_reg x \<and> mo_reg x < 32) \<and>
     (mo_reloc_op x \<noteq> MRELOC_OP_NONE \<longrightarrow> mo_sym x \<noteq> None) \<and> (mo_kind x = MO_SYM \<longrightarrow> mo_sym x \<noteq> None)"

lemma name_index_less: "name_index xs s = Some k \<Longrightarrow> k < length xs"
  by (induction xs arbitrary: k) (auto split: if_splits)

lemma digits_nonneg: "digits 10 s \<ge> 0"
proof -
  have d: "digit_val 10 c = Some v \<Longrightarrow> v \<ge> 0" for c v by (auto simp: digit_val_def Let_def split: if_splits)
  have "foldl (\<lambda>v c. 10 * v + (case digit_val 10 c of Some d \<Rightarrow> d | None \<Rightarrow> 0)) k s \<ge> 0" if "k \<ge> 0" for k
    using that d by (induction s arbitrary: k) (auto split: option.split)
  then show ?thesis by (simp add: digits_def)
qed

lemma reg_number_range: "reg_number s = Some k \<Longrightarrow> 0 \<le> k \<and> k < 32"
  using digits_nonneg [of s] by (auto simp: reg_number_def split: if_splits)

lemma ireg_range: "mips_ireg s = Some k \<Longrightarrow> 0 \<le> k \<and> k < 32"
  by (auto simp: mips_ireg_def mips_abi_names_def split: if_splits option.splits list.splits
      dest!: name_index_less reg_number_range)

lemma freg_range: "mips_freg s = Some k \<Longrightarrow> 0 \<le> k \<and> k < 32"
  by (auto simp: mips_freg_def split: if_splits list.splits dest!: reg_number_range)

lemma mem_base_range: "parse_mem_base l = Some (Some r, l') \<Longrightarrow> 0 \<le> r \<and> r < 32"
  by (auto simp: parse_mem_base_def Let_def split: if_splits option.splits dest: ireg_range)

lemma mem_or_imm_ok:
  "mem_or_imm x l = Some (y, l') \<Longrightarrow> (mo_reloc_op x \<noteq> MRELOC_OP_NONE \<longrightarrow> mo_sym x \<noteq> None) \<Longrightarrow> operand_ok y"
  by (auto simp: mem_or_imm_def bind_eq_Some_conv operand_ok_def split: option.splits dest!: mem_base_range)

lemma parse_reloc_ok: "parse_reloc l = Some (y, l') \<Longrightarrow> operand_ok y"
  by (auto simp: parse_reloc_def Let_def bind_eq_Some_conv split: if_splits dest!: mem_or_imm_ok)

lemma parse_int_ok: "parse_int l = Some (y, l') \<Longrightarrow> operand_ok y"
  by (auto simp: parse_int_def Let_def bind_eq_Some_conv blank_operand_def split: if_splits dest!: mem_or_imm_ok)

lemma parse_ident_ok: "operand_ok (fst (parse_ident a))"
proof -
  let ?s = "tok_str (ma_lex a)"
  show ?thesis
  proof (cases "numeric_ref ?s")
    case None
    then show ?thesis
      using ireg_range [of ?s] freg_range [of ?s]
      by (cases "mips_ireg ?s"; cases "mips_freg ?s") (auto simp: parse_ident_def operand_ok_def blank_operand_def)
  next
    case (Some p)
    then show ?thesis
      by (cases p) (simp add: parse_ident_def case_prod_unfold Let_def operand_ok_def blank_operand_def)
  qed
qed

lemma parse_operand_ok:
  assumes "parse_operand a = Some (y, b)"
  shows "operand_ok y"
proof (cases "tt a")
  case T_LPAREN
  then obtain r l where "parse_mem_base (ma_lex a) = Some (Some r, l)" "y = blank_operand\<lparr> mo_kind := MO_MEM, mo_reg := r \<rparr>"
    using assms by (auto simp: parse_operand_def with_lex_def bind_eq_Some_conv split: option.splits)
  then show ?thesis using mem_base_range by (auto simp: operand_ok_def blank_operand_def)
next
  case T_IDENT
  then have "y = fst (parse_ident a)" using assms by (simp add: parse_operand_def)
  then show ?thesis using parse_ident_ok by simp
qed (use assms in \<open>auto simp: parse_operand_def with_lex_def operand_ok_def blank_operand_def dest: parse_reloc_ok parse_int_ok\<close>)

text \<open>
  C37: operands are well typed. Every operand list the parser hands to the encoder has at most four operands,
  each of a definite kind; register and base numbers are in range, and an operand that needs a symbol has one.
\<close>

theorem mips_operands_typed:
  assumes "parse_operands MAX_OPS a = Some (ys, b)"
  shows "length ys \<le> 4 \<and> list_all operand_ok ys"
proof -
  have "length ys \<le> n \<and> list_all operand_ok ys" if "parse_operands n a = Some (ys, b)" for n
    using that
  proof (induction n arbitrary: a ys)
    case (Suc n)
    obtain x c where x: "parse_operand a = Some (x, c)" using Suc(2) by (auto simp: bind_eq_Some_conv)
    then show ?case
      using Suc parse_operand_ok [OF x] by (auto simp: bind_eq_Some_conv split: if_splits dest!: Suc.IH)
  qed simp
  from this [OF assms] show ?thesis by (simp add: MAX_OPS_def)
qed

theorem mips_operands_typed_witness:
  "\<exists>ys b. parse_operands MAX_OPS (advance (Mips_Parse.mips_init ''$4, %lo(x)($sp)'')) = Some (ys, b) \<and> length ys = 2 \<and> list_all operand_ok ys"
proof -
  have "case parse_operands MAX_OPS (advance (Mips_Parse.mips_init ''$4, %lo(x)($sp)'')) of Some (ys, b) \<Rightarrow> length ys = 2 | None \<Rightarrow> False"
    by code_simp
  then obtain ys b where "parse_operands MAX_OPS (advance (Mips_Parse.mips_init ''$4, %lo(x)($sp)'')) = Some (ys, b)" "length ys = 2"
    by (auto split: option.splits)
  then show ?thesis using mips_operands_typed by blast
qed

end
