(* ===== verification/Ld_Link.thy ===== *)
theory Ld_Link
  imports Prelude
begin

text \<open>
  The arch-neutral core of the linkers (\<^verbatim>\<open>ld/link.c\<close>): the symbol table, section matching and
  placement, symbol resolution and the search for the output section of an input section. Input objects
  and the parsed script are data; reading them from files is outside. An address is a \<open>u32\<close> and wraps as
  in C. A buffer is a function from offsets to bytes with the capacity the code keeps, and a write or read
  outside it is \<open>None\<close>, like an index out of range and \<open>die()\<close>.
\<close>

unbundle bit_operations_syntax

subsection \<open>Data\<close>

abbreviation (input) SHT_PROGBITS :: nat where "SHT_PROGBITS \<equiv> 1"
abbreviation (input) SHT_NOBITS :: nat where "SHT_NOBITS \<equiv> 8"
abbreviation (input) SHF_ALLOC :: u32 where "SHF_ALLOC \<equiv> 2"
abbreviation (input) STB_LOCAL :: nat where "STB_LOCAL \<equiv> 0"
abbreviation (input) STB_GLOBAL :: nat where "STB_GLOBAL \<equiv> 1"
abbreviation (input) STB_WEAK :: nat where "STB_WEAK \<equiv> 2"
abbreviation (input) STT_NOTYPE :: nat where "STT_NOTYPE \<equiv> 0"
abbreviation (input) STT_SECTION :: nat where "STT_SECTION \<equiv> 3"
abbreviation (input) SHN_UNDEF :: nat where "SHN_UNDEF \<equiv> 0"
abbreviation (input) SHN_ABS :: nat where "SHN_ABS \<equiv> 0xFFF1"

record ld_input_sec =
  is_name :: string
  is_type :: nat
  is_flags :: u32
  is_data :: "u8 list"
  is_size :: u32
  is_align :: u32
  is_vaddr :: u32
  is_matched :: bool

record ld_reloc =
  lr_offset :: u32
  lr_sym_idx :: nat
  lr_addend :: int
  lr_type :: nat
  lr_section :: nat

record ld_input_sym =
  iy_name :: string
  iy_value :: u32
  iy_size :: u32
  iy_shndx :: nat
  iy_binding :: nat
  iy_type :: nat

record ld_object =
  ob_path :: string
  ob_sections :: "ld_input_sec list"
  ob_syms :: "ld_input_sym list"
  ob_relocs :: "ld_reloc list"
  ob_sym_map :: "nat list"

record ld_symbol =
  gs_name :: string
  gs_value :: u32
  gs_defined :: bool
  gs_weak :: bool
  gs_obj_idx :: int
  gs_sec_idx :: int
  gs_type :: nat
  gs_size :: u32
  gs_binding :: nat

record sec_pattern =
  sp_name :: string
  sp_wildcard :: bool

record sym_assign =
  sa_name :: string
  sa_before_inputs :: bool
  sa_after_pattern :: nat

record ld_output_sec =
  os_name :: string
  os_discard :: bool
  os_nobits :: bool
  os_vaddr :: u32
  os_size :: u32
  os_data :: "nat \<Rightarrow> u8"
  os_data_cap :: int
  os_region :: "string option"
  os_patterns :: "sec_pattern list"
  os_assigns :: "sym_assign list"

record ld_mem_region =
  mr_name :: string
  mr_origin :: u32
  mr_length :: u32
  mr_cursor :: u32

record ld_script =
  sc_entry :: "string option"
  sc_regions :: "ld_mem_region list"
  sc_nphdrs :: nat
  sc_sections :: "ld_output_sec list"

record ld_debug_sec =
  db_name :: string
  db_data :: "nat \<Rightarrow> u8"
  db_size :: u32
  db_cap :: u32

record linker =
  ln_objs :: "ld_object list"
  ln_syms :: "ld_symbol list"
  ln_script :: ld_script
  ln_entry_vaddr :: u32
  ln_debug :: "ld_debug_sec list"
  ln_ehdr_size :: u32
  ln_phent_size :: u32

text \<open>Run a step over the elements of an array that it may update, threading a state.\<close>

fun each :: "('a \<Rightarrow> 's \<Rightarrow> ('a \<times> 's) option) \<Rightarrow> 'a list \<Rightarrow> 's \<Rightarrow> ('a list \<times> 's) option" where
  "each f [] s = Some ([], s)"
| "each f (x # xs) s =
     do { (x', s) \<leftarrow> f x s; (xs', s) \<leftarrow> each f xs s; Some (x' # xs', s) }"

subsection \<open>The symbol table\<close>

fun sym_find :: "ld_symbol list \<Rightarrow> string \<Rightarrow> nat option" where
  "sym_find [] name = None"
| "sym_find (g # gs) name = (if gs_name g = name then Some 0 else map_option Suc (sym_find gs name))"

definition sym_add :: "string \<Rightarrow> u32 \<Rightarrow> bool \<Rightarrow> bool \<Rightarrow> int \<Rightarrow> int \<Rightarrow> ld_symbol list \<Rightarrow> ld_symbol list" where
  "sym_add name v def weak oi si gs =
     gs @ [\<lparr> gs_name = name, gs_value = v, gs_defined = def, gs_weak = weak, gs_obj_idx = oi, gs_sec_idx = si,
             gs_type = STT_NOTYPE, gs_size = 0, gs_binding = STB_GLOBAL \<rparr>]"

definition new_symbol :: "nat \<Rightarrow> ld_input_sym \<Rightarrow> bool \<Rightarrow> nat \<Rightarrow> ld_symbol list \<Rightarrow> ld_symbol list" where
  "new_symbol oi y weak binding gs =
     (let gs' = sym_add (iy_name y) (iy_value y) (iy_shndx y \<noteq> SHN_UNDEF) weak (int oi) (int (iy_shndx y)) gs; i = length gs
      in gs'[i := (gs' ! i)\<lparr> gs_type := iy_type y, gs_size := iy_size y, gs_binding := binding \<rparr>])"

text \<open>What the definition or reference \<open>y\<close> does to the table entry of the same name.\<close>

definition take_def :: "nat \<Rightarrow> ld_input_sym \<Rightarrow> bool \<Rightarrow> ld_symbol \<Rightarrow> ld_symbol" where
  "take_def oi y weak g =
     g\<lparr> gs_defined := True, gs_value := iy_value y, gs_weak := weak, gs_obj_idx := int oi, gs_sec_idx := int (iy_shndx y),
        gs_type := iy_type y, gs_size := iy_size y \<rparr>"

definition merge_sym :: "nat \<Rightarrow> ld_input_sym \<Rightarrow> ld_symbol \<Rightarrow> ld_symbol option" where
  "merge_sym oi y g =
     (let is_def = (iy_shndx y \<noteq> SHN_UNDEF); is_weak = (iy_binding y = STB_WEAK) in
      if is_def then
        (if gs_defined g then
           (if gs_weak g \<and> \<not> is_weak then Some (take_def oi y False g)
            else if \<not> gs_weak g \<and> \<not> is_weak then None
            else Some g)
         else Some (take_def oi y is_weak g))
      else if \<not> gs_defined g \<and> \<not> is_weak then Some (g\<lparr> gs_weak := False \<rparr>)
      else Some g)"

definition collect_sym :: "nat \<Rightarrow> ld_input_sym \<Rightarrow> ld_symbol list \<Rightarrow> (nat \<times> ld_symbol list) option" where
  "collect_sym oi y gs =
     (if iy_binding y = STB_LOCAL then Some (length gs, new_symbol oi y False STB_LOCAL gs)
      else case sym_find gs (iy_name y) of
             Some i \<Rightarrow> do { g \<leftarrow> merge_sym oi y (gs ! i); Some (i, gs[i := g]) }
           | None \<Rightarrow> Some (length gs, new_symbol oi y (iy_binding y = STB_WEAK) STB_GLOBAL gs))"

fun collect_syms :: "nat \<Rightarrow> ld_input_sym list \<Rightarrow> ld_symbol list \<Rightarrow> (nat list \<times> ld_symbol list) option" where
  "collect_syms oi [] gs = Some ([], gs)"
| "collect_syms oi (y # ys) gs =
     do { (i, gs) \<leftarrow> collect_sym oi y gs; (is, gs) \<leftarrow> collect_syms oi ys gs; Some (i # is, gs) }"

fun collect_objs :: "nat \<Rightarrow> ld_object list \<Rightarrow> ld_symbol list \<Rightarrow> (ld_object list \<times> ld_symbol list) option" where
  "collect_objs oi [] gs = Some ([], gs)"
| "collect_objs oi (ob # obs) gs =
     do { (is, gs) \<leftarrow> collect_syms oi (ob_syms ob) gs;
          (obs', gs) \<leftarrow> collect_objs (Suc oi) obs gs;
          Some (ob\<lparr> ob_sym_map := is \<rparr> # obs', gs) }"

definition collect_symbols :: "linker \<Rightarrow> linker option" where
  "collect_symbols ln =
     do { (obs, gs) \<leftarrow> collect_objs 0 (ln_objs ln) (ln_syms ln); Some (ln\<lparr> ln_objs := obs, ln_syms := gs \<rparr>) }"

subsection \<open>Matching and placing sections\<close>

definition pattern_matches :: "sec_pattern \<Rightarrow> string \<Rightarrow> bool" where
  "pattern_matches pat name =
     (if sp_name pat = ''COMMON'' then name = ''COMMON''
      else if sp_wildcard pat then
        (let plen = length (sp_name pat) in
         take plen name = sp_name pat \<and> (case drop plen name of [] \<Rightarrow> True | c # _ \<Rightarrow> c = CHR ''.''))
      else sp_name pat = name)"

fun find_region :: "ld_mem_region list \<Rightarrow> string \<Rightarrow> nat option" where
  "find_region [] name = None"
| "find_region (r # rs) name = (if mr_name r = name then Some 0 else map_option Suc (find_region rs name))"

definition align_up :: "u32 \<Rightarrow> u32 \<Rightarrow> u32" where
  "align_up v a = (v + a - 1) AND NOT (a - 1)"

definition outsec_ensure :: "int \<Rightarrow> ld_output_sec \<Rightarrow> ld_output_sec option" where
  "outsec_ensure need os =
     (if need \<le> os_data_cap os then Some os
      else if need * 2 > INT_MAX then None
      else Some (os\<lparr> os_data_cap := need * 2 \<rparr>))"

text \<open>Copy bytes into a buffer of the given capacity at an offset; an empty copy does nothing.\<close>

definition blit :: "u8 list \<Rightarrow> nat \<Rightarrow> int \<Rightarrow> (nat \<Rightarrow> u8) \<Rightarrow> (nat \<Rightarrow> u8) option" where
  "blit bs off cap f =
     (if bs = [] then Some f
      else if int (off + length bs) \<le> cap
      then Some (\<lambda>i. if off \<le> i \<and> i < off + length bs then bs ! (i - off) else f i) else None)"

text \<open>The bytes to copy for an input section: its data, or zeros when it has none.\<close>

definition sec_bytes :: "u8 list option \<Rightarrow> u32 \<Rightarrow> u8 list option" where
  "sec_bytes data n =
     (case data of
        None \<Rightarrow> Some (replicate (unat n) 0)
      | Some bs \<Rightarrow> if unat n \<le> length bs then Some (take (unat n) bs) else None)"

definition outsec_append :: "u8 list option \<Rightarrow> u32 \<Rightarrow> u32 \<Rightarrow> ld_output_sec \<Rightarrow> ld_output_sec option" where
  "outsec_append data n al os =
     (let abs_end = os_vaddr os + os_size os; pad = align_up abs_end al - abs_end in
      do { os \<leftarrow> outsec_ensure (sint (os_size os + pad + n)) os;
           f \<leftarrow> blit (replicate (unat pad) 0) (unat (os_size os)) (os_data_cap os) (os_data os);
           let sz = os_size os + pad;
           bs \<leftarrow> sec_bytes data n;
           f \<leftarrow> blit bs (unat sz) (os_data_cap os) f;
           Some (os\<lparr> os_data := f, os_size := sz + n \<rparr>) })"

definition assign_matches :: "nat \<Rightarrow> sym_assign \<Rightarrow> bool" where
  "assign_matches target sa \<longleftrightarrow>
     sa_before_inputs sa \<and> target = 0 \<or> \<not> sa_before_inputs sa \<and> sa_after_pattern sa = target"

definition process_assign :: "nat \<Rightarrow> u32 \<Rightarrow> ld_symbol list \<Rightarrow> sym_assign \<Rightarrow> ld_symbol list" where
  "process_assign target cursor gs sa =
     (if \<not> assign_matches target sa then gs
      else case sym_find gs (sa_name sa) of
             Some i \<Rightarrow> gs[i := (gs ! i)\<lparr> gs_value := cursor, gs_defined := True, gs_weak := False \<rparr>]
           | None \<Rightarrow> sym_add (sa_name sa) cursor True False (- 1) (- 1) gs)"

definition process_assigns :: "ld_output_sec \<Rightarrow> nat \<Rightarrow> u32 \<Rightarrow> ld_symbol list \<Rightarrow> ld_symbol list" where
  "process_assigns os target cursor gs = foldl (process_assign target cursor) gs (os_assigns os)"

definition discard_sec :: "sec_pattern \<Rightarrow> ld_input_sec \<Rightarrow> ld_input_sec" where
  "discard_sec pat i =
     (if is_matched i then i
      else if is_flags i AND SHF_ALLOC = 0 \<and> is_type i \<noteq> SHT_PROGBITS \<and> is_type i \<noteq> SHT_NOBITS then i
      else if pattern_matches pat (is_name i) then i\<lparr> is_matched := True \<rparr> else i)"

definition discard_objs :: "ld_object list \<Rightarrow> sec_pattern \<Rightarrow> ld_object list" where
  "discard_objs obs pat = map (\<lambda>ob. ob\<lparr> ob_sections := map (discard_sec pat) (ob_sections ob) \<rparr>) obs"

definition place_sec :: "sec_pattern \<Rightarrow> ld_input_sec \<Rightarrow> ld_output_sec \<Rightarrow> (ld_input_sec \<times> ld_output_sec) option" where
  "place_sec pat i os =
     (if is_matched i \<or> (is_type i \<noteq> SHT_PROGBITS \<and> is_type i \<noteq> SHT_NOBITS) \<or> \<not> pattern_matches pat (is_name i)
      then Some (i, os)
      else
        let abs_end = os_vaddr os + os_size os;
            pad = align_up abs_end (is_align i) - abs_end;
            i' = i\<lparr> is_matched := True, is_vaddr := os_vaddr os + os_size os + pad \<rparr>
        in do { os' \<leftarrow> (if is_type i = SHT_NOBITS
                         then outsec_append None (is_size i) (is_align i) (os\<lparr> os_nobits := True \<rparr>)
                         else outsec_append (Some (is_data i)) (is_size i) (is_align i) os);
                Some (i', os') })"

definition place_obj :: "sec_pattern \<Rightarrow> ld_object \<Rightarrow> ld_output_sec \<Rightarrow> (ld_object \<times> ld_output_sec) option" where
  "place_obj pat ob os =
     do { (secs, os) \<leftarrow> each (place_sec pat) (ob_sections ob) os; Some (ob\<lparr> ob_sections := secs \<rparr>, os) }"

text \<open>The pattern groups of an output section, from group \<open>k\<close> on.\<close>

fun place_patterns ::
  "nat \<Rightarrow> sec_pattern list \<Rightarrow> ld_object list \<Rightarrow> ld_symbol list \<Rightarrow> ld_output_sec \<Rightarrow> (ld_object list \<times> ld_symbol list \<times> ld_output_sec) option"
where
  "place_patterns k [] obs gs os = Some (obs, gs, os)"
| "place_patterns k (pat # pats) obs gs os =
     do { (obs, os) \<leftarrow> each (place_obj pat) obs os;
          place_patterns (Suc k) pats obs (process_assigns os (Suc k) (os_vaddr os + os_size os) gs) os }"

text \<open>One iteration of the layout loop, for the output section with index \<open>si\<close>.\<close>

definition layout_placed :: "nat option \<Rightarrow> nat \<Rightarrow> linker \<Rightarrow> linker option" where
  "layout_placed ri si ln =
     (let sc = ln_script ln; os = sc_sections sc ! si;
          os = (case ri of Some r \<Rightarrow> os\<lparr> os_vaddr := mr_cursor (sc_regions sc ! r) \<rparr> | None \<Rightarrow> os);
          gs = process_assigns os 0 (os_vaddr os) (ln_syms ln)
      in do { (obs, gs, os) \<leftarrow> place_patterns 0 (os_patterns os) (ln_objs ln) gs os;
              rs \<leftarrow> (case ri of
                       None \<Rightarrow> Some (sc_regions sc)
                     | Some r \<Rightarrow>
                         let reg = sc_regions sc ! r; cursor = os_vaddr os + os_size os
                         in if cursor > mr_origin reg + mr_length reg then None
                            else Some ((sc_regions sc)[r := reg\<lparr> mr_cursor := cursor \<rparr>]));
              Some (ln\<lparr> ln_objs := obs, ln_syms := gs,
                        ln_script := sc\<lparr> sc_regions := rs, sc_sections := (sc_sections sc)[si := os] \<rparr> \<rparr>) })"

definition layout_section :: "nat \<Rightarrow> linker \<Rightarrow> linker option" where
  "layout_section si ln =
     (let sc = ln_script ln; os = sc_sections sc ! si in
      if os_discard os then Some (ln\<lparr> ln_objs := foldl discard_objs (ln_objs ln) (os_patterns os) \<rparr>)
      else case os_region os of
             None \<Rightarrow> layout_placed None si ln
           | Some name \<Rightarrow> do { r \<leftarrow> find_region (sc_regions sc) name; layout_placed (Some r) si ln })"

fun layout_sections :: "nat list \<Rightarrow> linker \<Rightarrow> linker option" where
  "layout_sections [] ln = Some ln"
| "layout_sections (si # sis) ln = do { ln \<leftarrow> layout_section si ln; layout_sections sis ln }"

subsection \<open>Final addresses\<close>

definition resolve_sym :: "ld_object \<Rightarrow> ld_input_sym \<Rightarrow> ld_symbol \<Rightarrow> ld_symbol option" where
  "resolve_sym ob y g =
     (if gs_obj_idx g < 0 then Some g
      else if iy_binding y = STB_LOCAL \<and> iy_type y = STT_SECTION then
        (if iy_shndx y < length (ob_sections ob) then Some (g\<lparr> gs_value := is_vaddr (ob_sections ob ! iy_shndx y) \<rparr>) else None)
      else if iy_shndx y \<noteq> SHN_UNDEF \<and> iy_shndx y \<noteq> SHN_ABS then
        (if iy_shndx y < length (ob_sections ob)
         then Some (g\<lparr> gs_value := is_vaddr (ob_sections ob ! iy_shndx y) + iy_value y \<rparr>) else None)
      else Some g)"

fun resolve_syms :: "ld_object \<Rightarrow> (ld_input_sym \<times> nat) list \<Rightarrow> ld_symbol list \<Rightarrow> ld_symbol list option" where
  "resolve_syms ob [] gs = Some gs"
| "resolve_syms ob ((y, gi) # ys) gs =
     (if gi < length gs then do { g \<leftarrow> resolve_sym ob y (gs ! gi); resolve_syms ob ys (gs[gi := g]) } else None)"

fun resolve_objs :: "ld_object list \<Rightarrow> ld_symbol list \<Rightarrow> ld_symbol list option" where
  "resolve_objs [] gs = Some gs"
| "resolve_objs (ob # obs) gs =
     do { gs \<leftarrow> resolve_syms ob (zip (ob_syms ob) (ob_sym_map ob)) gs; resolve_objs obs gs }"

definition find_entry :: "linker \<Rightarrow> linker option" where
  "find_entry ln =
     (case sc_entry (ln_script ln) of
        None \<Rightarrow> Some ln
      | Some name \<Rightarrow>
          do { ei \<leftarrow> sym_find (ln_syms ln) name;
               if gs_defined (ln_syms ln ! ei) then Some (ln\<lparr> ln_entry_vaddr := gs_value (ln_syms ln ! ei) \<rparr>) else None })"

definition headers_size :: "linker \<Rightarrow> u32" where
  "headers_size ln =
     (let n = (if sc_nphdrs (ln_script ln) > 0 then sc_nphdrs (ln_script ln) else 1);
          eh = (if ln_ehdr_size ln \<noteq> 0 then ln_ehdr_size ln else 52);
          pe = (if ln_phent_size ln \<noteq> 0 then ln_phent_size ln else 32)
      in eh + of_nat n * pe)"

definition start_regions :: "linker \<Rightarrow> linker" where
  "start_regions ln =
     (let sc = ln_script ln
      in ln\<lparr> ln_script := sc\<lparr> sc_regions := map (\<lambda>r. r\<lparr> mr_cursor := mr_origin r + headers_size ln \<rparr>) (sc_regions sc) \<rparr> \<rparr>)"

definition ld_layout :: "linker \<Rightarrow> linker option" where
  "ld_layout ln =
     do { ln \<leftarrow> collect_symbols ln;
          ln \<leftarrow> layout_sections [0..<length (sc_sections (ln_script ln))] (start_regions ln);
          gs \<leftarrow> resolve_objs (ln_objs ln) (ln_syms ln);
          find_entry (ln\<lparr> ln_syms := gs \<rparr>) }"

text \<open>The output section whose address range holds an input section.\<close>

definition holds_sec :: "ld_input_sec \<Rightarrow> ld_output_sec \<Rightarrow> bool" where
  "holds_sec i os \<longleftrightarrow> \<not> os_discard os \<and> os_vaddr os \<le> is_vaddr i \<and> is_vaddr i < os_vaddr os + os_size os"

fun find_output :: "ld_output_sec list \<Rightarrow> ld_input_sec \<Rightarrow> nat option" where
  "find_output [] i = None"
| "find_output (os # oss) i = (if holds_sec i os then Some 0 else map_option Suc (find_output oss i))"

definition ld_find_output_sec :: "linker \<Rightarrow> ld_input_sec \<Rightarrow> nat option" where
  "ld_find_output_sec ln i = find_output (sc_sections (ln_script ln)) i"

subsection \<open>Debug sections and undefined symbols\<close>

fun find_debug :: "ld_debug_sec list \<Rightarrow> string \<Rightarrow> nat option" where
  "find_debug [] name = None"
| "find_debug (d # ds) name = (if db_name d = name then Some 0 else map_option Suc (find_debug ds name))"

definition is_debug :: "ld_input_sec \<Rightarrow> bool" where
  "is_debug i \<longleftrightarrow> is_type i = SHT_PROGBITS \<and> take 7 (is_name i) = ''.debug_''"

definition MAX_DEBUG_SECS :: nat where "MAX_DEBUG_SECS = 4"

definition debug_append :: "ld_input_sec \<Rightarrow> ld_debug_sec \<Rightarrow> (ld_input_sec \<times> ld_debug_sec) option" where
  "debug_append i d =
     (let cap = (if db_size d + is_size i > db_cap d then (db_size d + is_size i) * 2 else db_cap d) in
      do { bs \<leftarrow> sec_bytes (Some (is_data i)) (is_size i);
           f \<leftarrow> blit bs (unat (db_size d)) (uint cap) (db_data d);
           Some (i\<lparr> is_vaddr := db_size d \<rparr>, d\<lparr> db_data := f, db_size := db_size d + is_size i, db_cap := cap \<rparr>) })"

definition debug_sec :: "ld_input_sec \<Rightarrow> ld_debug_sec list \<Rightarrow> (ld_input_sec \<times> ld_debug_sec list) option" where
  "debug_sec i ds =
     (if \<not> is_debug i then Some (i, ds)
      else case find_debug ds (is_name i) of
             Some k \<Rightarrow> do { (i, d) \<leftarrow> debug_append i (ds ! k); Some (i, ds[k := d]) }
           | None \<Rightarrow>
               if length ds \<ge> MAX_DEBUG_SECS then None
               else do { (i, d) \<leftarrow> debug_append i \<lparr> db_name = is_name i, db_data = (\<lambda>_. 0), db_size = 0, db_cap = 0 \<rparr>; Some (i, ds @ [d]) })"

definition debug_obj :: "ld_object \<Rightarrow> ld_debug_sec list \<Rightarrow> (ld_object \<times> ld_debug_sec list) option" where
  "debug_obj ob ds = do { (secs, ds) \<leftarrow> each debug_sec (ob_sections ob) ds; Some (ob\<lparr> ob_sections := secs \<rparr>, ds) }"

definition ld_build_debug :: "linker \<Rightarrow> linker option" where
  "ld_build_debug ln =
     do { (obs, ds) \<leftarrow> each debug_obj (ln_objs ln) (ln_debug ln); Some (ln\<lparr> ln_objs := obs, ln_debug := ds \<rparr>) }"

definition ld_check_undefined :: "linker \<Rightarrow> linker option" where
  "ld_check_undefined ln =
     (if list_all (\<lambda>g. gs_defined g \<or> gs_weak g \<or> gs_name g = []) (ln_syms ln) then Some ln else None)"

definition blank_object :: ld_object where
  "blank_object = \<lparr> ob_path = [], ob_sections = [], ob_syms = [], ob_relocs = [], ob_sym_map = [] \<rparr>"

definition ld_add_object :: "linker \<Rightarrow> linker" where
  "ld_add_object ln = ln\<lparr> ln_objs := ln_objs ln @ [blank_object] \<rparr>"

end
