(* ===== verification/Mips_Link.thy ===== *)
theory Mips_Link
  imports Ld_Link
begin

text \<open>
  Relocation on top of the layout core: the ColdFire linker (\<open>ld_link\<close> of \<^verbatim>\<open>ld/link.c\<close>) and the MIPS
  linker (\<^verbatim>\<open>ld/mips_link.c\<close>). A relocation finds the four or two bytes it patches through the output
  section that holds its input section; a patch outside the output buffer is \<open>None\<close>, as is every \<open>die()\<close>.
  A left shift of a negative \<open>int\<close> multiplies, as the compilers in use define it; a signed sum that does not fit is \<open>None\<close>.
\<close>

unbundle bit_operations_syntax

subsection \<open>Patching the output\<close>

definition os_write :: "nat \<Rightarrow> nat \<Rightarrow> u8 list \<Rightarrow> linker \<Rightarrow> linker option" where
  "os_write k off bs ln =
     (let sc = ln_script ln; os = sc_sections sc ! k in
      do { f \<leftarrow> blit bs off (os_data_cap os) (os_data os);
           Some (ln\<lparr> ln_script := sc\<lparr> sc_sections := (sc_sections sc)[k := os\<lparr> os_data := f \<rparr>] \<rparr> \<rparr>) })"

definition debug_write :: "nat \<Rightarrow> nat \<Rightarrow> u8 list \<Rightarrow> linker \<Rightarrow> linker option" where
  "debug_write k off bs ln =
     (let d = ln_debug ln ! k in
      do { f \<leftarrow> blit bs off (uint (db_cap d)) (db_data d); Some (ln\<lparr> ln_debug := (ln_debug ln)[k := d\<lparr> db_data := f \<rparr>] \<rparr>) })"

definition put16 :: "u16 \<Rightarrow> u8 list" where
  "put16 v = [ucast (drop_bit 8 v), ucast v]"

definition put32 :: "u32 \<Rightarrow> u8 list" where
  "put32 v = [ucast (drop_bit 24 v), ucast (drop_bit 16 v), ucast (drop_bit 8 v), ucast v]"

text \<open>Where a relocation patches: output section, offset in it, and run-time address.\<close>

definition patch_place :: "linker \<Rightarrow> ld_input_sec \<Rightarrow> ld_reloc \<Rightarrow> (nat \<times> nat \<times> u32) option" where
  "patch_place ln i rel =
     map_option (\<lambda>k. (k, unat ((is_vaddr i - os_vaddr (sc_sections (ln_script ln) ! k)) + lr_offset rel), is_vaddr i + lr_offset rel))
       (ld_find_output_sec ln i)"

definition reloc_sec :: "ld_object \<Rightarrow> ld_reloc \<Rightarrow> ld_input_sec option" where
  "reloc_sec ob rel = (if lr_section rel < length (ob_sections ob) then Some (ob_sections ob ! lr_section rel) else None)"

definition reloc_gsym :: "linker \<Rightarrow> ld_object \<Rightarrow> ld_reloc \<Rightarrow> ld_symbol option" where
  "reloc_gsym ln ob rel =
     (if lr_sym_idx rel < length (ob_sym_map ob) \<and> ob_sym_map ob ! lr_sym_idx rel < length (ln_syms ln)
      then Some (ln_syms ln ! (ob_sym_map ob ! lr_sym_idx rel)) else None)"

definition reloc_symval :: "linker \<Rightarrow> ld_object \<Rightarrow> ld_reloc \<Rightarrow> u32 option" where
  "reloc_symval ln ob rel =
     do { g \<leftarrow> reloc_gsym ln ob rel; if \<not> gs_defined g \<and> \<not> gs_weak g then None else Some (gs_value g) }"

subsection \<open>ColdFire\<close>

abbreviation (input) R_68K_32 :: nat where "R_68K_32 \<equiv> 1"
abbreviation (input) R_68K_PC32 :: nat where "R_68K_PC32 \<equiv> 4"
abbreviation (input) R_68K_PC16 :: nat where "R_68K_PC16 \<equiv> 5"

definition m68k_field :: "nat \<Rightarrow> u32 \<Rightarrow> u32 \<Rightarrow> u32 \<Rightarrow> u8 list option" where
  "m68k_field ty S A P =
     (if ty = R_68K_32 then Some (put32 (S + A))
      else if ty = R_68K_PC32 then Some (put32 (S + A - P))
      else if ty = R_68K_PC16 then
        (let v = sint (S + A - P) in if v < - 32768 \<or> v > 32767 then None else Some (put16 (word_of_int v)))
      else None)"

definition m68k_reloc :: "ld_object \<Rightarrow> ld_reloc \<Rightarrow> linker \<Rightarrow> linker option" where
  "m68k_reloc ob rel ln =
     do { S \<leftarrow> reloc_symval ln ob rel;
          i \<leftarrow> reloc_sec ob rel;
          if \<not> is_matched i then Some ln
          else do { (k, off, P) \<leftarrow> patch_place ln i rel;
                    bs \<leftarrow> m68k_field (lr_type rel) S (word_of_int (lr_addend rel)) P;
                    os_write k off bs ln } }"

text \<open>The place of a relocation in a merged debug section, when its section is one.\<close>

definition debug_place :: "linker \<Rightarrow> ld_object \<Rightarrow> ld_reloc \<Rightarrow> (nat \<times> nat) option option" where
  "debug_place ln ob rel =
     map_option (\<lambda>i. if is_debug i
                     then map_option (\<lambda>k. (k, unat (is_vaddr i) + unat (lr_offset rel))) (find_debug (ln_debug ln) (is_name i))
                     else None)
       (reloc_sec ob rel)"

definition m68k_debug_reloc :: "ld_object \<Rightarrow> ld_reloc \<Rightarrow> linker \<Rightarrow> linker option" where
  "m68k_debug_reloc ob rel ln =
     do { p \<leftarrow> debug_place ln ob rel;
          case p of
            None \<Rightarrow> Some ln
          | Some (k, off) \<Rightarrow>
              do { g \<leftarrow> reloc_gsym ln ob rel;
                   if lr_type rel = R_68K_32 then debug_write k off (put32 (gs_value g + word_of_int (lr_addend rel))) ln else None } }"

text \<open>A step for every relocation of every object; the objects are those of the state the loop starts in.\<close>

fun for_relocs :: "(ld_reloc \<Rightarrow> linker \<Rightarrow> linker option) \<Rightarrow> ld_reloc list \<Rightarrow> linker \<Rightarrow> linker option" where
  "for_relocs f [] ln = Some ln"
| "for_relocs f (rel # rels) ln = do { ln \<leftarrow> f rel ln; for_relocs f rels ln }"

fun for_objs :: "(ld_object \<Rightarrow> linker \<Rightarrow> linker option) \<Rightarrow> ld_object list \<Rightarrow> linker \<Rightarrow> linker option" where
  "for_objs f [] ln = Some ln"
| "for_objs f (ob # obs) ln = do { ln \<leftarrow> f ob ln; for_objs f obs ln }"

definition ld_link :: "linker \<Rightarrow> linker option" where
  "ld_link ln =
     do { ln \<leftarrow> ld_layout ln;
          ln \<leftarrow> for_objs (\<lambda>ob. for_relocs (m68k_reloc ob) (ob_relocs ob)) (ln_objs ln) ln;
          ln \<leftarrow> ld_build_debug ln;
          ln \<leftarrow> for_objs (\<lambda>ob. for_relocs (m68k_debug_reloc ob) (ob_relocs ob)) (ln_objs ln) ln;
          ld_check_undefined ln }"

subsection \<open>MIPS\<close>

abbreviation (input) R_MIPS_NONE :: nat where "R_MIPS_NONE \<equiv> 0"
abbreviation (input) R_MIPS_16 :: nat where "R_MIPS_16 \<equiv> 1"
abbreviation (input) R_MIPS_32 :: nat where "R_MIPS_32 \<equiv> 2"
abbreviation (input) R_MIPS_26 :: nat where "R_MIPS_26 \<equiv> 4"
abbreviation (input) R_MIPS_HI16 :: nat where "R_MIPS_HI16 \<equiv> 5"
abbreviation (input) R_MIPS_LO16 :: nat where "R_MIPS_LO16 \<equiv> 6"
abbreviation (input) R_MIPS_PC16 :: nat where "R_MIPS_PC16 \<equiv> 10"

definition rd32 :: "(nat \<Rightarrow> u8) \<Rightarrow> nat \<Rightarrow> u32" where
  "rd32 f off =
     ucast (f off) OR push_bit 8 (ucast (f (off + 1))) OR push_bit 16 (ucast (f (off + 2))) OR push_bit 24 (ucast (f (off + 3)))"

definition wr32 :: "u32 \<Rightarrow> u8 list" where
  "wr32 v = [ucast v, ucast (drop_bit 8 v), ucast (drop_bit 16 v), ucast (drop_bit 24 v)]"

text \<open>A read of four bytes of an output section.\<close>

definition os_read :: "nat \<Rightarrow> nat \<Rightarrow> linker \<Rightarrow> u32 option" where
  "os_read k off ln =
     (let os = sc_sections (ln_script ln) ! k in if int (off + 4) \<le> os_data_cap os then Some (rd32 (os_data os) off) else None)"

text \<open>\<open>None\<close> inside means the section was discarded.\<close>

definition reloc_patch :: "linker \<Rightarrow> ld_object \<Rightarrow> ld_reloc \<Rightarrow> (nat \<times> nat \<times> u32) option option" where
  "reloc_patch ln ob rel =
     map_option (\<lambda>i. if is_matched i then patch_place ln i rel else None) (reloc_sec ob rel)"

definition low16 :: "u32 \<Rightarrow> u32" where
  "low16 v = signed_take_bit 15 (v AND 0xFFFF)"

definition apply_16 :: "u32 \<Rightarrow> u32 \<Rightarrow> u32" where
  "apply_16 S field = (field AND 0xFFFF0000) OR ((S + low16 field) AND 0xFFFF)"

definition apply_26 :: "u32 \<Rightarrow> u32 \<Rightarrow> u32 \<Rightarrow> u32 option" where
  "apply_26 S P field =
     (let A = push_bit 2 (field AND 0x3FFFFFF) in
      if drop_bit 28 (S + A) \<noteq> drop_bit 28 (P + 4) then None
      else Some ((field AND NOT 0x3FFFFFF) OR (drop_bit 2 (S + A) AND 0x3FFFFFF)))"

definition apply_pc16 :: "u32 \<Rightarrow> u32 \<Rightarrow> u32 \<Rightarrow> u32 option" where
  "apply_pc16 S P field =
     (let A = 4 * low16 field; disp = sint (S + A - P) in
      if disp < - 0x20000 \<or> disp > 0x1FFFF then None
      else Some ((field AND 0xFFFF0000) OR (word_of_int (disp div 4) AND 0xFFFF)))"

definition apply_hi16 :: "u32 \<Rightarrow> u32 \<Rightarrow> u32 \<Rightarrow> u32 option" where
  "apply_hi16 S field lo_field =
     (let ahl = sint (push_bit 16 (field AND 0xFFFF)) + sint (low16 lo_field) in
      if ahl < - 2147483648 \<or> ahl > INT_MAX then None
      else let v = S + word_of_int ahl in Some ((field AND 0xFFFF0000) OR (drop_bit 16 (v + 0x8000) AND 0xFFFF)))"

text \<open>The field of the next \<open>LO16\<close> of the object, 0 when there is none or it was discarded.\<close>

definition next_lo16 :: "linker \<Rightarrow> ld_object \<Rightarrow> ld_reloc list \<Rightarrow> u32 option" where
  "next_lo16 ln ob rels =
     (case filter (\<lambda>r. lr_type r = R_MIPS_LO16) rels of
        [] \<Rightarrow> Some 0
      | r # _ \<Rightarrow> do { p \<leftarrow> reloc_patch ln ob r; case p of None \<Rightarrow> Some 0 | Some (k, off, _) \<Rightarrow> os_read k off ln })"

definition mips_field :: "linker \<Rightarrow> ld_object \<Rightarrow> ld_reloc list \<Rightarrow> nat \<Rightarrow> u32 \<Rightarrow> u32 \<Rightarrow> u32 \<Rightarrow> u32 option" where
  "mips_field ln ob rest ty S P field =
     (if ty = R_MIPS_32 then Some (S + field)
      else if ty = R_MIPS_16 then Some (apply_16 S field)
      else if ty = R_MIPS_26 then apply_26 S P field
      else if ty = R_MIPS_PC16 then apply_pc16 S P field
      else if ty = R_MIPS_HI16 then do { lo \<leftarrow> next_lo16 ln ob rest; apply_hi16 S field lo }
      else if ty = R_MIPS_LO16 then Some (apply_16 S field)
      else None)"

definition mips_reloc :: "ld_object \<Rightarrow> ld_reloc \<Rightarrow> ld_reloc list \<Rightarrow> linker \<Rightarrow> linker option" where
  "mips_reloc ob rel rest ln =
     (if lr_type rel = R_MIPS_NONE then Some ln
      else do { p \<leftarrow> reloc_patch ln ob rel;
                case p of
                  None \<Rightarrow> Some ln
                | Some (k, off, P) \<Rightarrow>
                    do { S \<leftarrow> reloc_symval ln ob rel;
                         field \<leftarrow> os_read k off ln;
                         v \<leftarrow> mips_field ln ob rest (lr_type rel) S P field;
                         os_write k off (wr32 v) ln } })"

fun mips_relocs :: "ld_object \<Rightarrow> ld_reloc list \<Rightarrow> linker \<Rightarrow> linker option" where
  "mips_relocs ob [] ln = Some ln"
| "mips_relocs ob (rel # rels) ln = do { ln \<leftarrow> mips_reloc ob rel rels ln; mips_relocs ob rels ln }"

definition mips_debug_reloc :: "ld_object \<Rightarrow> ld_reloc \<Rightarrow> linker \<Rightarrow> linker option" where
  "mips_debug_reloc ob rel ln =
     (if lr_type rel = R_MIPS_NONE then Some ln
      else do { p \<leftarrow> debug_place ln ob rel;
                case p of
                  None \<Rightarrow> Some ln
                | Some (k, off) \<Rightarrow>
                    do { S \<leftarrow> reloc_symval ln ob rel;
                         if lr_type rel \<noteq> R_MIPS_32 \<or> int (off + 4) > uint (db_cap (ln_debug ln ! k)) then None
                         else debug_write k off (wr32 (S + rd32 (db_data (ln_debug ln ! k)) off)) ln } })"

definition mips_ld_link :: "linker \<Rightarrow> linker option" where
  "mips_ld_link ln =
     do { ln \<leftarrow> ld_layout ln;
          ln \<leftarrow> for_objs (\<lambda>ob. mips_relocs ob (ob_relocs ob)) (ln_objs ln) ln;
          ln \<leftarrow> ld_build_debug ln;
          ln \<leftarrow> for_objs (\<lambda>ob. for_relocs (mips_debug_reloc ob) (ob_relocs ob)) (ln_objs ln) ln;
          ld_check_undefined ln }"

end
