(* ===== verification/Mips_Elf.thy ===== *)
theory Mips_Elf
  imports Mips_Encode
begin

text \<open>
  The object writer of the MIPS assembler (\<^verbatim>\<open>as/mips_elf.c\<close>): the folding of local symbols into the relocated
  fields, the symbol and string tables, the relocation entries and the bytes of the file. A buffer that grows is a list;
  \<open>None\<close> is undefined behaviour, a read past a section or an overflow of \<open>int32_t\<close>.
\<close>

unbundle bit_operations_syntax

subsection \<open>Folding local symbols into the relocated fields\<close>

definition elf_put16 :: "u16 \<Rightarrow> u8 list" where
  "elf_put16 v = [ucast v, ucast (drop_bit 8 v)]"

definition elf_put32 :: "u32 \<Rightarrow> u8 list" where
  "elf_put32 v = [ucast v, ucast (drop_bit 8 v), ucast (drop_bit 16 v), ucast (drop_bit 24 v)]"

definition elf_get32 :: "(nat \<Rightarrow> u8) \<Rightarrow> nat \<Rightarrow> u32" where
  "elf_get32 p off =
     ucast (p off) OR push_bit 8 (ucast (p (off + 1))) OR push_bit 16 (ucast (p (off + 2))) OR push_bit 24 (ucast (p (off + 3)))"

text \<open>The new field; the sum of \<open>R_MIPS_HI16\<close> is on \<open>int32_t\<close>, where overflow is undefined.\<close>

definition fold_word :: "nat \<Rightarrow> int \<Rightarrow> u32 \<Rightarrow> u32 option" where
  "fold_word ty v w =
     (if ty = R_MIPS_32 then Some (w + word_of_int v)
      else if ty = R_MIPS_26 then Some ((w AND NOT 0x3FFFFFF) OR ((w + drop_bit 2 (word_of_int v)) AND 0x3FFFFFF))
      else if ty = R_MIPS_HI16 then
        (if v + 0x8000 > INT_MAX then None
         else Some ((w AND 0xFFFF0000) OR (((w AND 0xFFFF) + drop_bit 16 (word_of_int (v + 0x8000))) AND 0xFFFF)))
      else if ty = R_MIPS_LO16 then Some ((w AND 0xFFFF0000) OR (((w AND 0xFFFF) + (word_of_int v AND 0xFFFF)) AND 0xFFFF))
      else if ty = R_MIPS_PC16 then
        Some ((w AND 0xFFFF0000) OR (((w AND 0xFFFF) + (drop_bit 2 (word_of_int v) AND 0xFFFF)) AND 0xFFFF))
      else Some w)"

definition fold_value :: "u32 \<Rightarrow> nat \<Rightarrow> int \<Rightarrow> asm_section \<Rightarrow> asm_section option" where
  "fold_value off ty v s =
     (let o1 = unat off in
      if int o1 + 4 > sec_len s then None
      else do { w \<leftarrow> fold_word ty v (elf_get32 (sec_data s) o1);
                Some (s\<lparr> sec_data := (\<lambda>j. if o1 \<le> j \<and> j < o1 + 4 then elf_put32 w ! (j - o1) else sec_data s j) \<rparr>) })"

subsection \<open>String tables and symbols\<close>

definition byte_of :: "char \<Rightarrow> u8" where
  "byte_of c = word_of_int (of_char c)"

definition strtab_init :: "u8 list" where
  "strtab_init = [0]"

definition strtab_add :: "string \<Rightarrow> u8 list \<Rightarrow> nat \<times> u8 list" where
  "strtab_add s tab = (length tab, tab @ map byte_of s @ [0])"

fun strtab_adds :: "string list \<Rightarrow> u8 list \<Rightarrow> nat list \<times> u8 list" where
  "strtab_adds [] tab = ([], tab)"
| "strtab_adds (s # ss) tab =
     (let (pos, tab) = strtab_add s tab; (ps, tab) = strtab_adds ss tab in (pos # ps, tab))"

record elf_sym =
  st_name :: u32
  st_value :: u32
  st_size :: u32
  st_info :: u8
  st_other :: u8
  st_shndx :: u16

definition write_sym :: "elf_sym \<Rightarrow> u8 list" where
  "write_sym y = elf_put32 (st_name y) @ elf_put32 (st_value y) @ elf_put32 (st_size y) @ [st_info y, st_other y] @ elf_put16 (st_shndx y)"

definition ELF32_ST_INFO :: "u8 \<Rightarrow> u8 \<Rightarrow> u8" where
  "ELF32_ST_INFO b t = push_bit 4 b OR (t AND 0xF)"

abbreviation (input) MSEC_DEBUG_LINE :: nat where "MSEC_DEBUG_LINE \<equiv> 4"
abbreviation (input) MSEC_DEBUG_INFO :: nat where "MSEC_DEBUG_INFO \<equiv> 5"
abbreviation (input) MSEC_DEBUG_ABBREV :: nat where "MSEC_DEBUG_ABBREV \<equiv> 6"

definition msec_shndx :: "int \<Rightarrow> u16" where
  "msec_shndx m =
     (if m = 0 then 1 else if m = 2 then 2 else if m = 1 then 3 else if m = 3 then 4
      else if m = 4 then 5 else if m = 5 then 6 else if m = 6 then 7 else 0)"

definition section_esym :: "nat \<Rightarrow> elf_sym" where
  "section_esym k =
     \<lparr> st_name = 0, st_value = 0, st_size = 0, st_info = ELF32_ST_INFO 0 3, st_other = 0, st_shndx = msec_shndx (int k) \<rparr>"

definition is_local :: "symbol \<Rightarrow> bool" where
  "is_local y \<longleftrightarrow> \<not> (sy_global y \<or> \<not> sy_defined y)"

definition local_esym :: "u32 \<Rightarrow> symbol \<Rightarrow> elf_sym" where
  "local_esym name y =
     \<lparr> st_name = name, st_value = sy_value y, st_size = sy_size y, st_info = ELF32_ST_INFO 0 (if sy_is_func y then 2 else 0),
       st_other = 0, st_shndx = msec_shndx (sy_section y) \<rparr>"

definition global_esym :: "u32 \<Rightarrow> symbol \<Rightarrow> elf_sym" where
  "global_esym name y =
     \<lparr> st_name = name, st_value = (if sy_defined y then sy_value y else 0), st_size = sy_size y,
       st_info = ELF32_ST_INFO (if sy_weak y then 2 else 1) (if sy_is_func y then 2 else 0),
       st_other = 0, st_shndx = (if \<not> sy_defined y then 0 else msec_shndx (sy_section y)) \<rparr>"

text \<open>A pass over the symbol table that appends the chosen symbols and notes their numbers.\<close>

fun sym_loop :: "(symbol \<Rightarrow> bool) \<Rightarrow> (u32 \<Rightarrow> symbol \<Rightarrow> elf_sym) \<Rightarrow> nat \<Rightarrow> symbol list \<Rightarrow>
    u8 list \<times> elf_sym list \<times> (nat \<Rightarrow> nat) \<Rightarrow> u8 list \<times> elf_sym list \<times> (nat \<Rightarrow> nat)" where
  "sym_loop take_it mk k [] st = st"
| "sym_loop take_it mk k (y # ys) (tab, es, mp) =
     sym_loop take_it mk (Suc k) ys
       (if take_it y then (let (pos, tab) = strtab_add (sy_name y) tab in (tab, es @ [mk (of_nat pos) y], mp(k := length es)))
        else (tab, es, mp))"

definition null_esym :: elf_sym where
  "null_esym = \<lparr> st_name = 0, st_value = 0, st_size = 0, st_info = 0, st_other = 0, st_shndx = 0 \<rparr>"

text \<open>The string table, the symbols, how many are local, and the number of each assembler symbol.\<close>

definition elf_symbols :: "symtab \<Rightarrow> u8 list \<times> elf_sym list \<times> nat \<times> (nat \<Rightarrow> nat)" where
  "elf_symbols ys =
     (let (tab, es, mp) = sym_loop is_local local_esym 0 ys (strtab_init, null_esym # map section_esym [0..<MSEC_COUNT], \<lambda>_. 0);
          nlocal = length es;
          (tab, es, mp) = sym_loop (\<lambda>y. \<not> is_local y) global_esym 0 ys (tab, es, mp)
      in (tab, es, nlocal, mp))"

subsection \<open>Relocation entries\<close>

text \<open>The sum of the symbol's value and the addend is on \<open>int32_t\<close>.\<close>

definition rel_entry :: "symtab \<Rightarrow> (nat \<Rightarrow> nat) \<Rightarrow> reloc \<Rightarrow> asm_section \<Rightarrow> ((u32 \<times> u32) \<times> asm_section) option" where
  "rel_entry ys mp r s =
     (if rl_sym_idx r \<ge> length ys then None
      else let y = ys ! rl_sym_idx r;
               info = (\<lambda>i. push_bit 8 i OR (of_nat (rl_type r) AND 0xFF)) in
        if sy_defined y \<and> \<not> sy_global y then
          (let v = sint (sy_value y) + rl_addend r in
           if v < - 2147483648 \<or> v > INT_MAX then None
           else do { s \<leftarrow> fold_value (rl_offset r) (rl_type r) v s;
                     Some ((rl_offset r, info (word_of_int (1 + sy_section y))), s) })
        else Some ((rl_offset r, info (of_nat (mp (rl_sym_idx r)))), s))"

fun rel_entries :: "symtab \<Rightarrow> (nat \<Rightarrow> nat) \<Rightarrow> reloc list \<Rightarrow> asm_section \<Rightarrow> ((u32 \<times> u32) list \<times> asm_section) option" where
  "rel_entries ys mp [] s = Some ([], s)"
| "rel_entries ys mp (r # rs) s =
     do { (e, s) \<leftarrow> rel_entry ys mp r s; (es, s) \<leftarrow> rel_entries ys mp rs s; Some (e # es, s) }"

definition write_rel :: "u32 \<times> u32 \<Rightarrow> u8 list" where
  "write_rel e = elf_put32 (fst e) @ elf_put32 (snd e)"

text \<open>The sections with the symbols folded in, and the entries of each.\<close>

fun build_rels :: "symtab \<Rightarrow> (nat \<Rightarrow> nat) \<Rightarrow> (nat \<Rightarrow> asm_section) \<Rightarrow> nat list \<Rightarrow>
    ((nat \<Rightarrow> (u32 \<times> u32) list) \<times> (nat \<Rightarrow> asm_section)) option" where
  "build_rels ys mp secs [] = Some (\<lambda>_. [], secs)"
| "build_rels ys mp secs (k # ks) =
     do { (es, s) \<leftarrow> rel_entries ys mp (sec_relocs (secs k)) (secs k);
          (f, secs) \<leftarrow> build_rels ys mp (secs(k := s)) ks;
          Some (f(k := es), secs) }"

subsection \<open>The file\<close>

record elf_shdr =
  sh_name :: u32
  sh_type :: u32
  sh_flags :: u32
  sh_offset :: u32
  sh_size :: u32
  sh_link :: u32
  sh_info :: u32
  sh_addralign :: u32
  sh_entsize :: u32

definition write_shdr :: "elf_shdr \<Rightarrow> u8 list" where
  "write_shdr h =
     elf_put32 (sh_name h) @ elf_put32 (sh_type h) @ elf_put32 (sh_flags h) @ elf_put32 0 @ elf_put32 (sh_offset h) @
     elf_put32 (sh_size h) @ elf_put32 (sh_link h) @ elf_put32 (sh_info h) @ elf_put32 (sh_addralign h) @ elf_put32 (sh_entsize h)"

definition sec_addralign :: "asm_section \<Rightarrow> u32" where
  "sec_addralign s = (if sec_align_req s > 4 then word_of_int (sec_align_req s) else 4)"

text \<open>The names in the order they enter the section string table.\<close>

definition sh_names :: "string list" where
  "sh_names =
     [''.text'', ''.rodata'', ''.data'', ''.bss'', ''.symtab'', ''.strtab'', ''.debug_line'', ''.debug_info'', ''.debug_abbrev'',
      ''.rel.text'', ''.rel.rodata'', ''.rel.data'', ''.rel.debug_line'', ''.rel.debug_info'', ''.shstrtab'']"

definition elf_ehdr :: "u32 \<Rightarrow> u8 list" where
  "elf_ehdr shoff =
     [0x7F, 0x45, 0x4C, 0x46, 1, 1, 1, 0] @ replicate 8 0 @ elf_put16 1 @ elf_put16 8 @ elf_put32 1 @ elf_put32 0 @ elf_put32 0 @
     elf_put32 shoff @ elf_put32 0 @ elf_put16 52 @ elf_put16 0 @ elf_put16 0 @ elf_put16 40 @ elf_put16 16 @ elf_put16 15"

text \<open>The bytes of a section; a negative length writes nothing.\<close>

definition section_image :: "asm_section \<Rightarrow> u8 list" where
  "section_image s = map (sec_data s) [0..<nat (sec_len s)]"

text \<open>The running offset.\<close>

fun offsets :: "u32 \<Rightarrow> u32 list \<Rightarrow> u32 list" where
  "offsets off [] = [off]"
| "offsets off (n # ns) = off # offsets (off + n) ns"

definition sh_sec :: "nat \<Rightarrow> u32 \<Rightarrow> u32 \<Rightarrow> u32 \<Rightarrow> u32 \<Rightarrow> u32 \<Rightarrow> elf_shdr" where
  "sh_sec name ty flags off n align =
     \<lparr> sh_name = of_nat name, sh_type = ty, sh_flags = flags, sh_offset = off, sh_size = n, sh_link = 0, sh_info = 0,
       sh_addralign = align, sh_entsize = 0 \<rparr>"

definition sh_str :: "nat \<Rightarrow> u32 \<Rightarrow> u32 \<Rightarrow> elf_shdr" where
  "sh_str name off n = (sh_sec name 3 0 off n 0)\<lparr> sh_entsize := 1 \<rparr>"

definition sh_rel :: "nat \<Rightarrow> u32 \<Rightarrow> u32 \<Rightarrow> u32 \<Rightarrow> elf_shdr" where
  "sh_rel name off n target = (sh_sec name 9 0 off n 4)\<lparr> sh_link := 8, sh_info := target, sh_entsize := 8 \<rparr>"

definition sh_null :: elf_shdr where
  "sh_null = sh_sec 0 0 0 0 0 0"

text \<open>The sizes of the parts of the file after its header, and the sixteen section headers; \<open>off\<close> are the offsets of the parts.\<close>

definition part_sizes :: "(nat \<Rightarrow> asm_section) \<Rightarrow> (nat \<Rightarrow> (u32 \<times> u32) list) \<Rightarrow> elf_sym list \<Rightarrow> u8 list \<Rightarrow> u8 list \<Rightarrow> u32 list" where
  "part_sizes secs rels es tab shtab =
     (let len = (\<lambda>k. word_of_int (sec_len (secs k))); rel = (\<lambda>k. of_nat (length (rels k) * 8)) in
      [len MSEC_TEXT, len MSEC_RODATA, len MSEC_DATA, len MSEC_DEBUG_LINE, len MSEC_DEBUG_INFO, len MSEC_DEBUG_ABBREV,
       of_nat (length es * 16), of_nat (length tab), rel MSEC_TEXT, rel MSEC_RODATA, rel MSEC_DATA, rel MSEC_DEBUG_LINE,
       rel MSEC_DEBUG_INFO, of_nat (length shtab)])"

definition elf_shdrs :: "(nat \<Rightarrow> asm_section) \<Rightarrow> nat list \<Rightarrow> u32 list \<Rightarrow> u32 list \<Rightarrow> nat \<Rightarrow> elf_shdr list" where
  "elf_shdrs secs ns off sz nlocal =
     (let al = (\<lambda>k. sec_addralign (secs k)) in
      [sh_null,
       sh_sec (ns ! 0) 1 6 (off ! 0) (sz ! 0) (al MSEC_TEXT),
       sh_sec (ns ! 1) 1 2 (off ! 1) (sz ! 1) (al MSEC_RODATA),
       sh_sec (ns ! 2) 1 3 (off ! 2) (sz ! 2) (al MSEC_DATA),
       sh_sec (ns ! 3) 8 3 (off ! 6) (word_of_int (sec_len (secs MSEC_BSS))) (al MSEC_BSS),
       sh_sec (ns ! 6) 1 0 (off ! 3) (sz ! 3) 1,
       sh_sec (ns ! 7) 1 0 (off ! 4) (sz ! 4) 1,
       sh_sec (ns ! 8) 1 0 (off ! 5) (sz ! 5) 1,
       (sh_sec (ns ! 4) 2 0 (off ! 6) (sz ! 6) 4)\<lparr> sh_link := 9, sh_info := of_nat nlocal, sh_entsize := 16 \<rparr>,
       sh_str (ns ! 5) (off ! 7) (sz ! 7),
       sh_rel (ns ! 9) (off ! 8) (sz ! 8) 1, sh_rel (ns ! 10) (off ! 9) (sz ! 9) 2, sh_rel (ns ! 11) (off ! 10) (sz ! 10) 3,
       sh_rel (ns ! 12) (off ! 11) (sz ! 11) 5, sh_rel (ns ! 13) (off ! 12) (sz ! 12) 6,
       sh_str (ns ! 14) (off ! 13) (sz ! 13)])"

definition part_images :: "(nat \<Rightarrow> asm_section) \<Rightarrow> (nat \<Rightarrow> (u32 \<times> u32) list) \<Rightarrow> elf_sym list \<Rightarrow> u8 list \<Rightarrow> u8 list \<Rightarrow> u8 list list" where
  "part_images secs rels es tab shtab =
     (let img = (\<lambda>k. section_image (secs k)); rel = (\<lambda>k. concat (map write_rel (rels k))) in
      [img MSEC_TEXT, img MSEC_RODATA, img MSEC_DATA, img MSEC_DEBUG_LINE, img MSEC_DEBUG_INFO, img MSEC_DEBUG_ABBREV,
       concat (map write_sym es), tab, rel MSEC_TEXT, rel MSEC_RODATA, rel MSEC_DATA, rel MSEC_DEBUG_LINE, rel MSEC_DEBUG_INFO, shtab])"

definition mips_elf_write :: "mips_asm \<Rightarrow> u8 list option" where
  "mips_elf_write a =
     (let (ns, shtab) = strtab_adds sh_names strtab_init; (tab, es, nlocal, mp) = elf_symbols (ma_st a) in
      do { (rels, secs) \<leftarrow> build_rels (ma_st a) mp (ma_sections a) [0..<MSEC_COUNT];
           let sz = part_sizes secs rels es tab shtab; off = offsets 52 sz in
           Some (elf_ehdr (off ! 14) @ concat (part_images secs rels es tab shtab) @
                 concat (map write_shdr (elf_shdrs secs ns off sz nlocal))) })"

end
