(* ===== verification/Mips_Reloc.thy ===== *)
theory Mips_Reloc
  imports Mips_Exec Mips_Link Mips_Elf
begin

text \<open>
  Relocations through the tool chain: the words the assembler emits with a relocation, the values its object
  writer folds into them (\<^verbatim>\<open>as/mips_elf.c\<close>), what the linker then writes (\<^verbatim>\<open>ld/mips_link.c\<close>) and what the
  emulator does with the result (\<^verbatim>\<open>emu/mips32.c\<close>).
\<close>

unbundle bit_operations_syntax

subsection \<open>Fields of sixteen bits\<close>

lemma high_mask: "(0xFFFF0000 :: u32) = NOT (mask 16)"
  by (simp add: mask_eq_exp_minus_1)

lemma patch_low: "(enc_i op rs rt x AND 0xFFFF0000) OR (y AND 0xFFFF) = enc_i op rs rt (uint y)"
  unfolding masks high_mask
  by (rule bit_word_eqI) (auto simp: bit_or_iff bit_and_iff bit_not_iff bit_mask_iff enc_i_bit bit_uint_iff split: if_splits)

lemma field_low: "enc_i op rs rt x AND 0xFFFF = word_of_int x AND 0xFFFF"
  unfolding masks by (rule bit_word_eqI) (auto simp: bit_and_iff bit_mask_iff enc_i_bit bit_word)

lemma low16_field: "low16 (enc_i op rs rt x) = word_of_int (signed_take_bit 15 x)"
  unfolding low16_def field_low masks
  by (rule bit_word_eqI) (auto simp: bit_signed_take_bit_iff bit_and_iff bit_mask_iff bit_word enc_i_bit min_def)

lemma drop16: "drop_bit 16 (w :: u32) AND 0xFFFF = drop_bit 16 w" "uint (drop_bit 16 w) < 65536"
proof -
  show "drop_bit 16 w AND 0xFFFF = drop_bit 16 w"
    unfolding masks by (rule bit_word_eqI) (auto simp: bit_and_iff bit_mask_iff bit_drop_bit_eq dest: bit_imp_le_length)
  show "uint (drop_bit 16 w) < 65536" using uint_lt2p [of w] by (simp only: uint_drop_bit) simp
qed

lemma high_part: "push_bit 16 (drop_bit 16 (word_of_int u :: u32)) = word_of_int (u div 65536 * 65536)"
proof -
  have "u div 65536 * 65536 = push_bit 16 (drop_bit 16 u)" by (simp add: push_bit_eq_mult drop_bit_eq_div)
  then show ?thesis by (simp only:) (rule bit_word_eqI, auto simp: bit_push_bit_iff bit_drop_bit_eq bit_word)
qed

lemma low_part: "signed_take_bit 15 (v :: int) = (v + 0x8000) mod 65536 - 0x8000"
  by (simp add: signed_take_bit_eq_take_bit_shift take_bit_eq_mod)

lemma split16: "push_bit 16 (drop_bit 16 (word_of_int (k + 0x8000))) + word_of_int (signed_take_bit 15 k) = (word_of_int k :: u32)"
proof -
  have "(k + 0x8000) div 65536 * 65536 + signed_take_bit 15 k = k" unfolding low_part using div_mult_mod_eq [of "k + 0x8000" 65536] by linarith
  then show ?thesis by (simp only: high_part flip: of_int_add)
qed

lemma low_cong: "(a - b) mod 65536 = 0 \<Longrightarrow> signed_take_bit 15 a = signed_take_bit 15 (b :: int)"
  unfolding low_part by (metis mod_add_left_eq mod_eq_dvd_iff mod_0_imp_dvd)

text \<open>The assembler's writer and the linker together put the word \<open>S + v\<close> in the two halves.\<close>

lemma hi_linked:
  assumes "- 0x80000000 \<le> v" "v < 0x7FFF8000" "fold_word R_MIPS_HI16 v (enc_i 15 0 d 0) = Some hw" "fold_word R_MIPS_LO16 v (enc_i 9 d d 0) = Some lw"
  shows "apply_hi16 S hw lw = Some (enc_i 15 0 d (uint (drop_bit 16 (S + word_of_int v + 0x8000))))"
    "apply_16 S lw = enc_i 9 d d (uint (S + word_of_int (signed_take_bit 15 v)))"
proof -
  let ?h = "drop_bit 16 (word_of_int (v + 0x8000)) :: u32"
  have hw: "hw = enc_i 15 0 d (uint ?h)" and lw: "lw = enc_i 9 d d (uint (word_of_int v :: u32))"
    using assms(3,4) by (auto simp: fold_word_def field_low patch_low split: if_splits)
  have l: "signed_take_bit 15 (uint (word_of_int v :: u32)) = signed_take_bit 15 v"
    by (rule bit_eqI) (auto simp: bit_signed_take_bit_iff bit_uint_iff bit_and_iff bit_mask_iff bit_word min_def)
  have h: "hw AND 0xFFFF = ?h"
    unfolding hw field_low by (simp only: word_of_int_uint drop16(1))
  have r: "- 0x8000 \<le> signed_take_bit 15 v" "signed_take_bit 15 v < 0x8000"
    unfolding low_part by simp_all
  have e: "(v + 0x8000) div 65536 * 65536 + signed_take_bit 15 v = v"
    unfolding low_part using div_mult_mod_eq [of "v + 0x8000" 65536] by linarith
  have "sint (word_of_int (signed_take_bit 15 v) :: u32) = signed_take_bit 15 v"
    by (rule sint_word_of_int_u32) (use r in linarith)+
  moreover have "- 0x80000000 \<le> (v + 0x8000) div 65536 * 65536 \<and> (v + 0x8000) div 65536 * 65536 < 0x80000000"
  proof -
    have "- 32768 \<le> (v + 0x8000) div 65536" "(v + 0x8000) div 65536 \<le> 32767" using assms(1,2) by linarith+
    then show ?thesis by linarith
  qed
  then have "sint (word_of_int ((v + 0x8000) div 65536 * 65536) :: u32) = (v + 0x8000) div 65536 * 65536"
    using sint_word_of_int_u32 by blast
  ultimately have a: "sint (push_bit 16 (hw AND 0xFFFF)) + sint (low16 lw) = v"
    unfolding h high_part lw low16_field l using e by simp
  show "apply_hi16 S hw lw = Some (enc_i 15 0 d (uint (drop_bit 16 (S + word_of_int v + 0x8000))))"
    unfolding apply_hi16_def a Let_def using assms(1,2) by (simp add: hw patch_low INT_MAX_def)
  show "apply_16 S lw = enc_i 9 d d (uint (S + word_of_int (signed_take_bit 15 v)))"
    unfolding apply_16_def lw low16_field l by (simp add: patch_low)
qed

lemma la_words_load:
  assumes "0 < d" "d < 32"
  shows "loads env [enc_i 15 0 d (uint (drop_bit 16 (T + 0x8000))), enc_i 9 d d (uint (T + word_of_int (65536 * k)))] (nat d) T c"
proof -
  have "word_of_int (uint (drop_bit 16 (T + 0x8000)) mod 65536) = drop_bit 16 (T + 0x8000)"
    using drop16 [of "T + 0x8000"] by simp
  moreover have "signed_take_bit 15 (uint (T + word_of_int (65536 * k))) = signed_take_bit 15 (uint T)"
  proof -
    have "uint (T + word_of_int (65536 * k)) mod 65536 = (uint T + 65536 * k) mod 4294967296 mod 65536"
      by (simp add: uint_word_ariths uint_word_of_int mod_simps)
    also have "\<dots> = uint T mod 65536" by (simp add: mod_mod_cancel)
    finally show ?thesis by (simp add: signed_take_bit_eq_iff_take_bit_eq take_bit_eq_mod)
  qed
  moreover have "push_bit 16 (drop_bit 16 (T + 0x8000)) + word_of_int (signed_take_bit 15 (uint T)) = T"
    using split16 [of "uint T"] by simp
  ultimately show ?thesis using assms by (simp add: loads_def exec_imm_word finish_reg set_reg)
qed

lemma or_enc_emits: "0 \<le> n \<Longrightarrow> or_enc (emits n r) nx = emits n r"
  by (cases r) (simp_all add: or_enc_def emits_def)

text \<open>C3: \<open>la\<close> through the whole tool chain. The two words the assembler emits for \<open>la d, sym\<close>, with the symbol's value
  folded in by the object writer (0 for a symbol left to the linker) and the pair of \<open>HI16\<close> and \<open>LO16\<close> relocations
  applied by the linker for a symbol at \<open>S\<close>, load the address \<open>S + v\<close> when the emulator runs them, and change no other
  register. The carry between the halves is right for every value.\<close>

theorem mips_la_linked:
  assumes "reg_ok d" "mo_reg d \<noteq> 0" "sym_target l = Some y" "- 0x80000000 \<le> v" "v < 0x7FFF8000"
  shows "\<exists>w1 w2 h1 l1 h2.
    mips_encode ''la'' [d, l] True a =
      emits 8 (do { a \<leftarrow> emit_word w1 (reloc_sym (here a) y 0 R_MIPS_HI16 a); emit_word w2 (reloc_sym (here a) y 0 R_MIPS_LO16 a) }) \<and>
    fold_word R_MIPS_HI16 v w1 = Some h1 \<and> fold_word R_MIPS_LO16 v w2 = Some l1 \<and> apply_hi16 S h1 l1 = Some h2 \<and>
    loads env [h2, apply_16 S l1] (nat (mo_reg d)) (S + word_of_int v) c"
proof -
  have r: "is_reg d" "0 < mo_reg d" "mo_reg d < 32" using assms(1,2) by (auto simp: reg_ok_def)
  let ?w1 = "enc_i 15 0 (mo_reg d) 0" and ?w2 = "enc_i 9 (mo_reg d) (mo_reg d) 0"
  have e: "mips_encode ''la'' [d, l] True a =
      emits 8 (do { a \<leftarrow> emit_word ?w1 (reloc_sym (here a) y 0 R_MIPS_HI16 a); emit_word ?w2 (reloc_sym (here a) y 0 R_MIPS_LO16 a) })"
    using r(1) assms(3) by (simp add: mips_encode_def enc_macro_def enc_la_def or_enc_emits)
  obtain h1 where h1: "fold_word R_MIPS_HI16 v ?w1 = Some h1" using assms(5) by (simp add: fold_word_def INT_MAX_def)
  obtain l1 where l1: "fold_word R_MIPS_LO16 v ?w2 = Some l1" by (simp add: fold_word_def)
  note hl = hi_linked [OF assms(4,5) h1 l1, of S]
  have "signed_take_bit 15 v = v + 65536 * (- ((v + 0x8000) div 65536))"
    unfolding low_part using div_mult_mod_eq [of "v + 0x8000" 65536] by linarith
  then have "S + word_of_int (signed_take_bit 15 v) = S + word_of_int v + word_of_int (65536 * (- ((v + 0x8000) div 65536)))"
    by (simp only: of_int_add add.assoc)
  then have "loads env [enc_i 15 0 (mo_reg d) (uint (drop_bit 16 (S + word_of_int v + 0x8000))), apply_16 S l1] (nat (mo_reg d)) (S + word_of_int v) c"
    using la_words_load [OF r(2,3)] by (simp only: hl(2))
  then show ?thesis using e h1 l1 hl(1) by blast
qed

definition sym_operand :: "string \<Rightarrow> mips_operand" where
  "sym_operand y = (reg_operand 0)\<lparr> mo_kind := MO_SYM, mo_sym := Some y \<rparr>"

lemma sym_operand_target: "sym_target (sym_operand y) = Some y"
  by (simp add: sym_target_def sym_operand_def)

theorem mips_la_linked_witness:
  "\<exists>w1 w2 h1 l1 h2.
    mips_encode ''la'' [reg_operand 4, sym_operand ''buf''] True (mips_init []) =
      emits 8 (do { a \<leftarrow> emit_word w1 (reloc_sym (here (mips_init [])) ''buf'' 0 R_MIPS_HI16 (mips_init [])); emit_word w2 (reloc_sym (here a) ''buf'' 0 R_MIPS_LO16 a) }) \<and>
    fold_word R_MIPS_HI16 0x9ABC w1 = Some h1 \<and> fold_word R_MIPS_LO16 0x9ABC w2 = Some l1 \<and> apply_hi16 0x12345678 h1 l1 = Some h2 \<and>
    loads demo_env [h2, apply_16 0x12345678 l1] 4 0x1234F134 (demo_cpu [])"
  using mips_la_linked [of "reg_operand 4" "sym_operand ''buf''" "''buf''" "0x9ABC" "mips_init []" "0x12345678" demo_env "demo_cpu []"]
  by (simp add: reg_ok_def reg_operand_def is_reg_def sym_operand_target)

subsection \<open>Jumps\<close>

lemma enc_j_bit: "bit (enc_j op t) n \<longleftrightarrow> (if n < 26 then bit t n else n < 32 \<and> bit op (n - 26))"
  unfolding enc_j_def masks
  by (simp add: bit_or_iff bit_and_iff bit_push_bit_iff bit_mask_iff bit_word diff_less) auto

lemma patch_target: "(enc_j op t AND NOT 0x3FFFFFF) OR (x AND 0x3FFFFFF) = enc_j op x"
  unfolding masks
  by (rule bit_word_eqI) (auto simp: bit_or_iff bit_and_iff bit_not_iff bit_mask_iff enc_j_bit split: if_splits)

lemma target_field: "enc_j op t AND 0x3FFFFFF = t AND 0x3FFFFFF"
  unfolding masks by (rule bit_word_eqI) (auto simp: bit_and_iff bit_mask_iff enc_j_bit)

lemma low_sum: "(enc_j op 0 + x) AND 0x3FFFFFF = x AND 0x3FFFFFF"
proof -
  have "enc_j op 0 AND mask 26 = 0" using target_field [of op 0] unfolding masks by simp
  then show ?thesis using mask_eqs(1) [of "enc_j op 0" 26 x] unfolding masks by simp
qed

lemma word_bits: "bit (push_bit 2 (drop_bit 2 (w :: u32) AND mask 26)) n \<longleftrightarrow> 2 \<le> n \<and> n < 28 \<and> bit w n"
proof (cases "2 \<le> n")
  case True
  then obtain j where "n = j + 2" by (intro that [of "n - 2"]) auto
  then show ?thesis using bit_imp_le_length [of w n] by (auto simp: bit_and_iff bit_mask_iff bit_push_bit_iff bit_drop_bit_eq simp del: push_bit_and)
qed (simp add: bit_push_bit_iff del: push_bit_and)

lemma word_address:
  assumes "0 \<le> v" "v < 0x10000000" "v mod 4 = 0"
  shows "push_bit 2 (drop_bit 2 (word_of_int v :: u32) AND 0x3FFFFFF) = word_of_int v"
proof -
  have "take_bit 28 v = v" using assms(1,2) by (simp add: take_bit_int_eq_self)
  moreover have "push_bit 2 (drop_bit 2 v) = v" using assms(3) by (simp add: push_bit_eq_mult drop_bit_eq_div) presburger
  ultimately have b: "bit v n \<Longrightarrow> n < 28 \<and> 2 \<le> n" for n
    by (metis bit_take_bit_iff bit_push_bit_iff)
  show ?thesis unfolding masks by (rule bit_word_eqI) (auto simp: word_bits bit_word simp del: push_bit_and dest: b)
qed

lemma jump_linked:
  assumes "0 \<le> v" "v < 0x10000000" "v mod 4 = 0" "fold_word R_MIPS_26 v (enc_j op 0) = Some w" "apply_26 S P w = Some w'"
  shows "w' = enc_j op (drop_bit 2 (S + word_of_int v)) \<and> drop_bit 28 (S + word_of_int v) = drop_bit 28 (P + 4)"
proof -
  have w: "w = enc_j op (drop_bit 2 (word_of_int v))" using assms(4) unfolding fold_word_def low_sum patch_target by simp
  show ?thesis using assms(5)
    unfolding apply_26_def w target_field word_address [OF assms(1-3)] Let_def patch_target by (auto split: if_splits)
qed

lemma jump_dest_linked:
  assumes "drop_bit 28 T = drop_bit 28 (cpu_pc c)" "T AND 3 = 0"
  shows "jump_dest (enc_j op (drop_bit 2 T)) c = T"
proof -
  have hm: "(0xF0000000 :: u32) = NOT (mask 28)" "(3 :: u32) = mask 2" by (simp_all add: mask_eq_exp_minus_1)
  have hi: "bit (cpu_pc c) n \<longleftrightarrow> bit T n" if "28 \<le> n" for n
    using arg_cong [OF assms(1), of "\<lambda>x. bit x (n - 28)"] that by (simp add: bit_drop_bit_eq)
  have lo: "\<not> bit T n" if "n < 2" for n
    using arg_cong [OF assms(2), of "\<lambda>x. bit x n"] that unfolding hm by (simp add: bit_and_iff bit_mask_iff)
  have mid: "n < 28" if "bit T n" "\<not> bit (cpu_pc c) n" for n using hi [of n] that by (cases "28 \<le> n") auto
  show ?thesis
    unfolding jump_dest_def enc_j_fields hm masks
    by (rule bit_word_eqI) (use hi lo mid in \<open>auto simp: bit_or_iff bit_and_iff [of "cpu_pc c"] bit_not_iff bit_mask_iff word_bits not_less simp del: push_bit_and\<close>)
qed

text \<open>Which encoder takes the jumps and the branches.\<close>

lemmas no_word = word_groups_def enc_rrr_def enc_shiftv_def enc_shifti_def enc_muldiv_def enc_hilo_def enc_cop1_move_def
  enc_cop1_fp_def enc_cop2_move_def enc_cop2_cmd_def rrr_funct_def shiftv_funct_def shifti_funct_def muldiv_funct_def cop_sub_def
  enc_cvt_def enc_fp_arith_def fp_funct_def fp_cond_def

lemma no_words: "word_groups ''j'' [l] = None" "word_groups ''jal'' [l] = None" "word_groups ''beq'' [s, t, l] = None" "word_groups ''bne'' [s, t, l] = None"
  by (simp_all add: no_word)

lemmas first_groups = mips_encode_def enc_macro_def enc_arithi_def enc_lui_def enc_memop_def arithi_op_def memop_op_def or_enc_skip or_enc_emits no_words

lemma encode_jump:
  assumes "sym_target l = Some y"
  shows "mips_encode (if link then ''jal'' else ''j'') [l] True a =
    emits 4 (emit_word (enc_j (if link then 3 else 2) 0) (reloc_sym (here a) y 0 R_MIPS_26 a))"
  using assms by (simp add: first_groups enc_branch_def enc_jump_def jump_target_def)

text \<open>A branch target that the current section does not define.\<close>

definition elsewhere :: "string \<Rightarrow> mips_asm \<Rightarrow> bool" where
  "elsewhere y a \<longleftrightarrow>
     (case sym_lookup (ma_st a) y of
        None \<Rightarrow> True | Some i \<Rightarrow> \<not> (sy_defined (ma_st a ! i) \<and> sy_section (ma_st a ! i) = int (ma_cur_section a)))"

lemma encode_branch:
  assumes "reg_ok s" "reg_ok t" "sym_target l = Some y" "elsewhere y a"
  shows "mips_encode (if eq then ''beq'' else ''bne'') [s, t, l] True a =
    emits 4 (emit_word (enc_i (if eq then 4 else 5) (mo_reg s) (mo_reg t) (- 1)) (reloc_sym (here a) y 0 R_MIPS_PC16 a))"
  using assms
  by (auto simp: first_groups enc_branch_def emit_branch_def branch_disp_def elsewhere_def reg_ok_def Let_def split: option.splits)

text \<open>C11: jumps through the whole tool chain. The word of \<open>j\<close> or \<open>jal\<close> that the object writer folds and the linker relocates
  with \<open>R_MIPS_26\<close> goes to \<open>S + v\<close> on the emulator, \<open>jal\<close> leaving the address after the delay slot in register 31,
  whenever the linker accepts the target.\<close>

theorem mips_jump_linked:
  assumes "sym_target l = Some y" "0 \<le> v" "v < 0x10000000" "v mod 4 = 0" "(S + word_of_int v) AND 3 = 0"
    "fold_word R_MIPS_26 v (enc_j (if link then 3 else 2) 0) = Some w" "apply_26 S P w = Some w'" "cpu_pc c = P + 4"
  shows "mips_encode (if link then ''jal'' else ''j'') [l] True a =
      emits 4 (emit_word (enc_j (if link then 3 else 2) 0) (reloc_sym (here a) y 0 R_MIPS_26 a)) \<and>
    exec_insn env w' dreg dval c = Some (Cont (do_branch (S + word_of_int v) (if link then set_r 31 (P + 8) c else c)))"
proof -
  let ?T = "S + word_of_int v"
  have w': "w' = enc_j (if link then 3 else 2) (drop_bit 2 ?T)" "drop_bit 28 ?T = drop_bit 28 (P + 4)"
    using jump_linked [OF assms(2-4,6,7)] by simp_all
  have j: "jump_dest w' c = ?T" "jump_dest w' (set_r 31 (P + 8) c) = ?T"
    using w' assms(5,8) by (simp_all add: jump_dest_linked set_r_def)
  have "f_op w' = (if link then 3 else 2)" by (simp add: w'(1) enc_j_fields)
  then have "exec_insn env w' dreg dval c = Some (Cont (do_branch ?T (if link then set_r 31 (P + 8) c else c)))"
    using j assms(8) by (simp add: exec_insn_def Let_def add.assoc)
  then show ?thesis using encode_jump [OF assms(1)] by blast
qed

theorem mips_jump_linked_witness:
  "fold_word R_MIPS_26 0x100 (enc_j 3 0) = Some 0x0C000040 \<and> apply_26 0x400000 0x400020 0x0C000040 = Some 0x0C100040 \<and>
   exec_insn demo_env 0x0C100040 0 0 ((demo_cpu [])\<lparr> cpu_pc := 0x400024 \<rparr>) =
     Some (Cont (do_branch 0x400100 (set_r 31 0x400028 ((demo_cpu [])\<lparr> cpu_pc := 0x400024 \<rparr>))))"
proof -
  have f: "fold_word R_MIPS_26 0x100 (enc_j 3 0) = Some 0x0C000040" by (simp add: fold_word_def enc_j_def push_bit_eq_mult drop_bit_eq_div)
  have p: "apply_26 0x400000 0x400020 0x0C000040 = Some 0x0C100040" by (simp add: apply_26_def Let_def push_bit_eq_mult drop_bit_eq_div)
  show ?thesis
    using mips_jump_linked [of "sym_operand ''f''" "''f''" "0x100" "0x400000" True "0x0C000040" "0x400020" "0x0C100040"
        "(demo_cpu [])\<lparr> cpu_pc := 0x400024 \<rparr>" "mips_init []" demo_env 0 0] f p
    by (simp add: sym_operand_target)
qed

subsection \<open>Branches\<close>

lemma branch_addend:
  assumes "0 \<le> k" "k \<le> 0x8000"
  shows "fold_word R_MIPS_PC16 (4 * k) (enc_i op rs rt (- 1)) = Some w \<Longrightarrow> low16 w = word_of_int (k - 1) \<and> (\<exists>x. w = enc_i op rs rt x)"
proof -
  assume f: "fold_word R_MIPS_PC16 (4 * k) (enc_i op rs rt (- 1)) = Some w"
  have d: "drop_bit 2 (word_of_int (4 * k) :: u32) = word_of_int k"
  proof (rule word_uint_eqI)
    have "uint (word_of_int (4 * k) :: u32) = 4 * k" by (subst uint_word_of_int) (use assms in simp)
    moreover have "uint (word_of_int k :: u32) = k" by (subst uint_word_of_int) (use assms in simp)
    ultimately show "uint (drop_bit 2 (word_of_int (4 * k) :: u32)) = uint (word_of_int k :: u32)" by (simp only: uint_drop_bit) simp
  qed
  have k: "word_of_int k AND 0xFFFF = (word_of_int k :: u32)"
    by (rule word_uint_eqI) (use assms in \<open>simp add: uint_word_of_int masks unsigned_take_bit_eq take_bit_int_eq_self flip: take_bit_eq_mask\<close>)
  have "w = enc_i op rs rt (uint (0xFFFF + word_of_int k :: u32))"
    using f unfolding fold_word_def field_low d k patch_low by simp
  moreover have "uint (0xFFFF + word_of_int k :: u32) = 65535 + k"
    using assms by (simp add: uint_word_ariths uint_word_of_int)
  moreover have "signed_take_bit 15 (65535 + k) = k - 1"
    using low_cong [of "65535 + k" "k - 1"] assms by (simp add: signed_take_bit_int_eq_self)
  ultimately show ?thesis by (auto simp: low16_field)
qed

lemma sint_mod4: "sint (x :: u32) mod 4 = uint x mod 4"
proof -
  have "take_bit 2 (signed_take_bit 31 (uint x)) = take_bit 2 (uint x)" by (simp add: take_bit_signed_take_bit)
  then show ?thesis by (simp add: sint_uint take_bit_eq_mod)
qed

lemma aligned_diff:
  assumes "T AND 3 = 0" "P AND 3 = (0 :: u32)"
  shows "sint (T - 4 - P) mod 4 = 0"
proof -
  have m: "(3 :: u32) = mask 2" by (simp add: mask_eq_exp_minus_1)
  have "uint x mod 4 = 0" if "x AND 3 = 0" for x :: u32
    using arg_cong [OF that, of uint] by (simp add: m take_bit_eq_mod uint_mod flip: take_bit_eq_mask)
  then have "uint T mod 4 = 0" "uint P mod 4 = 0" using assms by auto
  then have "(uint T - 4 - uint P) mod 4 = 0" by presburger
  then have "(uint T - 4 - uint P) mod 4294967296 mod 4 = 0" by (subst mod_mod_cancel) simp_all
  moreover have "T - 4 - P = word_of_int (uint T - 4 - uint P)" by simp
  ultimately show ?thesis unfolding sint_mod4 by (simp only: uint_word_of_int) simp
qed

lemma branch_linked:
  assumes "0 \<le> v" "v \<le> 0x20000" "v mod 4 = 0" "(S + word_of_int v) AND 3 = 0" "P AND 3 = 0"
    "fold_word R_MIPS_PC16 v (enc_i op rs rt (- 1)) = Some w" "apply_pc16 S P w = Some w'" "cpu_pc c = P + 4"
  shows "(\<exists>x. w' = enc_i op rs rt x) \<and> rel_branch w' c = do_branch (S + word_of_int v) c"
proof -
  define k where "k = v div 4"
  have k: "0 \<le> k" "k \<le> 0x8000" "4 * k = v" using assms(1-3) by (auto simp: k_def)
  obtain x where w: "low16 w = word_of_int (k - 1)" "w = enc_i op rs rt x"
    using branch_addend [OF k(1,2), unfolded k(3), OF assms(6)] by blast
  define disp where "disp = sint (S + word_of_int v - 4 - P)"
  have e: "S + 4 * low16 w - P = S + word_of_int v - 4 - P" by (simp add: w(1) flip: k(3))
  have r: "- 0x20000 \<le> disp" "disp \<le> 0x1FFFF" and w': "w' = enc_i op rs rt (uint (word_of_int (disp div 4) :: u32))"
    using assms(7) unfolding apply_pc16_def Let_def e disp_def [symmetric] by (auto simp: w(2) patch_low split: if_splits)
  have "signed_take_bit 15 (uint (word_of_int (disp div 4) :: u32)) = signed_take_bit 15 (disp div 4)"
    by (rule bit_eqI) (auto simp: bit_signed_take_bit_iff bit_uint_iff bit_word min_def)
  also have "\<dots> = disp div 4" using r by (intro signed_take_bit_int_eq_self) auto
  finally have "f_imm_se w' = word_of_int (disp div 4)" by (simp add: w' enc_i_imm)
  moreover have d: "4 * (disp div 4) = disp" using aligned_diff [OF assms(4,5)] by (auto simp: disp_def)
  moreover have "4 * word_of_int (disp div 4) = (word_of_int disp :: u32)"
    using arg_cong [OF d, of "word_of_int :: int \<Rightarrow> u32"] by simp
  ultimately have "push_bit 2 (f_imm_se w') = word_of_int disp" by (simp add: push_bit_eq_mult mult.commute)
  then have "cpu_pc c + push_bit 2 (f_imm_se w') = S + word_of_int v" using assms(8) by (simp add: disp_def)
  then show ?thesis using w' by (auto simp: rel_branch_def)
qed



end
