(* ===== verification/Mips_Read.thy ===== *)
theory Mips_Read
  imports Ld_Link
begin

text \<open>
  The reader of MIPS relocatable objects (\<^verbatim>\<open>ld/mips_elf_read.c\<close>) on the bytes of the mapped file. \<open>None\<close> is
  \<open>die()\<close> or a read past the end of the file. The data of a section is the part of the file that its header names, cut
  off at the end of the file. Where the code keeps pointers to the names of sections and symbols, the model takes the strings
  they point to, and a name with no terminator in the file is \<open>None\<close>.
\<close>

unbundle bit_operations_syntax

definition obj_get16 :: "u8 list \<Rightarrow> nat \<Rightarrow> u16 option" where
  "obj_get16 buf p = (if p + 2 \<le> length buf then Some (ucast (buf ! p) OR push_bit 8 (ucast (buf ! (p + 1)))) else None)"

definition obj_get32 :: "u8 list \<Rightarrow> nat \<Rightarrow> u32 option" where
  "obj_get32 buf p =
     (if p + 4 \<le> length buf
      then Some (ucast (buf ! p) OR push_bit 8 (ucast (buf ! (p + 1))) OR push_bit 16 (ucast (buf ! (p + 2))) OR
                 push_bit 24 (ucast (buf ! (p + 3))))
      else None)"

definition shdr_at :: "u32 \<Rightarrow> u32 \<Rightarrow> nat" where
  "shdr_at shoff idx = unat shoff + unat (idx * 40)"

definition char_byte :: "u8 \<Rightarrow> char" where
  "char_byte b = char_of (uint b)"

text \<open>The C string at a position.\<close>

definition cstring :: "u8 list \<Rightarrow> nat \<Rightarrow> string option" where
  "cstring buf p =
     (let s = drop p buf in if 0 \<in> set s then Some (map char_byte (takeWhile (\<lambda>b. b \<noteq> 0) s)) else None)"

definition read_section :: "u8 list \<Rightarrow> u32 \<Rightarrow> nat \<Rightarrow> nat \<Rightarrow> ld_input_sec option" where
  "read_section buf shoff shstrtab i =
     (let p = shdr_at shoff (of_nat i) in
      do { name \<leftarrow> obj_get32 buf p;
           ty \<leftarrow> obj_get32 buf (p + 4);
           flags \<leftarrow> obj_get32 buf (p + 8);
           off \<leftarrow> obj_get32 buf (p + 16);
           n \<leftarrow> obj_get32 buf (p + 20);
           al \<leftarrow> obj_get32 buf (p + 32);
           s \<leftarrow> cstring buf (shstrtab + unat name);
           Some \<lparr> is_name = s, is_type = unat ty, is_flags = flags,
                  is_data = (if ty = 1 \<and> n > 0 then take (unat n) (drop (unat off) buf) else []),
                  is_size = n, is_align = (if al \<noteq> 0 then al else 1), is_vaddr = 0, is_matched = False \<rparr> })"

definition read_sym :: "u8 list \<Rightarrow> u32 \<Rightarrow> nat \<Rightarrow> nat \<Rightarrow> ld_input_sym option" where
  "read_sym buf sym_off strtab i =
     (let p = unat sym_off + unat (of_nat i * 16 :: u32) in
      do { name \<leftarrow> obj_get32 buf p;
           v \<leftarrow> obj_get32 buf (p + 4);
           n \<leftarrow> obj_get32 buf (p + 8);
           shndx \<leftarrow> obj_get16 buf (p + 14);
           s \<leftarrow> cstring buf (strtab + unat name);
           Some \<lparr> iy_name = s, iy_value = v, iy_size = n, iy_shndx = unat shndx,
                  iy_binding = unat (drop_bit 4 (buf ! (p + 12))), iy_type = unat (buf ! (p + 12) AND 0xF) \<rparr> })"

definition read_syms :: "u8 list \<Rightarrow> u32 \<Rightarrow> nat \<Rightarrow> ld_input_sym list option" where
  "read_syms buf shoff symtab_idx =
     (let sh = shdr_at shoff (of_nat symtab_idx) in
      do { off \<leftarrow> obj_get32 buf (sh + 16);
           n \<leftarrow> obj_get32 buf (sh + 20);
           link \<leftarrow> obj_get32 buf (sh + 24);
           strtab \<leftarrow> obj_get32 buf (shdr_at shoff link + 16);
           those (map (read_sym buf off (unat strtab)) [0..<unat n div 16]) })"

definition read_rel :: "u8 list \<Rightarrow> u32 \<Rightarrow> nat \<Rightarrow> nat \<Rightarrow> ld_reloc option" where
  "read_rel buf rel_off info_sec j =
     (let p = unat rel_off + unat (of_nat j * 8 :: u32) in
      do { off \<leftarrow> obj_get32 buf p;
           info \<leftarrow> obj_get32 buf (p + 4);
           Some \<lparr> lr_offset = off, lr_sym_idx = unat (drop_bit 8 info), lr_addend = 0, lr_type = unat (info AND 0xFF),
                  lr_section = info_sec \<rparr> })"

definition read_rels :: "u8 list \<Rightarrow> u32 \<Rightarrow> nat \<Rightarrow> ld_reloc list option" where
  "read_rels buf shoff i =
     (let sh = shdr_at shoff (of_nat i) in
      do { ty \<leftarrow> obj_get32 buf (sh + 4);
           if ty \<noteq> 9 then Some []
           else do { off \<leftarrow> obj_get32 buf (sh + 16);
                     n \<leftarrow> obj_get32 buf (sh + 20);
                     info \<leftarrow> obj_get32 buf (sh + 28);
                     those (map (read_rel buf off (unat info)) [0..<unat n div 8]) } })"

text \<open>The checks of the file header.\<close>

definition elf_header_ok :: "u8 list \<Rightarrow> bool" where
  "elf_header_ok buf \<longleftrightarrow>
     length buf \<ge> 52 \<and> take 4 buf = [0x7F, 0x45, 0x4C, 0x46] \<and> buf ! 4 = 1 \<and> buf ! 5 = 1 \<and>
     obj_get16 buf 16 = Some 1 \<and> obj_get16 buf 18 = Some 8"

definition mips_parse_elf :: "string \<Rightarrow> u8 list \<Rightarrow> ld_object option" where
  "mips_parse_elf path buf =
     (if \<not> elf_header_ok buf then None
      else do { shoff \<leftarrow> obj_get32 buf 32;
                shnum \<leftarrow> obj_get16 buf 48;
                shstrndx \<leftarrow> obj_get16 buf 50;
                if shstrndx \<ge> shnum then None
                else do { shstrtab \<leftarrow> obj_get32 buf (shdr_at shoff (ucast shstrndx) + 16);
                          secs \<leftarrow> those (map (read_section buf shoff (unat shstrtab)) [0..<unat shnum]);
                          case filter (\<lambda>i. is_type (secs ! i) = 2) [0..<unat shnum] of
                            [] \<Rightarrow> None
                          | is \<Rightarrow>
                              do { syms \<leftarrow> read_syms buf shoff (last is);
                                   rels \<leftarrow> those (map (read_rels buf shoff) [0..<unat shnum]);
                                   Some \<lparr> ob_path = path, ob_sections = secs, ob_syms = syms, ob_relocs = concat rels, ob_sym_map = [] \<rparr> } } })"

end
