(* ===== verification/Mips_Object.thy ===== *)
theory Mips_Object
  imports Mips_Parse Mips_Elf Mips_Read
begin

text \<open>
  Relocatable objects from the assembler to the linker. The writer of \<^verbatim>\<open>as/mips_elf.c\<close> (theory \<open>Mips_Elf\<close>) and
  the reader of \<^verbatim>\<open>ld/mips_elf_read.c\<close> (theory \<open>Mips_Read\<close>) are separate implementations of one file format, so the
  theory proves them inverse: the lemmas follow the file from its fields (integers, strings, headers) to its tables (symbols,
  relocations, sections) and then to the whole object.
\<close>

unbundle bit_operations_syntax

subsection \<open>Reading back bytes\<close>

text \<open>The bytes \<open>xs\<close> stand at position \<open>p\<close> of a buffer.\<close>

definition stands :: "'a list \<Rightarrow> nat \<Rightarrow> 'a list \<Rightarrow> bool" where
  "stands buf p xs \<longleftrightarrow> (\<exists>pre post. buf = pre @ xs @ post \<and> length pre = p)"

lemma standsI: "length pre = p \<Longrightarrow> stands (pre @ xs @ post) p xs"
  by (auto simp: stands_def)

lemma stands_nth: "stands buf p xs \<Longrightarrow> j < length xs \<Longrightarrow> buf ! (p + j) = xs ! j"
  by (auto simp: stands_def nth_append)

lemma stands_length: "stands buf p xs \<Longrightarrow> p + length xs \<le> length buf"
  by (auto simp: stands_def)

lemma stands_slice: "stands buf p xs \<Longrightarrow> take (length xs) (drop p buf) = xs"
  by (auto simp: stands_def)

lemma stands_trans:
  assumes "stands buf p xs" "stands xs q ys"
  shows "stands buf (p + q) ys"
proof -
  obtain a b c d where "buf = a @ xs @ b" "length a = p" "xs = c @ ys @ d" "length c = q" using assms by (auto simp: stands_def)
  then have "buf = (a @ c) @ ys @ (d @ b)" "length (a @ c) = p + q" by simp_all
  then show ?thesis by (metis standsI)
qed

lemma stands_append: "stands xs p ys \<Longrightarrow> stands (xs @ zs) p ys"
  using stands_trans [OF standsI [of "[]" 0 xs zs]] by simp

lemma stands_get32: "stands buf p xs \<Longrightarrow> j + 4 \<le> length xs \<Longrightarrow> obj_get32 buf (p + j) = obj_get32 xs j"
  using stands_length [of buf p xs] stands_nth [of buf p xs j] stands_nth [of buf p xs "j + 1"] stands_nth [of buf p xs "j + 2"]
    stands_nth [of buf p xs "j + 3"]
  by (simp add: obj_get32_def add.assoc)

lemma stands_get16: "stands buf p xs \<Longrightarrow> j + 2 \<le> length xs \<Longrightarrow> obj_get16 buf (p + j) = obj_get16 xs j"
  using stands_length [of buf p xs] stands_nth [of buf p xs j] stands_nth [of buf p xs "j + 1"]
  by (simp add: obj_get16_def add.assoc)

lemma stands_concat:
  assumes "i < length xss"
  shows "stands (concat xss) (sum_list (take i (map length xss))) (xss ! i)"
proof -
  have "concat xss = concat (take i xss) @ xss ! i @ concat (drop (Suc i) xss)"
    using assms by (metis append_take_drop_id concat.simps(2) concat_append Cons_nth_drop_Suc)
  moreover have "length (concat (take i xss)) = sum_list (take i (map length xss))" by (simp add: length_concat take_map)
  ultimately show ?thesis by (metis standsI)
qed

lemma stands_chunk:
  assumes "i < length xs" "\<And>x. x \<in> set xs \<Longrightarrow> length (f x) = n"
  shows "stands (concat (map f xs)) (i * n) (f (xs ! i))"
proof -
  have "map length (map f xs) = replicate (length xs) n" using assms(2) by (intro nth_equalityI) auto
  then have "sum_list (take i (map length (map f xs))) = i * n" using assms(1) by (simp add: sum_list_replicate min_def)
  then show ?thesis using stands_concat [of i "map f xs"] assms(1) by simp
qed

lemma word_join:
  "ucast (ucast v :: u8) OR push_bit 8 (ucast (ucast (drop_bit 8 v) :: u8)) OR push_bit 16 (ucast (ucast (drop_bit 16 v) :: u8)) OR
   push_bit 24 (ucast (ucast (drop_bit 24 v) :: u8)) = (v :: u32)"
proof (rule bit_word_eqI)
  fix n
  show "bit (ucast (ucast v :: u8) OR push_bit 8 (ucast (ucast (drop_bit 8 v) :: u8)) OR push_bit 16 (ucast (ucast (drop_bit 16 v) :: u8)) OR
     push_bit 24 (ucast (ucast (drop_bit 24 v) :: u8)) :: u32) n \<longleftrightarrow> bit v n" if "n < LENGTH(32)"
    using that by (cases "24 \<le> n"; cases "16 \<le> n") (auto simp: bit_simps)
qed

lemma word_join16: "ucast (ucast v :: u8) OR push_bit 8 (ucast (ucast (drop_bit 8 v) :: u8)) = (v :: u16)"
  by (rule bit_word_eqI) (auto simp: bit_simps)

lemma those_map: "(\<And>x. x \<in> set xs \<Longrightarrow> f x = Some (g x)) \<Longrightarrow> those (map f xs) = Some (map g xs)"
  by (induction xs) auto

lemma char_byte_of: "char_byte (byte_of c) = c"
proof -
  have "uint (word_of_int (of_char c) :: u8) = (of_char c :: int)"
    by (simp add: uint_word_of_int)
  then show ?thesis by (simp add: char_byte_def byte_of_def)
qed

lemma byte_of_nonzero: "c \<noteq> CHR 0x00 \<Longrightarrow> byte_of c \<noteq> 0"
  using char_byte_of [of c] by (auto simp: char_byte_def char_of_def)

text \<open>A string in a string table.\<close>

abbreviation has_string :: "u8 list \<Rightarrow> nat \<Rightarrow> string \<Rightarrow> bool" where
  "has_string tab p s \<equiv> stands tab p (map byte_of s @ [0])"

abbreviation plain_name :: "string \<Rightarrow> bool" where
  "plain_name s \<equiv> CHR 0x00 \<notin> set s"

lemma has_string_read:
  assumes "has_string buf p s" "plain_name s"
  shows "cstring buf p = Some s"
proof -
  obtain pre post where "buf = pre @ (map byte_of s @ [0]) @ post" "length pre = p" using assms(1) unfolding stands_def by blast
  then have b: "drop p buf = map byte_of s @ 0 # post" by auto
  have c: "byte_of c \<noteq> 0" if "c \<in> set s" for c by (rule byte_of_nonzero) (use that assms(2) in metis)
  have nz: "x \<noteq> 0" if "x \<in> set (map byte_of s)" for x using that c unfolding set_map by (elim imageE) simp
  have "takeWhile (\<lambda>b. b \<noteq> 0) (map byte_of s @ 0 # post) = map byte_of s @ takeWhile (\<lambda>b. b \<noteq> 0) (0 # post)"
    by (rule takeWhile_append2) (rule nz)
  then have t: "takeWhile (\<lambda>b. b \<noteq> 0) (drop p buf) = map byte_of s" unfolding b by simp
  have "0 \<in> set (drop p buf)" unfolding b by simp
  moreover have "map char_byte (map byte_of s) = s" by (simp add: comp_def char_byte_of)
  ultimately show ?thesis unfolding cstring_def Let_def t by simp
qed

lemma strtab_add_string: "strtab_add s tab = (p, tab') \<Longrightarrow> has_string tab' p s \<and> (\<exists>t. tab' = tab @ t)"
  using standsI [of tab p "map byte_of s @ [0]" "[]"] by (auto simp: strtab_add_def)

lemma strtab_adds_strings:
  "strtab_adds ss tab = (ps, tab') \<Longrightarrow> list_all2 (has_string tab') ps ss \<and> (\<exists>t. tab' = tab @ t)"
proof (induction ss arbitrary: tab ps)
  case (Cons s ss)
  obtain p tab1 ps1 where e: "strtab_add s tab = (p, tab1)" "strtab_adds ss tab1 = (ps1, tab')" "ps = p # ps1"
    using Cons.prems by (auto simp: case_prod_unfold Let_def prod_eq_iff)
  show ?case using Cons.IH [OF e(2)] strtab_add_string [OF e(1)] e(3) stands_append by auto
qed simp

text \<open>The symbols a pass appends, with their names in the table.\<close>

definition named_by :: "u8 list \<Rightarrow> (u32 \<Rightarrow> symbol \<Rightarrow> elf_sym) \<Rightarrow> elf_sym \<Rightarrow> symbol \<Rightarrow> bool" where
  "named_by tab mk e y \<longleftrightarrow> (\<exists>p. e = mk (of_nat p) y \<and> has_string tab p (sy_name y))"

lemma named_by_append: "named_by tab mk e y \<Longrightarrow> named_by (tab @ t) mk e y"
  by (auto simp: named_by_def intro: stands_append)

lemma named_by_add: "strtab_add (sy_name y) tab = (p, tab1) \<Longrightarrow> named_by (tab1 @ t) mk (mk (of_nat p) y) y"
  unfolding named_by_def by (blast dest: strtab_add_string intro: stands_append)

lemma sym_loop_result:
  assumes "sym_loop take_it mk k ys (tab, es, mp) = (tab', es', mp')"
  shows "(\<exists>new t. es' = es @ new \<and> tab' = tab @ t \<and> list_all2 (named_by tab' mk) new (filter take_it ys)) \<and> (\<forall>i < k. mp' i = mp i)"
  using assms
proof (induction ys arbitrary: k tab es mp)
  case (Cons y ys)
  show ?case
  proof (cases "take_it y")
    case True
    obtain p tab1 where a: "strtab_add (sy_name y) tab = (p, tab1)" by fastforce
    have "sym_loop take_it mk (Suc k) ys (tab1, es @ [mk (of_nat p) y], mp(k := length es)) = (tab', es', mp')"
      using Cons.prems True a by simp
    from Cons.IH [OF this] obtain new t where n: "es' = es @ mk (of_nat p) y # new" "tab' = tab1 @ t"
      "list_all2 (named_by tab' mk) new (filter take_it ys)" "\<forall>i < k. mp' i = mp i"
      by auto
    have "named_by tab' mk (mk (of_nat p) y) y" using named_by_add [OF a] n(2) by simp
    then show ?thesis using n strtab_add_string [OF a] True by (intro conjI exI [of _ "mk (of_nat p) y # new"]) auto
  next
    case False
    then have "sym_loop take_it mk (Suc k) ys (tab, es, mp) = (tab', es', mp')" using Cons.prems by simp
    from Cons.IH [OF this] show ?thesis using False by auto
  qed
qed (auto intro: exI [of _ "[]"])

lemma sym_loop_numbers:
  assumes "sym_loop take_it mk k ys (tab, es, mp) = (tab', es', mp')" "i < length ys" "take_it (ys ! i)"
  shows "mp' (k + i) < length es' \<and> named_by tab' mk (es' ! mp' (k + i)) (ys ! i)"
  using assms
proof (induction ys arbitrary: k tab es mp i)
  case (Cons y ys)
  obtain tab1 es1 mp1 where st: "(if take_it y then (let (pos, tab) = strtab_add (sy_name y) tab in (tab, es @ [mk (of_nat pos) y], mp(k := length es)))
        else (tab, es, mp)) = (tab1, es1, mp1)" by (metis prod_cases3)
  have r: "sym_loop take_it mk (Suc k) ys (tab1, es1, mp1) = (tab', es', mp')" using Cons.prems(1) st by simp
  show ?case
  proof (cases i)
    case (Suc j)
    then show ?thesis using Cons.IH [OF r, of j] Cons.prems(2,3) by simp
  next
    case 0
    obtain p where a: "strtab_add (sy_name y) tab = (p, tab1)" "es1 = es @ [mk (of_nat p) y]" "mp1 = mp(k := length es)"
      using st Cons.prems(3) 0 by (auto split: prod.splits)
    obtain new t where "es' = es1 @ new" "tab' = tab1 @ t" "mp' k = length es" using sym_loop_result [OF r] a(3) by auto
    then show ?thesis using 0 a(2) named_by_add [OF a(1), of t mk] by simp
  qed
qed simp

subsection \<open>The parts of the file\<close>

lemma offsets_nth:
  assumes "i \<le> length ns" "unat off + sum_list ns < 0x100000000"
  shows "unat (offsets off (map of_nat ns) ! i) = unat off + sum_list (take i ns)"
  using assms
proof (induction ns arbitrary: off i)
  case (Cons n ns)
  show ?case
  proof (cases i)
    case (Suc j)
    have "unat (off + of_nat n) = unat off + n" using Cons.prems(2) by (simp add: unat_word_ariths unat_of_nat)
    then show ?thesis using Cons.IH [of j "off + of_nat n"] Cons.prems Suc by simp
  qed simp
qed simp

lemma write_lengths [simp]: "length (write_shdr h) = 40" "length (write_sym y) = 16" "length (write_rel e) = 8"
  "length (elf_ehdr off) = 52" "length (section_image s) = nat (sec_len s)"
  by (simp_all add: write_shdr_def write_sym_def write_rel_def elf_ehdr_def elf_put32_def elf_put16_def section_image_def)

lemma shdr_fields:
  "obj_get32 (write_shdr h) 0 = Some (sh_name h)" "obj_get32 (write_shdr h) 4 = Some (sh_type h)"
  "obj_get32 (write_shdr h) 8 = Some (sh_flags h)" "obj_get32 (write_shdr h) 16 = Some (sh_offset h)"
  "obj_get32 (write_shdr h) 20 = Some (sh_size h)" "obj_get32 (write_shdr h) 24 = Some (sh_link h)"
  "obj_get32 (write_shdr h) 28 = Some (sh_info h)" "obj_get32 (write_shdr h) 32 = Some (sh_addralign h)"
  by (simp_all add: write_shdr_def obj_get32_def elf_put32_def word_join)

lemma sym_fields:
  "obj_get32 (write_sym y) 0 = Some (st_name y)" "obj_get32 (write_sym y) 4 = Some (st_value y)" "obj_get32 (write_sym y) 8 = Some (st_size y)"
  "obj_get16 (write_sym y) 14 = Some (st_shndx y)" "write_sym y ! 12 = st_info y"
  by (simp_all add: write_sym_def obj_get32_def obj_get16_def elf_put32_def elf_put16_def word_join word_join16)

lemma rel_fields: "obj_get32 (write_rel e) 0 = Some (fst e)" "obj_get32 (write_rel e) 4 = Some (snd e)"
  by (simp_all add: write_rel_def obj_get32_def elf_put32_def word_join)

lemma eight_zeros: "replicate 8 x = [x, x, x, x, x, x, x, x]"
  by (simp add: numeral_eq_Suc)

lemma ehdr_fields:
  "obj_get32 (elf_ehdr off) 32 = Some off" "obj_get16 (elf_ehdr off) 48 = Some 16" "obj_get16 (elf_ehdr off) 50 = Some 15"
  "obj_get16 (elf_ehdr off) 16 = Some 1" "obj_get16 (elf_ehdr off) 18 = Some 8"
  "take 4 (elf_ehdr off) = [0x7F, 0x45, 0x4C, 0x46]" "elf_ehdr off ! 4 = 1" "elf_ehdr off ! 5 = 1"
  by (simp_all add: elf_ehdr_def eight_zeros obj_get32_def obj_get16_def elf_put32_def elf_put16_def word_join)

text \<open>What the reader makes of a section header, a symbol and a relocation entry.\<close>

definition hdr_sec :: "elf_shdr \<Rightarrow> string \<Rightarrow> u8 list \<Rightarrow> ld_input_sec" where
  "hdr_sec h s d =
     \<lparr> is_name = s, is_type = unat (sh_type h), is_flags = sh_flags h, is_data = d, is_size = sh_size h,
       is_align = (if sh_addralign h \<noteq> 0 then sh_addralign h else 1), is_vaddr = 0, is_matched = False \<rparr>"

definition sym_of :: "elf_sym \<Rightarrow> string \<Rightarrow> ld_input_sym" where
  "sym_of e s =
     \<lparr> iy_name = s, iy_value = st_value e, iy_size = st_size e, iy_shndx = unat (st_shndx e),
       iy_binding = unat (drop_bit 4 (st_info e)), iy_type = unat (st_info e AND 0xF) \<rparr>"

definition rel_of :: "nat \<Rightarrow> u32 \<times> u32 \<Rightarrow> ld_reloc" where
  "rel_of sec e =
     \<lparr> lr_offset = fst e, lr_sym_idx = unat (drop_bit 8 (snd e)), lr_addend = 0, lr_type = unat (snd e AND 0xFF), lr_section = sec \<rparr>"

lemma read_section_at:
  assumes "stands buf (shdr_at shoff (of_nat i)) (write_shdr h)" "cstring buf (str + unat (sh_name h)) = Some s"
    "d = (if sh_type h = 1 \<and> sh_size h > 0 then take (unat (sh_size h)) (drop (unat (sh_offset h)) buf) else [])"
  shows "read_section buf shoff str i = Some (hdr_sec h s d)"
proof -
  note g = stands_get32 [OF assms(1)]
  show ?thesis
    using g [of 0] g [of 4] g [of 8] g [of 16] g [of 20] g [of 32] assms(2,3)
    by (simp add: read_section_def Let_def shdr_fields hdr_sec_def)
qed

lemma small_index: "j < n \<Longrightarrow> n * c = unat (sz :: u32) \<Longrightarrow> 0 < c \<Longrightarrow> unat (of_nat j * of_nat c :: u32) = j * c"
proof -
  assume a: "j < n" "n * c = unat sz" "0 < c"
  then have "j * c < n * c" using mult_strict_right_mono [of j n c] by blast
  then have "j * c < 4294967296" using a(2) unsigned_less [of sz, where ?'a = nat] by simp
  then show ?thesis by (simp add: unat_of_nat flip: of_nat_mult)
qed

lemma read_rels_at:
  assumes "stands buf (shdr_at shoff (of_nat i)) (write_shdr h)" "sh_type h = 9"
    "stands buf (unat (sh_offset h)) (concat (map write_rel es))" "length es * 8 = unat (sh_size h)"
  shows "read_rels buf shoff i = Some (map (rel_of (unat (sh_info h))) es)"
proof -
  have "read_rel buf (sh_offset h) (unat (sh_info h)) j = Some (rel_of (unat (sh_info h)) (es ! j))" if "j < length es" for j
  proof -
    have "stands buf (unat (sh_offset h) + j * 8) (write_rel (es ! j))"
      using stands_trans [OF assms(3) stands_chunk [of j es write_rel 8]] that by simp
    note g = stands_get32 [OF this]
    show ?thesis using g [of 0] g [of 4] small_index [OF that assms(4)] by (simp add: read_rel_def Let_def rel_fields rel_of_def)
  qed
  then have "those (map (read_rel buf (sh_offset h) (unat (sh_info h))) [0..<length es]) =
      Some (map (\<lambda>j. rel_of (unat (sh_info h)) (es ! j)) [0..<length es])" by (intro those_map) simp
  moreover have "map (\<lambda>j. rel_of (unat (sh_info h)) (es ! j)) [0..<length es] = map (rel_of (unat (sh_info h))) es"
    by (intro nth_equalityI) simp_all
  moreover note g = stands_get32 [OF assms(1)]
  moreover have "unat (sh_size h) div 8 = length es" using assms(4) by simp
  ultimately show ?thesis using g [of 4] g [of 16] g [of 20] g [of 28] assms(2) by (simp add: read_rels_def Let_def shdr_fields)
qed

lemma read_rels_none:
  assumes "stands buf (shdr_at shoff (of_nat i)) (write_shdr h)" "sh_type h \<noteq> 9"
  shows "read_rels buf shoff i = Some []"
  using stands_get32 [OF assms(1), of 4] assms(2) by (simp add: read_rels_def Let_def shdr_fields)

lemma read_syms_at:
  assumes "stands buf (shdr_at shoff (of_nat i)) (write_shdr h)" "stands buf (shdr_at shoff (sh_link h)) (write_shdr h2)"
    "stands buf (unat (sh_offset h)) (concat (map write_sym es))" "length es * 16 = unat (sh_size h)"
    "stands buf (unat (sh_offset h2)) tab" "list_all2 (\<lambda>e s. has_string tab (unat (st_name e)) s \<and> plain_name s) es ss"
  shows "read_syms buf shoff i = Some (map2 sym_of es ss)"
proof -
  have l: "length ss = length es" using list_all2_lengthD [OF assms(6)] by simp
  have "read_sym buf (sh_offset h) (unat (sh_offset h2)) j = Some (sym_of (es ! j) (ss ! j))" if "j < length es" for j
  proof -
    have c: "stands buf (unat (sh_offset h) + j * 16) (write_sym (es ! j))"
      using stands_trans [OF assms(3) stands_chunk [of j es write_sym 16]] that by simp
    note g = stands_get32 [OF c]
    have "cstring buf (unat (sh_offset h2) + unat (st_name (es ! j))) = Some (ss ! j)"
      using list_all2_nthD [OF assms(6) that] stands_trans [OF assms(5)] by (intro has_string_read) auto
    then show ?thesis
      using g [of 0] g [of 4] g [of 8] stands_get16 [OF c, of 14] stands_nth [OF c, of 12] small_index [OF that assms(4)]
      by (simp add: read_sym_def Let_def sym_fields sym_of_def)
  qed
  then have "those (map (read_sym buf (sh_offset h) (unat (sh_offset h2))) [0..<length es]) =
      Some (map (\<lambda>j. sym_of (es ! j) (ss ! j)) [0..<length es])" by (intro those_map) simp
  moreover have "map (\<lambda>j. sym_of (es ! j) (ss ! j)) [0..<length es] = map2 sym_of es ss"
    using l by (intro nth_equalityI) simp_all
  moreover note g = stands_get32 [OF assms(1)] and g2 = stands_get32 [OF assms(2)]
  moreover have "unat (sh_size h) div 16 = length es" using assms(4) by simp
  ultimately show ?thesis using g [of 16] g [of 20] g [of 24] g2 [of 16] by (simp add: read_syms_def Let_def shdr_fields)
qed

text \<open>The whole file, from its parts and section headers.\<close>

definition elf_bytes :: "u8 list list \<Rightarrow> elf_shdr list \<Rightarrow> u32 \<Rightarrow> u8 list" where
  "elf_bytes parts hs shoff = elf_ehdr shoff @ concat parts @ concat (map write_shdr hs)"

lemma bytes_part:
  assumes "i < length parts"
  shows "stands (elf_bytes parts hs shoff) (52 + sum_list (take i (map length parts))) (parts ! i)"
  unfolding elf_bytes_def by (rule stands_trans [OF standsI stands_concat [OF assms]]) simp

lemma bytes_shdr:
  assumes "i < length hs" "length hs \<le> 16" "unat shoff = 52 + sum_list (map length parts)"
  shows "stands (elf_bytes parts hs shoff) (shdr_at shoff (of_nat i)) (write_shdr (hs ! i))"
proof -
  have "stands (elf_bytes parts hs shoff) (52 + sum_list (map length parts)) (concat (map write_shdr hs))"
    unfolding elf_bytes_def using standsI [of "elf_ehdr shoff @ concat parts" _ "concat (map write_shdr hs)" "[]"] by (simp add: length_concat)
  then have "stands (elf_bytes parts hs shoff) (52 + sum_list (map length parts) + i * 40) (write_shdr (hs ! i))"
    by (rule stands_trans) (rule stands_chunk [OF assms(1)], simp)
  moreover have "unat (of_nat i * 40 :: u32) = i * 40"
    using small_index [of i 16 40 640] assms(1,2) by simp
  ultimately show ?thesis by (simp add: shdr_at_def assms(3))
qed

lemma bytes_header:
  "elf_header_ok (elf_bytes parts hs shoff)" "obj_get32 (elf_bytes parts hs shoff) 32 = Some shoff"
  "obj_get16 (elf_bytes parts hs shoff) 48 = Some 16" "obj_get16 (elf_bytes parts hs shoff) 50 = Some 15"
proof -
  have h: "stands (elf_bytes parts hs shoff) 0 (elf_ehdr shoff)"
    unfolding elf_bytes_def using standsI [of "[]" 0 "elf_ehdr shoff"] by simp
  note g = stands_get16 [OF h]
  show "obj_get32 (elf_bytes parts hs shoff) 32 = Some shoff" "obj_get16 (elf_bytes parts hs shoff) 48 = Some 16"
    "obj_get16 (elf_bytes parts hs shoff) 50 = Some 15"
    using stands_get32 [OF h, of 32] g [of 48] g [of 50] by (simp_all add: ehdr_fields)
  have "take 4 (elf_bytes parts hs shoff) = take 4 (elf_ehdr shoff)" by (simp add: elf_bytes_def)
  then show "elf_header_ok (elf_bytes parts hs shoff)"
    using stands_length [OF h] g [of 16] g [of 18] stands_nth [OF h, of 4] stands_nth [OF h, of 5] by (simp add: elf_header_ok_def ehdr_fields)
qed

lemma parse_bytes:
  assumes b: "buf = elf_bytes parts hs shoff" "unat shoff = 52 + sum_list (map length parts)" "length hs = 16"
    and n: "\<And>i. i < 16 \<Longrightarrow> cstring buf (unat (sh_offset (hs ! 15)) + unat (sh_name (hs ! i))) = Some (names i)"
    and d: "\<And>i. i < 16 \<Longrightarrow> datas i = (if sh_type (hs ! i) = 1 \<and> sh_size (hs ! i) > 0
        then take (unat (sh_size (hs ! i))) (drop (unat (sh_offset (hs ! i))) buf) else [])"
    and t: "filter (\<lambda>i. unat (sh_type (hs ! i)) = 2) [0..<16] = [8]"
    and y: "read_syms buf shoff 8 = Some syms"
    and r: "\<And>i. i < 16 \<Longrightarrow> read_rels buf shoff i = Some (rels i)"
  shows "mips_parse_elf path buf =
    Some \<lparr> ob_path = path, ob_sections = map (\<lambda>i. hdr_sec (hs ! i) (names i) (datas i)) [0..<16], ob_syms = syms,
           ob_relocs = concat (map rels [0..<16]), ob_sym_map = [] \<rparr>"
proof -
  let ?secs = "map (\<lambda>i. hdr_sec (hs ! i) (names i) (datas i)) [0..<16]"
  have hdr: "stands buf (shdr_at shoff (of_nat i)) (write_shdr (hs ! i))" if "i < 16" for i
    using bytes_shdr [of i hs shoff parts] b that by simp
  have str: "obj_get32 buf (shdr_at shoff 15 + 16) = Some (sh_offset (hs ! 15))"
    using stands_get32 [OF hdr [of 15], of 16] by (simp add: shdr_fields)
  have secs: "those (map (read_section buf shoff (unat (sh_offset (hs ! 15)))) [0..<16]) = Some ?secs"
    by (rule those_map) (use read_section_at [OF hdr n d] in simp)
  have "filter (\<lambda>i. is_type (?secs ! i) = 2) [0..<16] = filter (\<lambda>i. unat (sh_type (hs ! i)) = 2) [0..<16]"
    by (rule filter_cong) (simp_all add: hdr_sec_def)
  moreover have "those (map (read_rels buf shoff) [0..<16]) = Some (map rels [0..<16])" by (rule those_map) (simp add: r)
  ultimately show ?thesis
    unfolding mips_parse_elf_def using bytes_header [of parts hs shoff] str secs t y by (simp add: b(1))
qed

subsection \<open>Relocation entries\<close>

definition sym_number :: "symtab \<Rightarrow> (nat \<Rightarrow> nat) \<Rightarrow> reloc \<Rightarrow> u32" where
  "sym_number ys mp r =
     (let y = ys ! rl_sym_idx r in if is_local y then word_of_int (1 + sy_section y) else of_nat (mp (rl_sym_idx r)))"

definition entry_for :: "symtab \<Rightarrow> (nat \<Rightarrow> nat) \<Rightarrow> reloc \<Rightarrow> u32 \<times> u32 \<Rightarrow> bool" where
  "entry_for ys mp r e \<longleftrightarrow>
     rl_sym_idx r < length ys \<and> e = (rl_offset r, push_bit 8 (sym_number ys mp r) OR (of_nat (rl_type r) AND 0xFF))"

lemma fold_value_len: "fold_value off ty v s = Some s' \<Longrightarrow> sec_len s' = sec_len s \<and> sec_align_req s' = sec_align_req s"
  by (auto simp: fold_value_def Let_def bind_eq_Some_conv split: if_splits)

lemma rel_entry_result:
  "rel_entry ys mp r s = Some (e, s') \<Longrightarrow> entry_for ys mp r e \<and> sec_len s' = sec_len s \<and> sec_align_req s' = sec_align_req s"
  by (auto simp: rel_entry_def Let_def bind_eq_Some_conv entry_for_def sym_number_def is_local_def dest: fold_value_len split: if_splits)

lemma rel_entries_result:
  "rel_entries ys mp rs s = Some (es, s') \<Longrightarrow> list_all2 (entry_for ys mp) rs es \<and> sec_len s' = sec_len s \<and> sec_align_req s' = sec_align_req s"
proof (induction rs arbitrary: s es)
  case (Cons r rs)
  obtain e s1 es1 where "rel_entry ys mp r s = Some (e, s1)" "rel_entries ys mp rs s1 = Some (es1, s')" "es = e # es1"
    using Cons.prems by (auto simp: bind_eq_Some_conv)
  then show ?case using Cons.IH [of s1 es1] rel_entry_result [of ys mp r s e s1] by simp
qed simp

lemma build_rels_result:
  assumes "build_rels ys mp secs ks = Some (rels, secs')" "distinct ks"
  shows "(\<forall>k. sec_len (secs' k) = sec_len (secs k) \<and> sec_align_req (secs' k) = sec_align_req (secs k)) \<and>
    (\<forall>k \<in> set ks. list_all2 (entry_for ys mp) (sec_relocs (secs k)) (rels k) \<and>
       rel_entries ys mp (sec_relocs (secs k)) (secs k) = Some (rels k, secs' k)) \<and> (\<forall>k. k \<notin> set ks \<longrightarrow> secs' k = secs k)"
  using assms
proof (induction ks arbitrary: secs rels)
  case (Cons k ks)
  obtain es s f where e: "rel_entries ys mp (sec_relocs (secs k)) (secs k) = Some (es, s)"
    and b: "build_rels ys mp (secs(k := s)) ks = Some (f, secs')" and r: "rels = f(k := es)"
    using Cons.prems(1) by (auto simp: bind_eq_Some_conv)
  note ih = Cons.IH [OF b]
  have kn: "k \<notin> set ks" "distinct ks" using Cons.prems(2) by auto
  then have "secs' k = s" using ih by simp
  moreover have "list_all2 (entry_for ys mp) (sec_relocs (secs j)) (rels j) \<and>
      rel_entries ys mp (sec_relocs (secs j)) (secs j) = Some (rels j, secs' j)" if "j \<in> set ks" for j
  proof -
    have "j \<noteq> k" using that kn by auto
    then show ?thesis using ih kn that r by auto
  qed
  moreover have "sec_len (secs' j) = sec_len (secs j) \<and> sec_align_req (secs' j) = sec_align_req (secs j)" for j
    using ih kn rel_entries_result [OF e] by (cases "j = k") auto
  ultimately show ?case using ih kn rel_entries_result [OF e] e r by auto
qed simp

lemma entry_fields:
  assumes "entry_for ys mp r e" "sym_number ys mp r < 0x1000000"
  shows "drop_bit 8 (snd e) = sym_number ys mp r" "unat (snd e AND 0xFF) = rl_type r mod 256"
proof -
  let ?i = "sym_number ys mp r"
  have m: "(0xFF :: u32) = mask 8" by (simp add: mask_eq_exp_minus_1)
  have e: "snd e = push_bit 8 ?i OR (of_nat (rl_type r) AND mask 8)" using assms(1) by (simp add: entry_for_def m)
  have "?i = take_bit 24 ?i"
  proof (rule word_uint_eqI)
    have "uint ?i < 2 ^ 24" using assms(2) by (simp add: word_less_def)
    then show "uint ?i = uint (take_bit 24 ?i)" by (simp add: unsigned_take_bit_eq take_bit_int_eq_self)
  qed
  then have i: "bit ?i n \<Longrightarrow> n < 24" for n by (metis bit_take_bit_iff)
  show "drop_bit 8 (snd e) = ?i"
    unfolding e by (rule bit_word_eqI) (auto simp: bit_drop_bit_eq bit_or_iff bit_and_iff bit_push_bit_iff bit_mask_iff dest: i)
  have "snd e AND 0xFF = of_nat (rl_type r) AND mask 8"
    unfolding e m by (rule bit_word_eqI) (auto simp: bit_or_iff bit_and_iff bit_push_bit_iff bit_mask_iff)
  also have "\<dots> = take_bit 8 (of_nat (rl_type r))" by (simp add: take_bit_eq_mask)
  finally show "unat (snd e AND 0xFF) = rl_type r mod 256"
    by (simp add: take_bit_eq_mod unat_mod unat_of_nat mod_mod_cancel)
qed

subsection \<open>The object that comes back\<close>

definition isym :: "string \<Rightarrow> u32 \<Rightarrow> u32 \<Rightarrow> nat \<Rightarrow> nat \<Rightarrow> nat \<Rightarrow> ld_input_sym" where
  "isym name v n shndx bnd ty = \<lparr> iy_name = name, iy_value = v, iy_size = n, iy_shndx = shndx, iy_binding = bnd, iy_type = ty \<rparr>"

definition section_isym :: "nat \<Rightarrow> ld_input_sym" where
  "section_isym k = isym [] 0 0 (unat (msec_shndx (int k))) STB_LOCAL STT_SECTION"

definition func_type :: "symbol \<Rightarrow> nat" where
  "func_type y = (if sy_is_func y then 2 else 0)"

definition local_isym :: "symbol \<Rightarrow> ld_input_sym" where
  "local_isym y = isym (sy_name y) (sy_value y) (sy_size y) (unat (msec_shndx (sy_section y))) STB_LOCAL (func_type y)"

definition global_isym :: "symbol \<Rightarrow> ld_input_sym" where
  "global_isym y =
     isym (sy_name y) (if sy_defined y then sy_value y else 0) (sy_size y) (if sy_defined y then unat (msec_shndx (sy_section y)) else 0)
       (if sy_weak y then STB_WEAK else STB_GLOBAL) (func_type y)"

definition object_syms :: "symtab \<Rightarrow> ld_input_sym list" where
  "object_syms ys =
     isym [] 0 0 0 0 0 # map section_isym [0..<MSEC_COUNT] @ map local_isym (filter is_local ys) @
     map global_isym (filter (\<lambda>y. \<not> is_local y) ys)"

lemma info_nibbles: "drop_bit 4 (ELF32_ST_INFO b t) = b AND 0xF" "ELF32_ST_INFO b t AND 0xF = t AND 0xF"
proof -
  have m: "(0xF :: u8) = mask 4" by (simp add: mask_eq_exp_minus_1)
  show "drop_bit 4 (ELF32_ST_INFO b t) = b AND 0xF"
    unfolding ELF32_ST_INFO_def m
    by (rule bit_word_eqI) (auto simp: bit_drop_bit_eq bit_or_iff bit_and_iff bit_push_bit_iff bit_mask_iff)
  show "ELF32_ST_INFO b t AND 0xF = t AND 0xF"
    unfolding ELF32_ST_INFO_def m
    by (rule bit_word_eqI) (auto simp: bit_or_iff bit_and_iff bit_push_bit_iff bit_mask_iff)
qed

lemma sym_of_simps:
  "sym_of (section_esym k) [] = section_isym k" "sym_of (local_esym p y) (sy_name y) = local_isym y"
  "sym_of (global_esym p y) (sy_name y) = global_isym y" "sym_of null_esym [] = isym [] 0 0 0 0 0"
  by (simp_all add: sym_of_def section_esym_def local_esym_def global_esym_def null_esym_def section_isym_def local_isym_def
      global_isym_def isym_def func_type_def info_nibbles)

lemma named_string:
  assumes "named_by tab mk e y" "length tab < 0x100000000" "\<And>n y. st_name (mk n y) = n"
  shows "has_string tab (unat (st_name e)) (sy_name y)"
proof -
  obtain p where p: "e = mk (of_nat p) y" "has_string tab p (sy_name y)" using assms(1) by (auto simp: named_by_def)
  then have "unat (of_nat p :: u32) = p" using stands_length [OF p(2)] assms(2) by (simp add: unat_of_nat)
  then show ?thesis using p assms(3) by simp
qed

lemma named_sym: "named_by tab local_esym e y \<Longrightarrow> sym_of e (sy_name y) = local_isym y"
  "named_by tab global_esym e y \<Longrightarrow> sym_of e (sy_name y) = global_isym y"
  by (auto simp: named_by_def sym_of_simps)

lemma map2_named:
  assumes "list_all2 P es ys" "\<And>e y. P e y \<Longrightarrow> sym_of e (sy_name y) = g y"
  shows "map2 sym_of es (map sy_name ys) = map g ys"
  using assms(1) by (induction es ys rule: list_all2_induct) (auto simp: assms(2))

lemma map2_append: "length xs = length xs' \<Longrightarrow> map2 f (xs @ ys) (xs' @ ys') = map2 f xs xs' @ map2 f ys ys'"
  by simp

lemma named_names:
  assumes "list_all2 (named_by tab mk) E Y" "\<And>n y. st_name (mk n y) = n" "\<And>y. y \<in> set Y \<Longrightarrow> plain_name (sy_name y)"
    "length tab < 0x100000000"
  shows "list_all2 (\<lambda>e s. has_string tab (unat (st_name e)) s \<and> plain_name s) E (map sy_name Y)"
  using assms(1,3)
proof (induction E Y rule: list_all2_induct)
  case (Cons e E y Y)
  then show ?case using named_string [OF _ assms(4,2)] by auto
qed simp

lemma global_read_at:
  assumes "list_all2 (\<lambda>e s. has_string tab (unat (st_name e)) s \<and> plain_name s) es ss" "length tab < 0x100000000"
    "j < length es" "named_by tab global_esym (es ! j) y" "plain_name (sy_name y)"
  shows "map2 sym_of es ss ! j = global_isym y" "j < length (map2 sym_of es ss)"
proof -
  have l: "length ss = length es" using list_all2_lengthD [OF assms(1)] by simp
  have "has_string tab (unat (st_name (es ! j))) (sy_name y)"
    using named_string [OF assms(4,2)] by (simp add: global_esym_def)
  then have "cstring tab (unat (st_name (es ! j))) = Some (sy_name y)" using has_string_read assms(5) by simp
  moreover have "cstring tab (unat (st_name (es ! j))) = Some (ss ! j)"
    using has_string_read list_all2_nthD [OF assms(1,3)] by blast
  ultimately have "ss ! j = sy_name y" by simp
  then show "map2 sym_of es ss ! j = global_isym y" "j < length (map2 sym_of es ss)" using assms(3,4) l named_sym(2) by simp_all
qed

lemma elf_symbols_read:
  assumes "elf_symbols ys = (tab, es, nlocal, mp)" "length tab < 0x100000000" "\<And>y. y \<in> set ys \<Longrightarrow> plain_name (sy_name y)"
  shows "\<exists>ss. list_all2 (\<lambda>e s. has_string tab (unat (st_name e)) s \<and> plain_name s) es ss \<and> map2 sym_of es ss = object_syms ys"
    "i < length ys \<Longrightarrow> \<not> is_local (ys ! i) \<Longrightarrow> mp i < length (object_syms ys) \<and> object_syms ys ! mp i = global_isym (ys ! i)"
proof -
  let ?fix = "null_esym # map section_esym [0..<7]" and ?loc = "filter is_local ys" and ?glo = "filter (\<lambda>y. \<not> is_local y) ys"
  obtain tab1 es1 mp1 where 1: "sym_loop is_local local_esym 0 ys (strtab_init, ?fix, \<lambda>_. 0) = (tab1, es1, mp1)"
    and 2: "sym_loop (\<lambda>y. \<not> is_local y) global_esym 0 ys (tab1, es1, mp1) = (tab, es, mp)"
    using assms(1) by (auto simp: elf_symbols_def Let_def split: prod.splits)
  obtain L t1 where L: "es1 = ?fix @ L" "tab1 = strtab_init @ t1" "list_all2 (named_by tab1 local_esym) L ?loc"
    using sym_loop_result [OF 1] by blast
  obtain G t2 where G: "es = es1 @ G" "tab = tab1 @ t2" "list_all2 (named_by tab global_esym) G ?glo"
    using sym_loop_result [OF 2] by blast
  have L': "list_all2 (named_by tab local_esym) L ?loc"
    using L(3) unfolding G(2) by (rule list_all2_mono) (rule named_by_append)
  define ss where "ss = replicate 8 [] @ map sy_name ?loc @ map sy_name ?glo"
  have z: "has_string tab 0 []" unfolding G(2) L(2) strtab_init_def using standsI [of "[]" 0 "[0]" "t1 @ t2"] by simp
  have fixed: "list_all2 (\<lambda>e s. has_string tab (unat (st_name e)) s \<and> plain_name s) ?fix (replicate 8 [])"
    using z by (simp add: null_esym_def section_esym_def eight_zeros upt_rec)
  have all: "list_all2 (\<lambda>e s. has_string tab (unat (st_name e)) s \<and> plain_name s) es ss"
    unfolding G(1) L(1) ss_def append.assoc
    by (intro list_all2_appendI fixed named_names [OF L' _ _ assms(2)] named_names [OF G(3) _ _ assms(2)])
      (auto simp: local_esym_def global_esym_def dest: assms(3))
  have m: "map2 sym_of es ss = object_syms ys"
  proof -
    have f: "map2 sym_of ?fix (replicate 8 []) = isym [] 0 0 0 0 0 # map section_isym [0..<7]"
      by (simp add: sym_of_simps eight_zeros upt_rec)
    have l: "map2 sym_of L (map sy_name ?loc) = map local_isym ?loc" by (rule map2_named [OF L']) (rule named_sym)
    have g: "map2 sym_of G (map sy_name ?glo) = map global_isym ?glo" by (rule map2_named [OF G(3)]) (rule named_sym)
    have "map2 sym_of es ss = map2 sym_of ?fix (replicate 8 []) @ map2 sym_of L (map sy_name ?loc) @ map2 sym_of G (map sy_name ?glo)"
      unfolding G(1) L(1) ss_def append.assoc using list_all2_lengthD [OF L'] by (subst map2_append, simp)+ simp
    then show ?thesis by (simp add: f l g object_syms_def)
  qed
  show "\<exists>ss. list_all2 (\<lambda>e s. has_string tab (unat (st_name e)) s \<and> plain_name s) es ss \<and> map2 sym_of es ss = object_syms ys"
    using all m by blast
  assume i: "i < length ys" "\<not> is_local (ys ! i)"
  then have n: "mp i < length es" "named_by tab global_esym (es ! mp i) (ys ! i)" using sym_loop_numbers [OF 2] by auto
  show "mp i < length (object_syms ys) \<and> object_syms ys ! mp i = global_isym (ys ! i)"
    using global_read_at [OF all assms(2) n] assms(3) i(1) by (simp add: m)
qed

text \<open>The names of the sections in the order of the headers, and those of the assembler's sections.\<close>

definition hdr_names :: "string list" where
  "hdr_names =
     [[], ''.text'', ''.rodata'', ''.data'', ''.bss'', ''.debug_line'', ''.debug_info'', ''.debug_abbrev'', ''.symtab'', ''.strtab'',
      ''.rel.text'', ''.rel.rodata'', ''.rel.data'', ''.rel.debug_line'', ''.rel.debug_info'', ''.shstrtab'']"

definition msec_names :: "string list" where
  "msec_names = [''.text'', ''.data'', ''.rodata'', ''.bss'', ''.debug_line'', ''.debug_info'', ''.debug_abbrev'']"

text \<open>A state the assembler leaves for its writer: lengths and alignments are sizes, names are C strings, local symbols
  are in a section, and the symbol numbers fit the 24 bits of a relocation entry.\<close>

definition asm_ok :: "mips_asm \<Rightarrow> bool" where
  "asm_ok a \<longleftrightarrow>
     list_all (\<lambda>k. 0 \<le> sec_len (ma_sections a k) \<and> sec_align_req (ma_sections a k) \<le> INT_MAX) [0..<MSEC_COUNT] \<and>
     list_all (\<lambda>y. plain_name (sy_name y) \<and> (is_local y \<longrightarrow> 0 \<le> sy_section y \<and> sy_section y < 7)) (ma_st a) \<and>
     int (length (ma_st a)) < 0xFFFFF0"

lemma write_parts:
  assumes "mips_elf_write a = Some file"
  obtains ns shtab tab es nlocal mp rels secs sz off where
    "strtab_adds sh_names strtab_init = (ns, shtab)" "elf_symbols (ma_st a) = (tab, es, nlocal, mp)"
    "build_rels (ma_st a) mp (ma_sections a) [0..<7] = Some (rels, secs)" "sz = part_sizes secs rels es tab shtab" "off = offsets 52 sz"
    "file = elf_bytes (part_images secs rels es tab shtab) (elf_shdrs secs ns off sz nlocal) (off ! 14)"
proof -
  obtain ns shtab where 1: "strtab_adds sh_names strtab_init = (ns, shtab)" by fastforce
  obtain tab es nlocal mp where 2: "elf_symbols (ma_st a) = (tab, es, nlocal, mp)" by (metis prod_cases4)
  obtain rels secs where 3: "build_rels (ma_st a) mp (ma_sections a) [0..<7] = Some (rels, secs)"
    "file = elf_bytes (part_images secs rels es tab shtab)
       (elf_shdrs secs ns (offsets 52 (part_sizes secs rels es tab shtab)) (part_sizes secs rels es tab shtab) nlocal)
       (offsets 52 (part_sizes secs rels es tab shtab) ! 14)"
    using assms unfolding mips_elf_write_def 1 2 by (auto simp: bind_eq_Some_conv Let_def elf_bytes_def)
  show ?thesis by (rule that [OF 1 2 3(1) refl refl 3(2)])
qed

lemma part_sizes_lengths:
  assumes "\<And>k. k < 7 \<Longrightarrow> 0 \<le> sec_len (secs k)"
  shows "part_sizes secs rels es tab shtab = map of_nat (map length (part_images secs rels es tab shtab))"
proof -
  have l: "length (concat (map write_sym es)) = length es * 16" "length (concat (map write_rel rs)) = length rs * 8" for es rs
    by (simp_all add: length_concat comp_def sum_list_triv)
  have w: "of_nat (nat (sec_len (secs k))) = (word_of_int (sec_len (secs k)) :: u32)" if "k < 7" for k
    using assms [OF that] by (rule of_nat_nat)
  show ?thesis by (simp add: part_sizes_def part_images_def Let_def l w)
qed

lemma file_parts:
  assumes "file = elf_bytes parts hs (off ! 14)" "off = offsets 52 (map of_nat (map length parts))" "length parts = 14"
    "length file < 0x100000000"
  shows "i \<le> 14 \<Longrightarrow> unat (off ! i) = 52 + sum_list (take i (map length parts))"
    "i < 14 \<Longrightarrow> stands file (unat (off ! i)) (parts ! i)" "i < 14 \<Longrightarrow> length (parts ! i) < 0x100000000"
    "unat (off ! 14) = 52 + sum_list (map length parts)"
proof -
  have "length file = 52 + sum_list (map length parts) + 40 * length hs"
    unfolding assms(1) elf_bytes_def by (simp add: length_concat comp_def sum_list_triv)
  then have b: "52 + sum_list (map length parts) < 0x100000000" using assms(4) by simp
  show o: "unat (off ! i) = 52 + sum_list (take i (map length parts))" if "i \<le> 14" for i
    unfolding assms(2) using offsets_nth [of i "map length parts" 52] b assms(3) that by simp
  show "unat (off ! 14) = 52 + sum_list (map length parts)" using o [of 14] assms(3) by simp
  show st: "stands file (unat (off ! i)) (parts ! i)" if "i < 14"
    using bytes_part [of i parts hs "off ! 14"] assms(1,3) that by (simp add: o)
  show "length (parts ! i) < 0x100000000" if "i < 14" using stands_length [OF st [OF that]] assms(4) by simp
qed

lemma plain_hdr_names: "i < 16 \<Longrightarrow> plain_name (hdr_names ! i)"
  using nth_mem [of i hdr_names] by (auto simp: hdr_names_def)

text \<open>The place of each header's name among the names that entered the string table.\<close>

definition hdr_slots :: "nat list" where
  "hdr_slots = [0, 1, 2, 3, 6, 7, 8, 4, 5, 9, 10, 11, 12, 13, 14]"

lemma hdr_name_strings:
  assumes "strtab_adds sh_names strtab_init = (ns, shtab)" "i < 16" "length shtab < 0x100000000"
  shows "has_string shtab (unat (sh_name (elf_shdrs secs ns off sz nl ! i))) (hdr_names ! i)"
proof -
  note st = strtab_adds_strings [OF assms(1)]
  have ns: "has_string shtab (unat (of_nat (ns ! j) :: u32)) (sh_names ! j)" if "j < 15" for j
  proof -
    have h: "has_string shtab (ns ! j) (sh_names ! j)" using st that list_all2_nthD2 [of "has_string shtab" ns sh_names j] by (simp add: sh_names_def)
    then have "unat (of_nat (ns ! j) :: u32) = ns ! j" using stands_length [OF h] assms(3) by (simp add: unat_of_nat)
    then show ?thesis using h by simp
  qed
  have z: "has_string shtab 0 []" using st standsI [of "[]" 0 "[0]"] by (auto simp: strtab_init_def)
  show ?thesis
  proof (cases i)
    case 0
    then show ?thesis using z by (simp add: elf_shdrs_def Let_def sh_null_def sh_sec_def hdr_names_def)
  next
    case (Suc j)
    then have j: "j \<in> {0, 1, 2, 3, 4, 5, 6, 7, 8, 9, 10, 11, 12, 13, 14}" using assms(2) unfolding insert_iff empty_iff by presburger
    have "sh_name (elf_shdrs secs ns off sz nl ! i) = of_nat (ns ! (hdr_slots ! j))" "hdr_names ! i = sh_names ! (hdr_slots ! j)" "hdr_slots ! j < 15"
      unfolding Suc using j
      by (elim insertE emptyE; simp add: elf_shdrs_def Let_def sh_sec_def sh_str_def sh_rel_def hdr_slots_def hdr_names_def sh_names_def)+
    then show ?thesis using ns by simp
  qed
qed

definition hdr_data :: "(nat \<Rightarrow> asm_section) \<Rightarrow> u8 list list" where
  "hdr_data secs =
     (let img = (\<lambda>k. section_image (secs k)) in [[], img 0, img 2, img 1, [], img 4, img 5, img 6, [], [], [], [], [], [], [], []])"

definition hdr_rels :: "(nat \<Rightarrow> (u32 \<times> u32) list) \<Rightarrow> ld_reloc list list" where
  "hdr_rels rels =
     [[], [], [], [], [], [], [], [], [], [], map (rel_of 1) (rels 0), map (rel_of 2) (rels 2), map (rel_of 3) (rels 1),
      map (rel_of 5) (rels 4), map (rel_of 6) (rels 5), []]"

lemma part_list: "length (part_images secs rels es tab shtab) = 14"
  by (simp add: part_images_def Let_def)

lemma below_16: "i < 16 \<Longrightarrow> i \<in> {0, 1, 2, 3, 4, 5, 6, 7, 8, 9, 10, 11, 12, 13, 14, 15 :: nat}"
  unfolding insert_iff empty_iff by presburger

lemma hdr_data_read:
  assumes "\<And>j. j < 14 \<Longrightarrow> stands file (unat (off ! j)) (part_images secs rels es tab shtab ! j)"
    "\<And>j. j < 14 \<Longrightarrow> unat (sz ! j) = length (part_images secs rels es tab shtab ! j)" "i < 16"
    "h = elf_shdrs secs ns off sz nl ! i"
  shows "hdr_data secs ! i =
    (if sh_type h = 1 \<and> sh_size h > 0 then take (unat (sh_size h)) (drop (unat (sh_offset h)) file) else [])"
proof -
  let ?p = "part_images secs rels es tab shtab"
  have pos: "0 < sz ! j \<Longrightarrow> take (unat (sz ! j)) (drop (unat (off ! j)) file) = ?p ! j" if "j < 14" for j
    using stands_slice [OF assms(1) [OF that]] assms(2) [OF that] by simp
  have zero: "?p ! j = []" if "j < 14" "\<not> 0 < sz ! j" for j
    using assms(2) [OF that(1)] that(2) by (simp add: word_gt_0)
  note parts = pos [of 0] pos [of 1] pos [of 2] pos [of 3] pos [of 4] pos [of 5] zero [of 0] zero [of 1] zero [of 2] zero [of 3] zero [of 4] zero [of 5]
  show ?thesis
    using below_16 [OF assms(3)] parts unfolding assms(4)
    by (elim insertE emptyE; simp add: elf_shdrs_def Let_def hdr_data_def part_images_def sh_sec_def sh_str_def sh_rel_def sh_null_def)
qed

lemma hdr_rels_read:
  assumes "\<And>j. j < 14 \<Longrightarrow> stands file (unat (off ! j)) (part_images secs rels es tab shtab ! j)"
    "\<And>j. j < 14 \<Longrightarrow> unat (sz ! j) = length (part_images secs rels es tab shtab ! j)" "i < 16"
    "stands file (shdr_at shoff (of_nat i)) (write_shdr (elf_shdrs secs ns off sz nl ! i))"
  shows "read_rels file shoff i = Some (hdr_rels rels ! i)"
proof (cases "i \<in> {10, 11, 12, 13, 14}")
  case True
  define k :: nat where "k = [0, 2, 1, 4, 5] ! (i - 10)"
  define h where "h = elf_shdrs secs ns off sz nl ! i"
  have l: "length (concat (map write_rel rs)) = length rs * 8" for rs by (simp add: length_concat comp_def sum_list_triv)
  have p: "part_images secs rels es tab shtab ! (i - 2) = concat (map write_rel (rels k))" "i - 2 < 14" "sh_type h = 9"
    "sh_offset h = off ! (i - 2)" "sh_size h = sz ! (i - 2)" "hdr_rels rels ! i = map (rel_of (unat (sh_info h))) (rels k)"
    using True unfolding k_def h_def
    by (elim insertE emptyE; simp add: part_images_def Let_def elf_shdrs_def sh_rel_def sh_sec_def hdr_rels_def)+
  show ?thesis
    using read_rels_at [OF assms(4) [folded h_def] p(3), of "rels k"] assms(1,2) [OF p(2)] p by (simp add: l)
next
  case False
  then have "sh_type (elf_shdrs secs ns off sz nl ! i) \<noteq> 9" "hdr_rels rels ! i = []"
    using below_16 [OF assms(3)]
    by (elim insertE emptyE; simp add: elf_shdrs_def Let_def sh_sec_def sh_str_def sh_rel_def sh_null_def hdr_rels_def)+
  then show ?thesis using read_rels_none [OF assms(4)] by simp
qed

text \<open>A relocation of the assembler as the linker reads it: against the section symbol when the symbol is local.\<close>

definition reloc_target :: "symtab \<Rightarrow> reloc \<Rightarrow> ld_input_sym" where
  "reloc_target ys r = (let y = ys ! rl_sym_idx r in if is_local y then section_isym (nat (sy_section y)) else global_isym y)"

definition reads_reloc :: "symtab \<Rightarrow> ld_input_sym list \<Rightarrow> nat \<times> reloc \<Rightarrow> ld_reloc \<Rightarrow> bool" where
  "reads_reloc ys syms sr q \<longleftrightarrow>
     lr_section q = fst sr \<and> lr_offset q = rl_offset (snd sr) \<and> lr_type q = rl_type (snd sr) mod 256 \<and> lr_addend q = 0 \<and>
     lr_sym_idx q < length syms \<and> syms ! lr_sym_idx q = reloc_target ys (snd sr)"

text \<open>The relocations that reach the file, with the header of the section they patch.\<close>

definition object_relocs :: "mips_asm \<Rightarrow> (nat \<times> reloc) list" where
  "object_relocs a = concat (map (\<lambda>(k, sec). map (Pair sec) (sec_relocs (ma_sections a k))) [(0, 1), (2, 2), (1, 3), (4, 5), (5, 6)])"

definition object_section :: "nat \<Rightarrow> asm_section \<Rightarrow> ld_input_sec \<Rightarrow> bool" where
  "object_section k s i \<longleftrightarrow>
     is_name i = msec_names ! k \<and> is_type i = (if k = MSEC_BSS then SHT_NOBITS else SHT_PROGBITS) \<and>
     is_data i = (if k = MSEC_BSS then [] else section_image s) \<and> is_size i = word_of_int (sec_len s) \<and>
     is_align i = (if k < 4 then sec_addralign s else 1) \<and> \<not> is_matched i"

definition object_holds :: "mips_asm \<Rightarrow> (nat \<Rightarrow> asm_section) \<Rightarrow> ld_object \<Rightarrow> bool" where
  "object_holds a secs ob \<longleftrightarrow>
     (\<forall>k < MSEC_COUNT. object_section k (secs k) (ob_sections ob ! unat (msec_shndx (int k)))) \<and>
     ob_syms ob = object_syms (ma_st a) \<and> list_all2 (reads_reloc (ma_st a) (ob_syms ob)) (object_relocs a) (ob_relocs ob)"

lemma object_syms_length: "length (object_syms ys) = 8 + length ys"
  by (simp add: object_syms_def sum_length_filter_compl)

lemma entry_reads:
  assumes "entry_for ys mp r e" "int (length ys) < 0xFFFFF0"
    "\<And>y. y \<in> set ys \<Longrightarrow> is_local y \<Longrightarrow> 0 \<le> sy_section y \<and> sy_section y < 7"
    "\<And>i. i < length ys \<Longrightarrow> \<not> is_local (ys ! i) \<Longrightarrow> mp i < length (object_syms ys) \<and> object_syms ys ! mp i = global_isym (ys ! i)"
  shows "reads_reloc ys (object_syms ys) (sec, r) (rel_of sec e)"
proof -
  let ?y = "ys ! rl_sym_idx r"
  have i: "rl_sym_idx r < length ys" using assms(1) by (simp add: entry_for_def)
  have n: "unat (sym_number ys mp r) < length (object_syms ys) \<and> object_syms ys ! unat (sym_number ys mp r) = reloc_target ys r"
  proof (cases "is_local ?y")
    case True
    then have s: "0 \<le> sy_section ?y" "sy_section ?y < 7" using assms(3) i by auto
    then have "unat (word_of_int (1 + sy_section ?y) :: u32) = Suc (nat (sy_section ?y))"
      by (simp add: unat_eq_nat_uint uint_word_of_int del: of_int_add)
    then show ?thesis using True s by (simp add: sym_number_def reloc_target_def object_syms_def nth_append nth_Cons' Let_def)
  next
    case False
    then have m: "mp (rl_sym_idx r) < length (object_syms ys)" "object_syms ys ! mp (rl_sym_idx r) = global_isym ?y"
      using assms(4) i by auto
    then have "int (mp (rl_sym_idx r)) < 4294967296" using assms(2) by (simp add: object_syms_length)
    then have "unat (of_nat (mp (rl_sym_idx r)) :: u32) = mp (rl_sym_idx r)" by (simp add: unat_of_nat)
    then show ?thesis using False m by (simp add: sym_number_def reloc_target_def Let_def)
  qed
  then have "sym_number ys mp r < 0x1000000" using assms(2) by (simp add: object_syms_length word_less_nat_alt)
  note f = entry_fields [OF assms(1) this]
  show ?thesis using n assms(1) by (simp add: reads_reloc_def rel_of_def f) (simp add: entry_for_def)
qed

lemma shdr_list: "length (elf_shdrs secs ns off sz nl) = 16"
  "filter (\<lambda>i. unat (sh_type (elf_shdrs secs ns off sz nl ! i)) = 2) [0..<16] = [8]"
  by (simp_all add: elf_shdrs_def Let_def sh_sec_def sh_str_def sh_rel_def sh_null_def upt_rec)

lemma addralign_nonzero: "sec_align_req s \<le> INT_MAX \<Longrightarrow> sec_addralign s \<noteq> 0"
proof (cases "sec_align_req s > 4")
  case True
  assume "sec_align_req s \<le> INT_MAX"
  then have "uint (word_of_int (sec_align_req s) :: u32) = sec_align_req s" using True by (simp add: uint_word_of_int INT_MAX_def)
  then show ?thesis using True by (auto simp: sec_addralign_def)
qed (simp add: sec_addralign_def)

lemma header_sections:
  assumes "k < 7" "sz = part_sizes secs rels es tab shtab" "sec_align_req (secs k) \<le> INT_MAX"
  defines "j \<equiv> unat (msec_shndx (int k))"
  shows "object_section k (secs k) (hdr_sec (elf_shdrs secs ns off sz nl ! j) (hdr_names ! j) (hdr_data secs ! j)) \<and> j < 16"
proof -
  have "k \<in> {0, 1, 2, 3, 4, 5, 6}" using assms(1) unfolding insert_iff empty_iff by presburger
  then show ?thesis
    using addralign_nonzero [OF assms(3)] unfolding j_def assms(2)
    by (elim insertE emptyE; simp add: msec_shndx_def object_section_def hdr_sec_def elf_shdrs_def part_sizes_def Let_def sh_sec_def
        hdr_names_def hdr_data_def msec_names_def)
qed

lemma header_relocs: "concat (map (\<lambda>i. hdr_rels rels ! i) [0..<16]) = concat (map (\<lambda>(k, sec). map (rel_of sec) (rels k)) [(0, 1), (2, 2), (1, 3), (4, 5), (5, 6)])"
  by (simp add: hdr_rels_def upt_rec)

lemma relocs_read:
  assumes "\<And>k r e. entry_for ys mp r e \<Longrightarrow> reads_reloc ys syms (k, r) (rel_of k e)"
    "\<And>k. k < 7 \<Longrightarrow> list_all2 (entry_for ys mp) (sec_relocs (ma_sections a k)) (rels k)" "\<And>k sec. (k, sec) \<in> set ps \<Longrightarrow> k < 7"
  shows "list_all2 (reads_reloc ys syms) (concat (map (\<lambda>(k, sec). map (Pair sec) (sec_relocs (ma_sections a k))) ps))
    (concat (map (\<lambda>(k, sec). map (rel_of sec) (rels k)) ps))"
  using assms(3)
proof (induction ps)
  case (Cons p ps)
  obtain k sec where p: "p = (k, sec)" by (cases p)
  have "list_all2 (entry_for ys mp) (sec_relocs (ma_sections a k)) (rels k)" using assms(2) Cons.prems [of k sec] p by simp
  then have "list_all2 (reads_reloc ys syms) (map (Pair sec) (sec_relocs (ma_sections a k))) (map (rel_of sec) (rels k))"
    unfolding list_all2_map1 list_all2_map2 by (rule list_all2_mono) (rule assms(1))
  moreover have "\<And>k sec. (k, sec) \<in> set ps \<Longrightarrow> k < 7" using Cons.prems by (meson list.set_intros(2))
  ultimately show ?case unfolding p list.map concat.simps case_prod_conv by (intro list_all2_appendI Cons.IH)
qed simp

text \<open>What is known of a written file: its parts, their sizes and its headers are where the reader looks for them.\<close>

definition written :: "mips_asm \<Rightarrow> u8 list \<Rightarrow> nat list \<Rightarrow> u8 list \<Rightarrow> u8 list \<Rightarrow> elf_sym list \<Rightarrow> nat \<Rightarrow> (nat \<Rightarrow> nat) \<Rightarrow>
    (nat \<Rightarrow> (u32 \<times> u32) list) \<Rightarrow> (nat \<Rightarrow> asm_section) \<Rightarrow> u32 list \<Rightarrow> u32 list \<Rightarrow> bool" where
  "written a file ns shtab tab es nl mp rels secs sz off \<longleftrightarrow>
     strtab_adds sh_names strtab_init = (ns, shtab) \<and> elf_symbols (ma_st a) = (tab, es, nl, mp) \<and>
     build_rels (ma_st a) mp (ma_sections a) [0..<7] = Some (rels, secs) \<and> sz = part_sizes secs rels es tab shtab \<and>
     file = elf_bytes (part_images secs rels es tab shtab) (elf_shdrs secs ns off sz nl) (off ! 14) \<and>
     unat (off ! 14) = 52 + sum_list (map length (part_images secs rels es tab shtab)) \<and>
     (\<forall>j < 14. stands file (unat (off ! j)) (part_images secs rels es tab shtab ! j) \<and>
        unat (sz ! j) = length (part_images secs rels es tab shtab ! j) \<and> length (part_images secs rels es tab shtab ! j) < 0x100000000)"

lemma written_file:
  assumes "mips_elf_write a = Some file" "asm_ok a" "int (length file) < 0x100000000"
  obtains ns shtab tab es nl mp rels secs sz off where "written a file ns shtab tab es nl mp rels secs sz off"
proof -
  obtain ns shtab tab es nl mp rels secs sz off where
    w: "strtab_adds sh_names strtab_init = (ns, shtab)" "elf_symbols (ma_st a) = (tab, es, nl, mp)"
    "build_rels (ma_st a) mp (ma_sections a) [0..<7] = Some (rels, secs)" "sz = part_sizes secs rels es tab shtab" "off = offsets 52 sz"
    "file = elf_bytes (part_images secs rels es tab shtab) (elf_shdrs secs ns off sz nl) (off ! 14)"
    using write_parts [OF assms(1)] .
  have "0 \<le> sec_len (secs k)" if "k < 7" for k
    using build_rels_result [OF w(3)] assms(2) that by (auto simp: asm_ok_def list_all_iff)
  then have sz: "sz = map of_nat (map length (part_images secs rels es tab shtab))" unfolding w(4) by (rule part_sizes_lengths)
  have len: "length file < 0x100000000" using assms(3) by simp
  note fp = file_parts [OF w(6) w(5) [unfolded sz] part_list len]
  have "unat (sz ! j) = length (part_images secs rels es tab shtab ! j)" if "j < 14" for j
    using fp(3) [OF that] that part_list [of secs rels es tab shtab] by (simp add: sz unat_of_nat)
  then show ?thesis using that w fp unfolding written_def by blast
qed

lemma writtenD:
  assumes "written a file ns shtab tab es nl mp rels secs sz off"
  shows "strtab_adds sh_names strtab_init = (ns, shtab)" "elf_symbols (ma_st a) = (tab, es, nl, mp)"
    "build_rels (ma_st a) mp (ma_sections a) [0..<7] = Some (rels, secs)" "sz = part_sizes secs rels es tab shtab"
    "file = elf_bytes (part_images secs rels es tab shtab) (elf_shdrs secs ns off sz nl) (off ! 14)"
    "unat (off ! 14) = 52 + sum_list (map length (part_images secs rels es tab shtab))"
    "\<And>j. j < 14 \<Longrightarrow> stands file (unat (off ! j)) (part_images secs rels es tab shtab ! j)"
    "\<And>j. j < 14 \<Longrightarrow> unat (sz ! j) = length (part_images secs rels es tab shtab ! j)"
    "\<And>i. i < 16 \<Longrightarrow> stands file (shdr_at (off ! 14) (of_nat i)) (write_shdr (elf_shdrs secs ns off sz nl ! i))"
    "length tab < 0x100000000" "length shtab < 0x100000000"
proof -
  show w: "strtab_adds sh_names strtab_init = (ns, shtab)" "elf_symbols (ma_st a) = (tab, es, nl, mp)"
    "build_rels (ma_st a) mp (ma_sections a) [0..<7] = Some (rels, secs)" "sz = part_sizes secs rels es tab shtab"
    "file = elf_bytes (part_images secs rels es tab shtab) (elf_shdrs secs ns off sz nl) (off ! 14)"
    "unat (off ! 14) = 52 + sum_list (map length (part_images secs rels es tab shtab))"
    "\<And>j. j < 14 \<Longrightarrow> stands file (unat (off ! j)) (part_images secs rels es tab shtab ! j)"
    "\<And>j. j < 14 \<Longrightarrow> unat (sz ! j) = length (part_images secs rels es tab shtab ! j)"
    using assms unfolding written_def by blast+
  show "stands file (shdr_at (off ! 14) (of_nat i)) (write_shdr (elf_shdrs secs ns off sz nl ! i))" if "i < 16" for i
    unfolding w(5) using that w(6) by (intro bytes_shdr) (simp_all add: shdr_list)
  have "length (part_images secs rels es tab shtab ! j) < 0x100000000" if "j < 14" for j using assms that unfolding written_def by blast
  from this [of 7] this [of 13] show "length tab < 0x100000000" "length shtab < 0x100000000" by (simp_all add: part_images_def Let_def)
qed

lemma table_parts:
  "part_images secs rels es tab shtab ! 6 = concat (map write_sym es)" "part_images secs rels es tab shtab ! 7 = tab"
  "part_images secs rels es tab shtab ! 13 = shtab"
  by (simp_all add: part_images_def Let_def)

lemma table_headers:
  "sh_offset (elf_shdrs secs ns off sz nl ! 8) = off ! 6" "sh_size (elf_shdrs secs ns off sz nl ! 8) = sz ! 6"
  "sh_link (elf_shdrs secs ns off sz nl ! 8) = 9" "sh_offset (elf_shdrs secs ns off sz nl ! 9) = off ! 7"
  "sh_offset (elf_shdrs secs ns off sz nl ! 15) = off ! 13"
  by (simp_all add: elf_shdrs_def Let_def sh_str_def sh_sec_def)

lemma written_names:
  assumes "written a file ns shtab tab es nl mp rels secs sz off" "i < 16"
  shows "cstring file (unat (sh_offset (elf_shdrs secs ns off sz nl ! 15)) + unat (sh_name (elf_shdrs secs ns off sz nl ! i))) =
    Some (hdr_names ! i)"
  using hdr_name_strings [OF writtenD(1) [OF assms(1)] assms(2) writtenD(11) [OF assms(1)]] writtenD(7) [OF assms(1), of 13]
    plain_hdr_names [OF assms(2)]
  unfolding table_headers table_parts by (intro has_string_read) (auto intro: stands_trans)

lemma written_syms:
  assumes "written a file ns shtab tab es nl mp rels secs sz off" "asm_ok a"
  shows "read_syms file (off ! 14) 8 = Some (object_syms (ma_st a))"
proof -
  note w = writtenD [OF assms(1)]
  obtain ss where "list_all2 (\<lambda>e s. has_string tab (unat (st_name e)) s \<and> plain_name s) es ss" "map2 sym_of es ss = object_syms (ma_st a)"
    using elf_symbols_read(1) [OF w(2) w(10)] assms(2) by (auto simp: asm_ok_def list_all_iff)
  then show ?thesis
    using read_syms_at [OF w(9) [of 8], of "elf_shdrs secs ns off sz nl ! 9" es tab ss] w(9) [of 9] w(7) [of 6] w(7) [of 7] w(8) [of 6]
    by (simp add: table_headers table_parts length_concat comp_def sum_list_triv)
qed

lemma written_relocs:
  assumes "written a file ns shtab tab es nl mp rels secs sz off" "asm_ok a"
  shows "list_all2 (reads_reloc (ma_st a) (object_syms (ma_st a))) (object_relocs a) (concat (map (\<lambda>i. hdr_rels rels ! i) [0..<16]))"
proof -
  note w = writtenD [OF assms(1)]
  have ok: "y \<in> set (ma_st a) \<Longrightarrow> plain_name (sy_name y)" "y \<in> set (ma_st a) \<Longrightarrow> is_local y \<Longrightarrow> 0 \<le> sy_section y \<and> sy_section y < 7"
    "int (length (ma_st a)) < 0xFFFFF0" for y
    using assms(2) by (auto simp: asm_ok_def list_all_iff)
  have "reads_reloc (ma_st a) (object_syms (ma_st a)) (k, r) (rel_of k e)" if "entry_for (ma_st a) mp r e" for k r e
    by (rule entry_reads [OF that ok(3,2) elf_symbols_read(2) [OF w(2,10) ok(1)]])
  then show ?thesis
    unfolding object_relocs_def header_relocs using build_rels_result [OF w(3)] by (intro relocs_read) auto
qed


text \<open>A file with a jump to another object, an address of a local label, and a word of data.\<close>

definition demo_bytes :: "u8 list" where
  "demo_bytes = elf_put32 0x0C000000 @ elf_put32 0x3C040000 @ elf_put32 0x24840000"

definition demo_asm :: mips_asm where
  "demo_asm = (mips_init [])\<lparr>
     ma_st := [(blank_symbol ''f'')\<lparr> sy_global := True \<rparr>, (blank_symbol ''buf'')\<lparr> sy_defined := True, sy_section := 1, sy_value := 4 \<rparr>],
     ma_sections := (\<lambda>k. if k = 0 then empty_section\<lparr> sec_data := (\<lambda>j. demo_bytes ! j), sec_len := 12, sec_relocs :=
           [\<lparr> rl_offset = 0, rl_sym_idx = 0, rl_addend = 0, rl_type = 4 \<rparr>, \<lparr> rl_offset = 4, rl_sym_idx = 1, rl_addend = 0, rl_type = 5 \<rparr>,
            \<lparr> rl_offset = 8, rl_sym_idx = 1, rl_addend = 0, rl_type = 6 \<rparr>] \<rparr>
         else if k = 1 then empty_section\<lparr> sec_len := 8 \<rparr> else empty_section) \<rparr>"

lemma demo_asm_ok: "asm_ok demo_asm"
  by code_simp

lemma demo_asm_file: "case mips_elf_write demo_asm of None \<Rightarrow> False | Some file \<Rightarrow> int (length file) < 0x100000000"
  by code_simp


end
