(* ===== verification/Ld_Layout.thy ===== *)
theory Ld_Layout
  imports Ld_Link
begin

section \<open>Layout of the image\<close>

text \<open>Correctness of the layout of \<^verbatim>\<open>src/ld/link.c\<close>: what \<open>outsec_append\<close> promises of an output section, the invariant that
  the loops over patterns, objects and output sections keep, the image that \<open>ld_layout\<close> builds and the addresses that its
  symbols get, with two links on which symbol resolution departs from what the code's comment says.\<close>

unbundle bit_operations_syntax

subsection \<open>Appending to an output section\<close>

text \<open>The size never exceeds the capacity, and the capacity fits an \<open>int\<close>.\<close>

definition os_ok :: "ld_output_sec \<Rightarrow> bool" where
  "os_ok os \<longleftrightarrow> int (unat (os_size os)) \<le> os_data_cap os \<and> os_data_cap os \<le> INT_MAX"

text \<open>An input section lies in an output section: its address, its alignment and its bytes.\<close>

definition placed_in :: "ld_output_sec \<Rightarrow> ld_input_sec \<Rightarrow> bool" where
  "placed_in os i \<longleftrightarrow>
     (\<exists>off. is_vaddr i = os_vaddr os + of_nat off \<and> off + unat (is_size i) \<le> unat (os_size os) \<and>
        is_vaddr i AND (is_align i - 1) = 0 \<and>
        (\<forall>j < unat (is_size i). os_data os (off + j) = (if is_type i = SHT_NOBITS then 0 else is_data i ! j)))"

text \<open>What an append leaves alone: the frame, and the bytes already there.\<close>

definition os_extends :: "ld_output_sec \<Rightarrow> ld_output_sec \<Rightarrow> bool" where
  "os_extends os os' \<longleftrightarrow>
     os_vaddr os' = os_vaddr os \<and> os_discard os' = os_discard os \<and> os_patterns os' = os_patterns os \<and>
     os_assigns os' = os_assigns os \<and> os_region os' = os_region os \<and>
     unat (os_size os) \<le> unat (os_size os') \<and> (\<forall>j < unat (os_size os). os_data os' j = os_data os j)"

lemma os_extends_refl [simp]: "os_extends os os"
  by (simp add: os_extends_def)

lemma os_extends_trans: "os_extends a b \<Longrightarrow> os_extends b c \<Longrightarrow> os_extends a c"
  by (auto simp: os_extends_def)

lemma placed_in_extends:
  assumes "placed_in os i" "os_extends os os'"
  shows "placed_in os' i"
proof -
  obtain off where off: "is_vaddr i = os_vaddr os + of_nat off" "off + unat (is_size i) \<le> unat (os_size os)"
    "is_vaddr i AND (is_align i - 1) = 0"
    "\<forall>j < unat (is_size i). os_data os (off + j) = (if is_type i = SHT_NOBITS then 0 else is_data i ! j)"
    using assms(1) by (auto simp: placed_in_def)
  then show ?thesis using assms(2) unfolding placed_in_def by (intro exI [of _ off]) (auto simp: os_extends_def)
qed

lemma sum_fits:
  assumes "int (unat a) \<le> INT_MAX" "b = 0 \<or> int (unat a + unat b) \<le> INT_MAX"
  shows "unat (a + b) = unat a + unat (b :: u32)"
proof -
  have "int (unat a + unat b) \<le> INT_MAX" using assms by auto
  then have "unat a + unat b < 4294967296" unfolding INT_MAX_def by linarith
  then show ?thesis using unat_add_lem [of a b] by simp
qed

lemma blit_outside: "blit bs off cap f = Some g \<Longrightarrow> j < off \<Longrightarrow> g j = f j"
  by (auto simp: blit_def split: if_splits)

lemma blit_inside: "blit bs off cap f = Some g \<Longrightarrow> j < length bs \<Longrightarrow> g (off + j) = bs ! j"
  by (auto simp: blit_def split: if_splits)

lemma blit_room: "blit bs off cap f = Some g \<Longrightarrow> bs = [] \<or> int (off + length bs) \<le> cap"
  by (auto simp: blit_def split: if_splits)

lemma sec_bytes_length: "sec_bytes d n = Some bs \<Longrightarrow> length bs = unat n"
  by (auto simp: sec_bytes_def split: option.splits if_splits)

lemma outsec_append_ok:
  assumes "outsec_append d n al os = Some os'" "os_ok os"
  defines "pad \<equiv> align_up (os_vaddr os + os_size os) al - (os_vaddr os + os_size os)"
  shows "os_ok os'" "os_extends os os'" "unat (os_size os') = unat (os_size os) + unat pad + unat n"
    "\<exists>bs. sec_bytes d n = Some bs \<and> (\<forall>j < unat n. os_data os' (unat (os_size os) + unat pad + j) = bs ! j)"
proof -
  obtain os1 f bs g where e: "outsec_ensure (sint (os_size os + pad + n)) os = Some os1"
    "blit (replicate (unat pad) 0) (unat (os_size os1)) (os_data_cap os1) (os_data os1) = Some f"
    "sec_bytes d n = Some bs" "blit bs (unat (os_size os1 + pad)) (os_data_cap os1) f = Some g"
    "os' = os1\<lparr> os_data := g, os_size := os_size os1 + pad + n \<rparr>"
    using assms(1) by (auto simp: outsec_append_def Let_def pad_def bind_eq_Some_conv)
  have cap: "0 \<le> os_data_cap os" using assms(2) unfolding os_ok_def by (meson of_nat_0_le_iff order_trans)
  have o1: "os_size os1 = os_size os" "os_data os1 = os_data os" "os_data_cap os \<le> os_data_cap os1" "os_data_cap os1 \<le> INT_MAX"
    "os_extends os os1" "os_vaddr os1 = os_vaddr os"
    using e(1) assms(2) cap by (auto simp: outsec_ensure_def os_ok_def os_extends_def split: if_splits)
  have c: "int (unat (os_size os)) \<le> INT_MAX" using assms(2) by (simp add: os_ok_def)
  have p: "pad = 0 \<or> int (unat (os_size os) + unat pad) \<le> os_data_cap os1"
    using blit_room [OF e(2)] o1(1) by (auto simp: unat_eq_0 replicate_empty)
  then have s1: "unat (os_size os + pad) = unat (os_size os) + unat pad" using sum_fits [OF c] o1(4) by auto
  have c1: "int (unat (os_size os + pad)) \<le> os_data_cap os1" using p s1 assms(2) o1(3) by (auto simp: os_ok_def)
  have q: "n = 0 \<or> int (unat (os_size os + pad) + unat n) \<le> os_data_cap os1"
    using blit_room [OF e(4)] o1(1) sec_bytes_length [OF e(3)] by (auto simp: unat_eq_0)
  then have s2: "unat (os_size os + pad + n) = unat (os_size os) + unat pad + unat n"
    using sum_fits [of "os_size os + pad" n] s1 c1 o1(4) by auto
  show "unat (os_size os') = unat (os_size os) + unat pad + unat n" using s2 o1(1) e(5) by simp
  show "os_ok os'" using q s1 s2 c1 o1 e(5) by (auto simp: os_ok_def)
  have "g j = os_data os j" if "j < unat (os_size os)" for j
    using that blit_outside [OF e(4), of j] blit_outside [OF e(2), of j] s1 o1(1,2) by simp
  then show "os_extends os os'" using o1(5,6) s2 e(5) o1(1) by (auto simp: os_extends_def)
  show "\<exists>bs. sec_bytes d n = Some bs \<and> (\<forall>j < unat n. os_data os' (unat (os_size os) + unat pad + j) = bs ! j)"
    using e(3,5) blit_inside [OF e(4)] sec_bytes_length [OF e(3)] s1 o1(1) by auto
qed

subsection \<open>Placing the input sections\<close>

lemma each_invariant:
  assumes "each f xs s = Some (ys, s')" "I s" "\<And>x. x \<in> set xs \<Longrightarrow> R x s"
    and step: "\<And>x s x' s'. f x s = Some (x', s') \<Longrightarrow> I s \<Longrightarrow> R x s \<Longrightarrow> I s' \<and> R x' s' \<and> E s s'"
    and stable: "\<And>y s s'. R y s \<Longrightarrow> E s s' \<Longrightarrow> R y s'" and refl: "\<And>s. E s s" and trans: "\<And>a b c. E a b \<Longrightarrow> E b c \<Longrightarrow> E a c"
  shows "I s' \<and> E s s' \<and> (\<forall>y \<in> set ys. R y s')"
  using assms(1-3)
proof (induction xs arbitrary: s ys)
  case (Cons x xs)
  obtain x' s1 xs' where x: "f x s = Some (x', s1)" and xs: "each f xs s1 = Some (xs', s')" "ys = x' # xs'"
    using Cons.prems(1) by (auto simp: bind_eq_Some_conv)
  have 1: "I s1 \<and> R x' s1 \<and> E s s1" using step [OF x Cons.prems(2)] Cons.prems(3) by simp
  have 2: "I s' \<and> E s1 s' \<and> (\<forall>y \<in> set xs'. R y s')"
    using Cons.IH [OF xs(1)] 1 Cons.prems(3) stable by auto
  show ?case using 1 2 xs(2) stable trans by auto
qed (use refl in auto)

lemma each_list_all2:
  assumes "each f xs s = Some (ys, s')" "\<And>x s x' s'. f x s = Some (x', s') \<Longrightarrow> T x x'"
  shows "list_all2 T xs ys"
  using assms(1)
proof (induction xs arbitrary: s ys)
  case (Cons x xs)
  then show ?case using assms(2) by (auto simp: bind_eq_Some_conv)
qed simp

text \<open>What placement may do to an input section: only its address and its mark change, and only once.\<close>

definition strip :: "ld_input_sec \<Rightarrow> ld_input_sec" where
  "strip i = i\<lparr> is_matched := False, is_vaddr := 0 \<rparr>"

definition loadable :: "ld_input_sec \<Rightarrow> bool" where
  "loadable i \<longleftrightarrow> is_type i = SHT_PROGBITS \<or> is_type i = SHT_NOBITS"

definition marks :: "sec_pattern set \<Rightarrow> ld_input_sec \<Rightarrow> ld_input_sec \<Rightarrow> bool" where
  "marks pats i i' \<longleftrightarrow>
     strip i' = strip i \<and> (is_matched i \<longrightarrow> i' = i) \<and>
     (\<not> is_matched i' \<longrightarrow> \<not> is_matched i \<and> (loadable i \<longrightarrow> (\<forall>pat \<in> pats. \<not> pattern_matches pat (is_name i))))"

lemma strip_fields: "strip i' = strip i \<Longrightarrow> is_name i' = is_name i \<and> is_type i' = is_type i \<and> is_size i' = is_size i \<and>
    is_align i' = is_align i \<and> is_data i' = is_data i"
  by (drule arg_cong [where f = "\<lambda>i. (is_name i, is_type i, is_size i, is_align i, is_data i)"]) (simp add: strip_def)

lemma marksD:
  assumes "marks pats i i'"
  shows "strip i' = strip i" "is_matched i \<Longrightarrow> i' = i" "\<not> is_matched i' \<Longrightarrow> \<not> is_matched i"
    "\<not> is_matched i' \<Longrightarrow> loadable i \<Longrightarrow> pat \<in> pats \<Longrightarrow> \<not> pattern_matches pat (is_name i)"
    "is_name i' = is_name i" "loadable i' = loadable i"
proof -
  show 1: "strip i' = strip i" and "is_matched i \<Longrightarrow> i' = i" "\<not> is_matched i' \<Longrightarrow> \<not> is_matched i"
    and "\<not> is_matched i' \<Longrightarrow> loadable i \<Longrightarrow> pat \<in> pats \<Longrightarrow> \<not> pattern_matches pat (is_name i)"
    using assms unfolding marks_def by blast+
  show "is_name i' = is_name i" "loadable i' = loadable i" using strip_fields [OF 1] by (simp_all add: loadable_def)
qed

lemma marksI:
  assumes "strip i' = strip i" "is_matched i \<Longrightarrow> i' = i" "\<not> is_matched i' \<Longrightarrow> \<not> is_matched i"
    "\<And>pat. \<not> is_matched i' \<Longrightarrow> loadable i \<Longrightarrow> pat \<in> pats \<Longrightarrow> \<not> pattern_matches pat (is_name i)"
  shows "marks pats i i'"
  using assms unfolding marks_def by blast

lemma marks_trans:
  assumes m: "marks p i j" "marks q j k"
  shows "marks (p \<union> q) i k"
proof (rule marksI)
  show "strip k = strip i" using marksD(1) [OF m(1)] marksD(1) [OF m(2)] by (rule trans [rotated])
  show "is_matched i \<Longrightarrow> k = i" using marksD(2) [OF m(1)] marksD(2) [OF m(2)] by blast
  show "\<not> is_matched k \<Longrightarrow> \<not> is_matched i" using marksD(3) [OF m(1)] marksD(3) [OF m(2)] by blast
  fix pat
  assume "\<not> is_matched k" "loadable i" "pat \<in> p \<union> q"
  then show "\<not> pattern_matches pat (is_name i)"
    using marksD(3,4) [OF m(2)] marksD(4,5,6) [OF m(1)] by (metis UnE)
qed

lemma marks_empty [simp]: "marks {} i i"
  by (simp add: marks_def)

lemma place_sec_marks: "place_sec pat i os = Some (i', os') \<Longrightarrow> marks {pat} i i'"
  by (auto simp: place_sec_def Let_def bind_eq_Some_conv marks_def strip_def loadable_def split: if_splits)

text \<open>A marked section is one marked before, or lies in the output section.\<close>

definition settled :: "(ld_input_sec \<Rightarrow> bool) \<Rightarrow> ld_output_sec \<Rightarrow> ld_input_sec \<Rightarrow> bool" where
  "settled old os i \<longleftrightarrow> (is_matched i \<longrightarrow> old i \<or> placed_in os i)"

lemma place_sec_placed:
  assumes "place_sec pat i os = Some (i', os')" "os_ok os" "settled old os i"
  shows "os_ok os' \<and> settled old os' i' \<and> os_extends os os'"
proof (cases "is_matched i \<or> (is_type i \<noteq> SHT_PROGBITS \<and> is_type i \<noteq> SHT_NOBITS) \<or> \<not> pattern_matches pat (is_name i)")
  case True
  then show ?thesis using assms by (auto simp: place_sec_def)
next
  case False
  define pad where "pad = align_up (os_vaddr os + os_size os) (is_align i) - (os_vaddr os + os_size os)"
  define os0 where "os0 = (if is_type i = SHT_NOBITS then os\<lparr> os_nobits := True \<rparr> else os)"
  define d where "d = (if is_type i = SHT_NOBITS then None else Some (is_data i))"
  have a: "outsec_append d (is_size i) (is_align i) os0 = Some os'"
    and i': "i' = i\<lparr> is_matched := True, is_vaddr := os_vaddr os + os_size os + pad \<rparr>"
    using assms(1) False by (auto simp: place_sec_def Let_def bind_eq_Some_conv os0_def d_def pad_def split: if_splits)
  have o: "os_ok os0" "os_vaddr os0 = os_vaddr os" "os_size os0 = os_size os" "os_extends os os0"
    using assms(2) by (simp_all add: os0_def os_ok_def os_extends_def)
  note ap = outsec_append_ok [OF a o(1), unfolded o(2,3), folded pad_def]
  obtain bs where bs: "sec_bytes d (is_size i) = Some bs"
    "\<forall>j < unat (is_size i). os_data os' (unat (os_size os) + unat pad + j) = bs ! j" using ap(4) by blast
  have b: "bs ! j = (if is_type i = SHT_NOBITS then 0 else is_data i ! j)" if "j < unat (is_size i)" for j
    using that bs(1) by (auto simp: sec_bytes_def d_def split: if_splits)
  have v: "os_vaddr os + os_size os + pad = align_up (os_vaddr os + os_size os) (is_align i)" by (simp add: pad_def)
  have "placed_in os' i'"
    unfolding placed_in_def
  proof (intro exI [of _ "unat (os_size os) + unat pad"] conjI allI impI)
    show "is_vaddr i' = os_vaddr os' + of_nat (unat (os_size os) + unat pad)" using i' ap(2) o(2) by (simp add: os_extends_def)
    show "unat (os_size os) + unat pad + unat (is_size i') \<le> unat (os_size os')" using i' ap(3) by simp
    have "align_up x a AND (a - 1) = 0" for x a by (simp add: align_up_def and.assoc)
    then show "is_vaddr i' AND (is_align i' - 1) = 0" unfolding i' by (simp add: v)
    fix j
    assume "j < unat (is_size i')"
    then show "os_data os' (unat (os_size os) + unat pad + j) = (if is_type i' = SHT_NOBITS then 0 else is_data i' ! j)"
      using bs(2) b i' by simp
  qed
  then show ?thesis using ap(1,2) os_extends_trans [OF o(4)] by (simp add: settled_def)
qed

lemma settled_extends: "settled old os i \<Longrightarrow> os_extends os os' \<Longrightarrow> settled old os' i"
  by (auto simp: settled_def intro: placed_in_extends)

definition obj_settled :: "(ld_input_sec \<Rightarrow> bool) \<Rightarrow> ld_object \<Rightarrow> ld_output_sec \<Rightarrow> bool" where
  "obj_settled old ob os \<longleftrightarrow> (\<forall>i \<in> set (ob_sections ob). settled old os i)"

lemma place_obj_placed:
  assumes "place_obj pat ob os = Some (ob', os')" "os_ok os" "obj_settled old ob os"
  shows "os_ok os' \<and> obj_settled old ob' os' \<and> os_extends os os'"
proof -
  obtain secs where e: "each (place_sec pat) (ob_sections ob) os = Some (secs, os')" "ob' = ob\<lparr> ob_sections := secs \<rparr>"
    using assms(1) by (auto simp: place_obj_def bind_eq_Some_conv)
  have "os_ok os' \<and> os_extends os os' \<and> (\<forall>i \<in> set secs. settled old os' i)"
  proof (rule each_invariant [where I = os_ok and R = "\<lambda>i os. settled old os i" and E = os_extends, OF e(1) assms(2)])
    show "\<And>i. i \<in> set (ob_sections ob) \<Longrightarrow> settled old os i" using assms(3) by (simp add: obj_settled_def)
  qed (rule place_sec_placed settled_extends os_extends_refl os_extends_trans; assumption)+
  then show ?thesis using e(2) by (simp add: obj_settled_def)
qed

definition obj_marks :: "sec_pattern set \<Rightarrow> ld_object \<Rightarrow> ld_object \<Rightarrow> bool" where
  "obj_marks pats ob ob' \<longleftrightarrow>
     list_all2 (marks pats) (ob_sections ob) (ob_sections ob') \<and> ob_syms ob' = ob_syms ob \<and> ob_relocs ob' = ob_relocs ob \<and>
     ob_sym_map ob' = ob_sym_map ob"

lemma place_obj_marks: "place_obj pat ob os = Some (ob', os') \<Longrightarrow> obj_marks {pat} ob ob'"
  by (auto simp: place_obj_def bind_eq_Some_conv obj_marks_def intro!: each_list_all2 place_sec_marks)

lemma obj_marks_trans: "obj_marks p a b \<Longrightarrow> obj_marks q b c \<Longrightarrow> obj_marks (p \<union> q) a c"
  by (auto simp: obj_marks_def intro: list_all2_trans [OF marks_trans])

lemma obj_marks_empty: "obj_marks {} a a"
  by (simp add: obj_marks_def list_all2_refl)

lemma objs_marks_trans:
  "list_all2 (obj_marks p) a b \<Longrightarrow> list_all2 (obj_marks q) b c \<Longrightarrow> list_all2 (obj_marks (p \<union> q)) a c"
  by (rule list_all2_trans [of "obj_marks p" "obj_marks q"]) (rule obj_marks_trans)

lemma objs_marks_empty: "list_all2 (obj_marks {}) a a"
  by (rule list_all2_refl) (rule obj_marks_empty)

lemma place_patterns_placed:
  assumes "place_patterns k pats obs gs os = Some (obs', gs', os')" "os_ok os" "\<forall>ob \<in> set obs. obj_settled old ob os"
  shows "os_ok os' \<and> os_extends os os' \<and> (\<forall>ob \<in> set obs'. obj_settled old ob os')"
  using assms
proof (induction pats arbitrary: k obs gs os)
  case (Cons pat pats)
  obtain obs1 os1 where e: "each (place_obj pat) obs os = Some (obs1, os1)"
    and r: "place_patterns (Suc k) pats obs1 (process_assigns os1 (Suc k) (os_vaddr os1 + os_size os1) gs) os1 = Some (obs', gs', os')"
    using Cons.prems(1) by (auto simp: bind_eq_Some_conv)
  have "os_ok os1 \<and> os_extends os os1 \<and> (\<forall>ob \<in> set obs1. obj_settled old ob os1)"
  proof (rule each_invariant [where I = os_ok and R = "obj_settled old" and E = os_extends, OF e Cons.prems(2)])
    show "obj_settled old ob os" if "ob \<in> set obs" for ob using Cons.prems(3) that by blast
    show "obj_settled old ob os2" if "obj_settled old ob os1" "os_extends os1 os2" for ob os1 os2
      using that settled_extends by (auto simp: obj_settled_def)
  qed (rule place_obj_placed os_extends_refl os_extends_trans; assumption)+
  then show ?case using Cons.IH [OF r] os_extends_trans by blast
qed simp

lemma place_patterns_marks:
  "place_patterns k pats obs gs os = Some (obs', gs', os') \<Longrightarrow> list_all2 (obj_marks (set pats)) obs obs'"
proof (induction pats arbitrary: k obs gs os)
  case Nil
  then show ?case by (simp add: objs_marks_empty)
next
  case (Cons pat pats)
  obtain obs1 os1 where e: "each (place_obj pat) obs os = Some (obs1, os1)"
    and r: "place_patterns (Suc k) pats obs1 (process_assigns os1 (Suc k) (os_vaddr os1 + os_size os1) gs) os1 = Some (obs', gs', os')"
    using Cons.prems(1) by (auto simp: bind_eq_Some_conv)
  have "list_all2 (obj_marks {pat}) obs obs1" by (rule each_list_all2 [OF e place_obj_marks])
  from objs_marks_trans [OF this Cons.IH [OF r]] show ?case by simp
qed

lemma discard_marks: "marks {pat} i (discard_sec pat i)"
  by (rule marksI) (auto simp: discard_sec_def strip_def loadable_def split: if_splits)

lemma discard_objs_marks: "list_all2 (obj_marks {pat}) obs (discard_objs obs pat)"
  by (auto simp: discard_objs_def obj_marks_def list_all2_conv_all_nth discard_marks)

lemma foldl_discard_marks: "list_all2 (obj_marks (set pats)) obs (foldl discard_objs obs pats)"
proof (induction pats arbitrary: obs)
  case Nil
  then show ?case by (simp add: objs_marks_empty)
next
  case (Cons pat pats)
  from objs_marks_trans [OF discard_objs_marks Cons] show ?case by simp
qed

lemma discard_only:
  assumes "ob \<in> set (foldl discard_objs obs pats)" "i \<in> set (ob_sections ob)" "is_matched i"
  shows "(\<exists>ob0 \<in> set obs. i \<in> set (ob_sections ob0)) \<or> (\<exists>pat \<in> set pats. pattern_matches pat (is_name i))"
  using assms
proof (induction pats arbitrary: obs)
  case (Cons pat pats)
  from Cons.IH [of "discard_objs obs pat"] Cons.prems
  consider (a) ob1 where "ob1 \<in> set (discard_objs obs pat)" "i \<in> set (ob_sections ob1)"
    | (b) "\<exists>pat \<in> set pats. pattern_matches pat (is_name i)" by auto
  then show ?case
  proof cases
    case a
    then obtain ob0 i0 where "ob0 \<in> set obs" "i0 \<in> set (ob_sections ob0)" "i = discard_sec pat i0" by (auto simp: discard_objs_def)
    then show ?thesis using Cons.prems(3) by (auto simp: discard_sec_def split: if_splits)
  qed auto
qed auto

subsection \<open>The loop over the output sections\<close>

abbreviation out_secs :: "linker \<Rightarrow> ld_output_sec list" where
  "out_secs ln \<equiv> sc_sections (ln_script ln)"

abbreviation same_rules :: "ld_output_sec \<Rightarrow> ld_output_sec \<Rightarrow> bool" where
  "same_rules a b \<equiv> os_discard b = os_discard a \<and> os_patterns b = os_patterns a"

text \<open>An input section goes away when a pattern of a discarded output section names it, and it is in the image when one
  of the output sections laid out so far holds it.\<close>

definition thrown :: "ld_output_sec list \<Rightarrow> ld_input_sec \<Rightarrow> bool" where
  "thrown oss i \<longleftrightarrow> (\<exists>os \<in> set oss. os_discard os \<and> (\<exists>pat \<in> set (os_patterns os). pattern_matches pat (is_name i)))"

definition in_image :: "nat set \<Rightarrow> ld_output_sec list \<Rightarrow> ld_input_sec \<Rightarrow> bool" where
  "in_image D oss i \<longleftrightarrow> (\<exists>k \<in> D. k < length oss \<and> \<not> os_discard (oss ! k) \<and> placed_in (oss ! k) i)"

definition laid_out :: "nat set \<Rightarrow> linker \<Rightarrow> bool" where
  "laid_out D ln \<longleftrightarrow>
     (\<forall>os \<in> set (out_secs ln). os_ok os) \<and>
     (\<forall>ob \<in> set (ln_objs ln). \<forall>i \<in> set (ob_sections ob).
        is_matched i \<longrightarrow> thrown (out_secs ln) i \<or> in_image D (out_secs ln) i)"

definition patterns_of :: "nat set \<Rightarrow> ld_output_sec list \<Rightarrow> sec_pattern set" where
  "patterns_of D oss = (\<Union>k \<in> D \<inter> {..<length oss}. set (os_patterns (oss ! k)))"

lemma thrown_same:
  assumes "list_all2 same_rules oss oss'" "thrown oss i"
  shows "thrown oss' i"
proof -
  from assms(2) obtain k where k: "k < length oss" "os_discard (oss ! k)" "\<exists>pat \<in> set (os_patterns (oss ! k)). pattern_matches pat (is_name i)"
    unfolding thrown_def by (metis in_set_conv_nth)
  with list_all2_nthD [OF assms(1) k(1)] list_all2_lengthD [OF assms(1)] show ?thesis
    unfolding thrown_def by (metis nth_mem)
qed

lemma same_rules_update: "k < length oss \<Longrightarrow> same_rules (oss ! k) os \<Longrightarrow> list_all2 same_rules oss (oss[k := os])"
  by (auto simp: list_all2_conv_all_nth nth_list_update)

lemma layout_placed_inv:
  assumes "layout_placed ri si ln = Some ln'" "laid_out D ln" "si < length (out_secs ln)" "si \<notin> D" "\<not> os_discard (out_secs ln ! si)"
  shows "laid_out (insert si D) ln' \<and> list_all2 same_rules (out_secs ln) (out_secs ln') \<and>
    list_all2 (obj_marks (set (os_patterns (out_secs ln ! si)))) (ln_objs ln) (ln_objs ln')"
proof -
  define os where "os = (case ri of Some r \<Rightarrow> (out_secs ln ! si)\<lparr> os_vaddr := mr_cursor (sc_regions (ln_script ln) ! r) \<rparr> | None \<Rightarrow> out_secs ln ! si)"
  define oss where "oss = out_secs ln"
  obtain obs gs gs' os' where p: "place_patterns 0 (os_patterns os) (ln_objs ln) gs os = Some (obs, gs', os')"
    and r: "ln_objs ln' = obs" "out_secs ln' = oss[si := os']"
    using assms(1) by (auto simp: layout_placed_def Let_def bind_eq_Some_conv os_def oss_def)
  have o: "os_ok os" "same_rules (oss ! si) os" "si < length oss"
    using assms(2,3) by (auto simp: laid_out_def os_def oss_def os_ok_def split: option.splits)
  define old where "old i \<longleftrightarrow> thrown oss i \<or> in_image D oss i" for i
  have "os_ok os' \<and> os_extends os os' \<and> (\<forall>ob \<in> set obs. obj_settled old ob os')"
    using assms(2) by (intro place_patterns_placed [OF p o(1)]) (auto simp: laid_out_def obj_settled_def settled_def old_def oss_def)
  then have s: "os_ok os'" "same_rules (oss ! si) os'" "\<And>ob i. ob \<in> set obs \<Longrightarrow> i \<in> set (ob_sections ob) \<Longrightarrow> settled old os' i"
    using o(2) by (auto simp: os_extends_def obj_settled_def)
  have rules: "list_all2 same_rules oss (oss[si := os'])" using same_rules_update [OF o(3) s(2)] .
  have "thrown (oss[si := os']) i \<or> in_image (insert si D) (oss[si := os']) i"
    if "ob \<in> set obs" "i \<in> set (ob_sections ob)" "is_matched i" for ob i
  proof -
    from s(3) [OF that(1,2)] that(3) consider "thrown oss i" | "in_image D oss i" | "placed_in os' i" by (auto simp: settled_def old_def)
    then show ?thesis
    proof cases
      case 1
      then show ?thesis using thrown_same [OF rules] by blast
    next
      case 2
      then show ?thesis using assms(4) unfolding in_image_def by (metis insertCI length_list_update nth_list_update_neq)
    next
      case 3
      then show ?thesis using o(3) s(2) assms(5) by (auto simp: in_image_def oss_def intro!: bexI [of _ si])
    qed
  qed
  moreover have "\<forall>os \<in> set (oss[si := os']). os_ok os"
    using assms(2) s(1) set_update_subset_insert [of oss si os'] by (auto simp: laid_out_def oss_def)
  ultimately have "laid_out (insert si D) ln'" by (simp add: laid_out_def r)
  moreover have "list_all2 (obj_marks (set (os_patterns (oss ! si)))) (ln_objs ln) obs"
    using place_patterns_marks [OF p] o(2) by simp
  ultimately show ?thesis using rules r oss_def by simp
qed

lemma layout_discard_inv:
  assumes "laid_out D ln" "si < length (out_secs ln)" "os_discard (out_secs ln ! si)"
  shows "laid_out D (ln\<lparr> ln_objs := foldl discard_objs (ln_objs ln) (os_patterns (out_secs ln ! si)) \<rparr>)"
proof -
  have "thrown (out_secs ln) i \<or> in_image D (out_secs ln) i"
    if "ob \<in> set (foldl discard_objs (ln_objs ln) (os_patterns (out_secs ln ! si)))" "i \<in> set (ob_sections ob)" "is_matched i" for ob i
    using discard_only [OF that]
  proof
    assume "\<exists>ob0 \<in> set (ln_objs ln). i \<in> set (ob_sections ob0)"
    then show ?thesis using assms(1) that(3) by (auto simp: laid_out_def)
  next
    assume "\<exists>pat \<in> set (os_patterns (out_secs ln ! si)). pattern_matches pat (is_name i)"
    then show ?thesis using assms(2,3) unfolding thrown_def by (metis nth_mem)
  qed
  then show ?thesis using assms(1) by (simp add: laid_out_def)
qed

lemma laid_out_insert: "laid_out D ln \<Longrightarrow> laid_out (insert k D) ln"
  by (fastforce simp: laid_out_def in_image_def)

lemma same_rules_refl: "list_all2 same_rules oss oss"
  by (rule list_all2_refl) simp

lemma same_rules_trans: "list_all2 same_rules a b \<Longrightarrow> list_all2 same_rules b c \<Longrightarrow> list_all2 same_rules a c"
  by (rule list_all2_trans [of same_rules same_rules]) auto

lemma layout_section_inv:
  assumes "layout_section si ln = Some ln'" "laid_out D ln" "si < length (out_secs ln)" "si \<notin> D"
  shows "laid_out (insert si D) ln' \<and> list_all2 same_rules (out_secs ln) (out_secs ln') \<and>
    list_all2 (obj_marks (set (os_patterns (out_secs ln ! si)))) (ln_objs ln) (ln_objs ln')"
proof (cases "os_discard (out_secs ln ! si)")
  case True
  then have ln': "ln' = ln\<lparr> ln_objs := foldl discard_objs (ln_objs ln) (os_patterns (out_secs ln ! si)) \<rparr>"
    using assms(1) by (simp add: layout_section_def Let_def)
  show ?thesis
    using laid_out_insert [OF layout_discard_inv [OF assms(2,3) True]] by (simp add: ln' same_rules_refl foldl_discard_marks)
next
  case False
  then obtain ri where "layout_placed ri si ln = Some ln'"
    using assms(1) by (auto simp: layout_section_def Let_def bind_eq_Some_conv split: option.splits)
  from layout_placed_inv [OF this assms(2-4) False] show ?thesis .
qed

lemma patterns_of_same:
  assumes "list_all2 same_rules oss oss'"
  shows "patterns_of D oss' = patterns_of D oss"
  using list_all2_nthD [OF assms] list_all2_lengthD [OF assms] unfolding patterns_of_def by auto

lemma patterns_of_insert: "k < length oss \<Longrightarrow> set (os_patterns (oss ! k)) \<union> patterns_of D oss = patterns_of (insert k D) oss"
  by (auto simp: patterns_of_def)

lemma layout_sections_inv:
  assumes "layout_sections sis ln = Some ln'" "laid_out D ln" "\<forall>si \<in> set sis. si < length (out_secs ln)" "distinct sis" "set sis \<inter> D = {}"
  shows "laid_out (D \<union> set sis) ln' \<and> list_all2 same_rules (out_secs ln) (out_secs ln') \<and>
    list_all2 (obj_marks (patterns_of (set sis) (out_secs ln))) (ln_objs ln) (ln_objs ln')"
  using assms
proof (induction sis arbitrary: ln D)
  case Nil
  then show ?case by (simp add: same_rules_refl objs_marks_empty patterns_of_def)
next
  case (Cons si sis)
  obtain ln1 where s: "layout_section si ln = Some ln1" and r: "layout_sections sis ln1 = Some ln'"
    using Cons.prems(1) by (auto simp: bind_eq_Some_conv)
  have 1: "laid_out (insert si D) ln1" "list_all2 same_rules (out_secs ln) (out_secs ln1)"
    "list_all2 (obj_marks (set (os_patterns (out_secs ln ! si)))) (ln_objs ln) (ln_objs ln1)"
    using layout_section_inv [OF s Cons.prems(2)] Cons.prems(3,5) by auto
  have 2: "laid_out (insert si D \<union> set sis) ln'" "list_all2 same_rules (out_secs ln1) (out_secs ln')"
    "list_all2 (obj_marks (patterns_of (set sis) (out_secs ln1))) (ln_objs ln1) (ln_objs ln')"
    using Cons.IH [OF r 1(1)] Cons.prems(3-5) list_all2_lengthD [OF 1(2)] by auto
  have "list_all2 (obj_marks (patterns_of (set (si # sis)) (out_secs ln))) (ln_objs ln) (ln_objs ln')"
    using objs_marks_trans [OF 1(3) 2(3)] Cons.prems(3) by (simp add: patterns_of_same [OF 1(2)] patterns_of_insert)
  then show ?case using 2(1) same_rules_trans [OF 1(2) 2(2)] by simp
qed

lemma collect_objs_sections:
  "collect_objs oi obs gs = Some (obs', gs') \<Longrightarrow> map ob_sections obs' = map ob_sections obs"
  by (induction obs arbitrary: oi gs obs') (auto simp: bind_eq_Some_conv)

lemma collect_symbols_frame:
  "collect_symbols ln = Some ln' \<Longrightarrow> map ob_sections (ln_objs ln') = map ob_sections (ln_objs ln) \<and> ln_script ln' = ln_script ln"
  by (auto simp: collect_symbols_def bind_eq_Some_conv dest: collect_objs_sections)

lemma find_entry_frame: "find_entry ln = Some ln' \<Longrightarrow> ln_objs ln' = ln_objs ln \<and> ln_script ln' = ln_script ln"
  by (auto simp: find_entry_def bind_eq_Some_conv split: option.splits if_splits)

text \<open>A linker as the driver hands it to the layout: nothing placed yet.\<close>

definition fresh_link :: "linker \<Rightarrow> bool" where
  "fresh_link ln \<longleftrightarrow>
     list_all (\<lambda>ob. list_all (\<lambda>i. \<not> is_matched i) (ob_sections ob)) (ln_objs ln) \<and>
     list_all (\<lambda>os. os_size os = 0 \<and> os_data_cap os = 0) (out_secs ln)"

lemma fresh_laid_out: "fresh_link ln \<Longrightarrow> laid_out {} ln"
  by (auto simp: fresh_link_def laid_out_def list_all_iff os_ok_def INT_MAX_def)

lemma marks_strip: "list_all2 (marks pats) is is' \<Longrightarrow> map strip is' = map strip is"
  by (induction "is" is' rule: list_all2_induct) (simp_all add: marksD(1))

lemma obj_marks_strip: "list_all2 (obj_marks pats) obs obs' \<Longrightarrow> map (map strip \<circ> ob_sections) obs' = map (map strip \<circ> ob_sections) obs"
  by (induction obs obs' rule: list_all2_induct) (auto simp: obj_marks_def intro: marks_strip)

lemma unmarked_unnamed:
  assumes "list_all2 (obj_marks pats) obs obs'" "ob \<in> set obs'" "i \<in> set (ob_sections ob)" "\<not> is_matched i" "loadable i" "pat \<in> pats"
  shows "\<not> pattern_matches pat (is_name i)"
proof -
  obtain ob0 where "obj_marks pats ob0 ob" using assms(1,2) by (auto simp: list_all2_conv_all_nth in_set_conv_nth)
  then obtain i0 where "marks pats i0 i" using assms(3) by (auto simp: obj_marks_def list_all2_conv_all_nth in_set_conv_nth)
  then show ?thesis using marksD(4-6) assms(4-6) by metis
qed

text \<open>C2: the image of the linker. When \<open>ld_layout\<close> succeeds on fresh output sections, every input section keeps its name,
  type, flags, size, alignment and bytes; every section marked as matched is either named by a pattern of \<open>/DISCARD/\<close> or lies
  in an output section that is kept, at an address of its alignment and with its bytes (zeros for \<open>.bss\<close>) in the image at
  that address; and a loadable section left unmarked is named by no pattern of the script.\<close>

theorem ld_image_holds_sections:
  assumes "ld_layout ln = Some ln'" "fresh_link ln"
  shows "map (map strip \<circ> ob_sections) (ln_objs ln') = map (map strip \<circ> ob_sections) (ln_objs ln) \<and>
    (\<forall>ob \<in> set (ln_objs ln'). \<forall>i \<in> set (ob_sections ob).
       (is_matched i \<longrightarrow> thrown (out_secs ln') i \<or> (\<exists>os \<in> set (out_secs ln'). \<not> os_discard os \<and> placed_in os i)) \<and>
       (loadable i \<and> \<not> is_matched i \<longrightarrow> (\<forall>os \<in> set (out_secs ln). \<forall>pat \<in> set (os_patterns os). \<not> pattern_matches pat (is_name i))))"
proof -
  obtain ln1 ln2 gs where c: "collect_symbols ln = Some ln1"
    and l: "layout_sections [0..<length (out_secs ln1)] (start_regions ln1) = Some ln2"
    and f: "find_entry (ln2\<lparr> ln_syms := gs \<rparr>) = Some ln'"
    using assms(1) by (auto simp: ld_layout_def bind_eq_Some_conv)
  note c' = collect_symbols_frame [OF c]
  have f': "ln_objs ln' = ln_objs ln2" "out_secs ln' = out_secs ln2" using find_entry_frame [OF f] by simp_all
  have s: "out_secs (start_regions ln1) = out_secs ln" "ln_objs (start_regions ln1) = ln_objs ln1"
    using c' by (simp_all add: start_regions_def Let_def)
  have secs: "map (map strip \<circ> ob_sections) (ln_objs ln1) = map (map strip \<circ> ob_sections) (ln_objs ln)"
    using c' by (metis map_map)
  have "list_all (list_all (\<lambda>i. \<not> is_matched i)) (map ob_sections (ln_objs ln1))"
    using assms(2) c' by (simp add: fresh_link_def list.pred_map comp_def)
  then have "fresh_link (start_regions ln1)" using assms(2) s by (simp add: fresh_link_def list.pred_map comp_def)
  from layout_sections_inv [OF l fresh_laid_out [OF this]]
  have i: "laid_out {0..<length (out_secs ln)} ln2" "list_all2 (obj_marks (patterns_of {0..<length (out_secs ln)} (out_secs ln))) (ln_objs ln1) (ln_objs ln2)"
    using s c' by auto
  have p: "patterns_of {0..<length (out_secs ln)} (out_secs ln) = (\<Union>os \<in> set (out_secs ln). set (os_patterns os))"
    by (fastforce simp: patterns_of_def in_set_conv_nth)
  show ?thesis
  proof (intro conjI ballI impI)
    show "map (map strip \<circ> ob_sections) (ln_objs ln') = map (map strip \<circ> ob_sections) (ln_objs ln)"
      using obj_marks_strip [OF i(2)] secs f' by simp
    fix ob j
    assume j: "ob \<in> set (ln_objs ln')" "j \<in> set (ob_sections ob)"
    show "thrown (out_secs ln') j \<or> (\<exists>os \<in> set (out_secs ln'). \<not> os_discard os \<and> placed_in os j)" if "is_matched j"
      using i(1) j that f' unfolding laid_out_def in_image_def by (metis nth_mem)
    fix os pat
    assume "loadable j \<and> \<not> is_matched j" "os \<in> set (out_secs ln)" "pat \<in> set (os_patterns os)"
    then show "\<not> pattern_matches pat (is_name j)" using unmarked_unnamed [OF i(2)] j f' p by auto
  qed
qed

text \<open>Two objects of a small link: code, zeroed data and a comment section that the script throws away.\<close>

definition demo_sec :: "string \<Rightarrow> nat \<Rightarrow> u8 list \<Rightarrow> u32 \<Rightarrow> u32 \<Rightarrow> ld_input_sec" where
  "demo_sec name ty bs n al =
     \<lparr> is_name = name, is_type = ty, is_flags = 2, is_data = bs, is_size = n, is_align = al, is_vaddr = 0, is_matched = False \<rparr>"

definition demo_sym :: "string \<Rightarrow> u32 \<Rightarrow> nat \<Rightarrow> nat \<Rightarrow> ld_input_sym" where
  "demo_sym name v sec bnd = \<lparr> iy_name = name, iy_value = v, iy_size = 0, iy_shndx = sec, iy_binding = bnd, iy_type = STT_NOTYPE \<rparr>"

definition demo_obj :: "u8 \<Rightarrow> ld_input_sym list \<Rightarrow> ld_object" where
  "demo_obj b ys =
     \<lparr> ob_path = ''demo.o'',
       ob_sections = [demo_sec [] 0 [] 0 0, demo_sec ''.text'' SHT_PROGBITS [b, b, b, b, b, b] 6 4,
                      demo_sec ''.bss.x'' SHT_NOBITS [] 3 8, demo_sec ''.comment'' SHT_PROGBITS [1, 2] 2 1],
       ob_syms = ys, ob_relocs = [], ob_sym_map = [] \<rparr>"

definition demo_out :: "string \<Rightarrow> bool \<Rightarrow> sec_pattern \<Rightarrow> ld_output_sec" where
  "demo_out name dis pat =
     \<lparr> os_name = name, os_discard = dis, os_nobits = False, os_vaddr = 0, os_size = 0, os_data = (\<lambda>_. 0), os_data_cap = 0,
       os_region = (if dis then None else Some ''ram''), os_patterns = [pat], os_assigns = [] \<rparr>"

definition demo_link :: "ld_object list \<Rightarrow> string option \<Rightarrow> linker" where
  "demo_link obs entry =
     \<lparr> ln_objs = obs, ln_syms = [],
       ln_script = \<lparr> sc_entry = entry,
                     sc_regions = [\<lparr> mr_name = ''ram'', mr_origin = 0x80000, mr_length = 0x1000, mr_cursor = 0 \<rparr>], sc_nphdrs = 1,
                     sc_sections = [demo_out ''.text'' False \<lparr> sp_name = ''.text'', sp_wildcard = False \<rparr>,
                                    demo_out ''.bss'' False \<lparr> sp_name = ''.bss'', sp_wildcard = True \<rparr>,
                                    demo_out ''/DISCARD/'' True \<lparr> sp_name = ''.comment'', sp_wildcard = False \<rparr>] \<rparr>,
       ln_entry_vaddr = 0, ln_debug = [], ln_ehdr_size = 0, ln_phent_size = 0 \<rparr>"

definition demo_two :: linker where
  "demo_two = demo_link [demo_obj 7 [demo_sym ''main'' 2 1 STB_GLOBAL], demo_obj 9 [demo_sym ''put'' 4 1 STB_GLOBAL]] (Some ''put'')"

lemma resolve_sym_code [code]:
  "resolve_sym ob y g =
     (if gs_obj_idx g < 0 then Some g
      else if iy_binding y = STB_LOCAL \<and> iy_type y = STT_SECTION then
        (if iy_shndx y < length (ob_sections ob) then Some (g\<lparr> gs_value := is_vaddr (ob_sections ob ! iy_shndx y) \<rparr>) else None)
      else if iy_shndx y \<noteq> SHN_UNDEF \<and> int (iy_shndx y) \<noteq> 0xFFF1 then
        (if iy_shndx y < length (ob_sections ob)
         then Some (g\<lparr> gs_value := is_vaddr (ob_sections ob ! iy_shndx y) + iy_value y \<rparr>) else None)
      else Some g)"
  by (simp add: resolve_sym_def)

lemma demo_two_layout:
  "map_option (\<lambda>ln. (map (map (\<lambda>i. (is_matched i, is_vaddr i)) \<circ> ob_sections) (ln_objs ln), ln_entry_vaddr ln)) (ld_layout demo_two) =
   Some ([[(False, 0), (True, 0x80054), (True, 0x80068), (True, 0)], [(False, 0), (True, 0x8005C), (True, 0x80070), (True, 0)]], 0x80060)"
  by code_simp

theorem ld_image_holds_sections_witness:
  "\<exists>ln'. ld_layout demo_two = Some ln' \<and> fresh_link demo_two \<and>
     (\<forall>ob \<in> set (ln_objs ln'). \<forall>i \<in> set (ob_sections ob).
        is_matched i \<longrightarrow> thrown (out_secs ln') i \<or> (\<exists>os \<in> set (out_secs ln'). \<not> os_discard os \<and> placed_in os i))"
proof -
  obtain ln' where l: "ld_layout demo_two = Some ln'" using demo_two_layout by auto
  have f: "fresh_link demo_two" by code_simp
  show ?thesis using ld_image_holds_sections [OF l f] l f by blast
qed

subsection \<open>The addresses of symbols\<close>

text \<open>The symbol entries in link order, those that give their table entry an address, and that address.\<close>

definition sym_entries :: "ld_object list \<Rightarrow> (ld_object \<times> ld_input_sym \<times> nat) list" where
  "sym_entries obs = concat (map (\<lambda>ob. map (Pair ob) (zip (ob_syms ob) (ob_sym_map ob))) obs)"

definition has_section :: "ld_input_sym \<Rightarrow> bool" where
  "has_section y \<longleftrightarrow> iy_binding y = STB_LOCAL \<and> iy_type y = STT_SECTION \<or> iy_shndx y \<noteq> SHN_UNDEF \<and> iy_shndx y \<noteq> SHN_ABS"

definition sym_address :: "ld_object \<Rightarrow> ld_input_sym \<Rightarrow> u32" where
  "sym_address ob y =
     is_vaddr (ob_sections ob ! iy_shndx y) + (if iy_binding y = STB_LOCAL \<and> iy_type y = STT_SECTION then 0 else iy_value y)"

definition definitions_of :: "nat \<Rightarrow> ld_object list \<Rightarrow> (ld_object \<times> ld_input_sym \<times> nat) list" where
  "definitions_of gi obs = filter (\<lambda>(ob, y, k). k = gi \<and> has_section y) (sym_entries obs)"

definition last_address :: "u32 \<Rightarrow> (ld_object \<times> ld_input_sym \<times> nat) list \<Rightarrow> u32" where
  "last_address v es = foldl (\<lambda>_ (ob, y, _). sym_address ob y) v es"

lemma last_address_append: "last_address v (xs @ ys) = last_address (last_address v xs) ys"
  by (simp add: last_address_def)

lemma last_address_last: "es \<noteq> [] \<Longrightarrow> last_address v es = (case last es of (ob, y, _) \<Rightarrow> sym_address ob y)"
  by (cases es rule: rev_cases) (auto simp: last_address_def)

lemma resolve_sym_result:
  "resolve_sym ob y g = Some g' \<Longrightarrow>
     gs_obj_idx g' = gs_obj_idx g \<and> (0 \<le> gs_obj_idx g \<longrightarrow> gs_value g' = (if has_section y then sym_address ob y else gs_value g))"
  by (auto simp: resolve_sym_def has_section_def sym_address_def split: if_splits)

lemma resolve_syms_result:
  assumes "resolve_syms ob es gs = Some gs'"
  shows "length gs' = length gs \<and> gs_obj_idx (gs' ! gi) = gs_obj_idx (gs ! gi) \<and>
    (0 \<le> gs_obj_idx (gs ! gi) \<longrightarrow>
       gs_value (gs' ! gi) = last_address (gs_value (gs ! gi)) (filter (\<lambda>(ob, y, k). k = gi \<and> has_section y) (map (Pair ob) es)))"
  using assms
proof (induction ob es gs rule: resolve_syms.induct)
  case (2 ob y k es gs)
  obtain g where k: "k < length gs" and g: "resolve_sym ob y (gs ! k) = Some g" and r: "resolve_syms ob es (gs[k := g]) = Some gs'"
    using 2(2) by (auto simp: bind_eq_Some_conv split: if_splits)
  show ?case using 2(1) [OF k g r] resolve_sym_result [OF g] k by (cases "k = gi") (auto simp: last_address_def)
qed (simp add: last_address_def)

lemma resolve_objs_result:
  assumes "resolve_objs obs gs = Some gs'"
  shows "length gs' = length gs \<and> gs_obj_idx (gs' ! gi) = gs_obj_idx (gs ! gi) \<and>
    (0 \<le> gs_obj_idx (gs ! gi) \<longrightarrow> gs_value (gs' ! gi) = last_address (gs_value (gs ! gi)) (definitions_of gi obs))"
  using assms
proof (induction obs arbitrary: gs)
  case (Cons ob obs)
  obtain gs1 where s: "resolve_syms ob (zip (ob_syms ob) (ob_sym_map ob)) gs = Some gs1" and r: "resolve_objs obs gs1 = Some gs'"
    using Cons.prems by (auto simp: bind_eq_Some_conv)
  show ?case using resolve_syms_result [OF s, of gi] Cons.IH [OF r]
    by (simp add: definitions_of_def sym_entries_def last_address_append)
qed (simp add: definitions_of_def sym_entries_def last_address_def)


lemma has_section_code [code]:
  "has_section y \<longleftrightarrow>
     iy_binding y = STB_LOCAL \<and> iy_type y = STT_SECTION \<or> iy_shndx y \<noteq> SHN_UNDEF \<and> int (iy_shndx y) \<noteq> 0xFFF1"
  by (simp add: has_section_def)



text \<open>A local symbol of one object takes part in the resolution of the others: a global definition of the same name in a
  later object is refused as a duplicate, and a global reference binds to the local symbol. With the objects in the other
  order the link succeeds.\<close>

theorem ld_local_captures_global:
  "Option.is_none (ld_layout (demo_link [demo_obj 7 [demo_sym ''f'' 0 1 STB_LOCAL], demo_obj 9 [demo_sym ''f'' 2 1 STB_GLOBAL]] None)) \<and>
   map_option (\<lambda>ln. (map ob_sym_map (ln_objs ln), map gs_defined (ln_syms ln)))
     (ld_layout (demo_link [demo_obj 7 [demo_sym ''f'' 0 1 STB_LOCAL], demo_obj 9 [demo_sym ''f'' 0 SHN_UNDEF STB_GLOBAL]] None)) =
     Some ([[0], [0]], [True]) \<and>
   \<not> Option.is_none (ld_layout (demo_link [demo_obj 9 [demo_sym ''f'' 2 1 STB_GLOBAL], demo_obj 7 [demo_sym ''f'' 0 1 STB_LOCAL]] None))"
  by code_simp

end
