(* ===== verification/Spec2Isabelle.thy ===== *)
theory Spec2Isabelle
  imports Frame_Targets Mips_Passes Mips_Reloc Mips_Object Ld_Layout
begin

text \<open>
  A verification development for the skjegg compiler suite. The suite compiles several source languages to one
  three-address intermediate representation, gives its temps registers and stack slots for five targets, assembles and links
  the result, and runs it in user-mode emulators. The development follows that path: the representation, the register
  allocators and frames of all five backends, and then the MIPS tool chain from assembler source over relocatable objects and
  the linker to the interpreter and its guest memory.

  \<^bold>\<open>Conventions.\<close> One definition stands for one C function, or for one loop or branch of a long one. State is a record that is
  passed and returned; a buffer that is indexed is a function or a list with its length beside it; \<open>uint8_t\<close> to \<open>uint64_t\<close> are
  words, and \<open>int\<close> is \<open>int\<close> with the bound written out where the code can pass it. \<open>None\<close> is \<open>die()\<close> or behaviour the C
  standard leaves undefined, so a theorem that a result is \<open>Some\<close> is a theorem of safety. Host allocation is assumed to succeed
  except in the guest memory, where its failure is a parameter.

  \<^bold>\<open>Representation and register allocation.\<close>
  \<^item> \<open>Prelude\<close> holds the integer types and conversions and the shared facts on lists, options and words.
  \<^item> \<open>Ir\<close> is \<^verbatim>\<open>ir/ir.h\<close> and \<^verbatim>\<open>ir/ir.c\<close>: opcodes, instructions, functions, the builder, and the classification of temps
    as single-precision floats, which is proved to be what the instructions say of the temp.
  \<^item> \<open>Linscan\<close> is the function \<open>linscan\<close> that \<^verbatim>\<open>backend/regalloc_mips.c\<close>, \<open>_rv\<close>, \<open>_cf\<close>, \<open>_x86\<close> and \<open>_arm64\<close> each carry;
    \<open>qsort\<close> is the locale \<open>interval_qsort\<close>, a permutation sorted by start, interpreted on an insertion sort.
    \<open>Linscan_Correct\<close> proves the invariant of the scan: live intervals never share a register or a spill slot.
  \<^item> \<open>Regalloc\<close> is the rest of the five allocators: liveness, pending arguments, registers that extended asm reserves, and
    \<open>regalloc\<close> itself. \<open>Regalloc_Correct\<close> states what a liveness loop promises as the locales \<open>live_scan\<close>, \<open>arg_scan\<close> (arguments stay
    live up to their call) and \<open>call_scan\<close> (calls are noted), proves the allocation lemmas in them, and interprets one
    of them for each backend.
  \<^item> \<open>Frame\<close> and \<open>Frame_Targets\<close> are the frame layouts of \<^verbatim>\<open>backend/mips_emit.c\<close>, \<^verbatim>\<open>cf_emit.c\<close>, \<^verbatim>\<open>rv_select.c\<close>,
    \<^verbatim>\<open>x86_select.c\<close> and \<^verbatim>\<open>arm64_select.c\<close>. For every backend, two temps live at one instruction have disjoint homes, counted
    in registers and in bytes of the frame. The theorems on ColdFire 64-bit spills and AArch64 float arguments show where the
    code does not keep to this.

  \<^bold>\<open>Emulator.\<close>
  \<^item> \<open>Mips_Trace\<close> is the trace ring of \<^verbatim>\<open>emu/mips32.h\<close>, a refinement of the list of events.
  \<^item> \<open>Guest_Mem\<close> is \<^verbatim>\<open>emu/guest.c\<close> and \<^verbatim>\<open>emu/guest.h\<close>: regions, the two-level page table, its caches, mapping and
    unmapping. \<open>Guest_Mem_Correct\<close> proves over every reachable memory (the inductive predicate \<open>gm_reach\<close>) that no freed page is
    used, that the caches keep page protection, that commitment is bounded, and that sized access refines an array of bytes.
  \<^item> \<open>Mips_Emu\<close> is \<^verbatim>\<open>emu/mips32.c\<close>, every instruction of \<open>mips_step\<close> and the batched run; \<open>Mips_User\<close> is
    \<^verbatim>\<open>emu/mips_user.c\<close>, the core bound to a guest memory and a system-call handler. \<open>Mips_Emu_Correct\<close> has the delay slots, the zero
    register, overflow, multiplication and division. \<open>Mips_Machine\<close> states what the core needs of its bus as the locale
    \<open>mips_bus\<close>, proves unaligned access in it, and interprets it on the guest memory.

  \<^bold>\<open>Assembler.\<close>
  \<^item> \<open>Asm_Lex\<close> and \<open>Asm_Obj\<close> are \<^verbatim>\<open>as/asm_lex.c\<close> and \<^verbatim>\<open>as/asm_obj.c\<close>: tokens, sections, relocations, symbols.
  \<^item> \<open>Mips_Encode\<close> is \<^verbatim>\<open>as/mips_encode.c\<close>, \<open>Mips_Parse\<close> is \<^verbatim>\<open>as/mips_parse.c\<close>. \<open>Mips_Passes\<close> proves that the sizing and the
    emitting pass stay in step, hence that labels are where the emitted code puts them.
  \<^item> \<open>Mips_Exec\<close> runs encoded words on the emulator: arithmetic mnemonics, shifts and \<open>li\<close> do what they say.
  \<^item> \<open>Mips_Elf\<close> is the object writer \<^verbatim>\<open>as/mips_elf.c\<close>, up to the bytes of the file.

  \<^bold>\<open>Linker.\<close>
  \<^item> \<open>Ld_Link\<close> is \<^verbatim>\<open>ld/link.c\<close> and \<^verbatim>\<open>ld/ld.h\<close> up to relocation: symbol collection, layout, symbol resolution, debug sections.
    \<open>Ld_Layout\<close> proves that the image holds every matched section and that symbols have their addresses, and shows how a weak
    definition displaces a strong one.
  \<^item> \<open>Mips_Link\<close> has the relocations of \<open>ld_link\<close> (ColdFire) and of \<^verbatim>\<open>ld/mips_link.c\<close>. \<open>Mips_Reloc\<close> follows \<open>la\<close>, \<open>j\<close>, \<open>jal\<close>,
    \<open>beq\<close> and \<open>bne\<close> from the assembler over the folding of the object writer and the relocation of the linker to the
    emulator, which loads the address of the symbol or goes to it.
  \<^item> \<open>Mips_Read\<close> is the object reader \<^verbatim>\<open>ld/mips_elf_read.c\<close>. \<open>Mips_Object\<close> proves that it reads back the sections, symbols
    and relocations that the writer was given.

  \<^bold>\<open>Bounds and termination.\<close> Loops over source text end by a measure, the characters and include levels a lexer has left
  (\<open>work\<close>); the other loops recurse on lists or on a count that the code itself has, such as the budget of a batch. There is
  no fuel. The object round trip assumes a file below 4 GiB, as its offsets are 32-bit, fewer symbols than the 24 bits of a relocation
  entry can number, names without a NUL, and lengths that are not negative. The linked \<open>la\<close> assumes that the value with its
  carry fits \<open>int32_t\<close>.

  \<^bold>\<open>Parameters.\<close> \<open>qsort\<close>, the host's floating point, the system-call handler \<open>guest_syscall\<close>, \<open>sched_private\<close>, the allocation of
  guest pages and the linker script, which its parser would give.

  \<^bold>\<open>Not modelled.\<close> Instruction selection of the backends and the printing of its result; the encoders, linkers and
  interpreters of the other targets; the delay-slot scheduler and the DWARF output of the assembler; opening included files;
  linker scripts, archives and the writing of executables; the front ends, the preprocessor, the just-in-time compilers, the
  guest run-time libraries, the file server, the debugger and the command lines.
\<close>

end
